(* ===== verification/Holo_Prelude.thy ===== *)
theory Holo_Prelude
  imports Main "HOL-Library.Word" "HOL-Library.Monad_Syntax"
begin

text \<open>
  Shared vocabulary of the development: the error type of the crate
  (\<^verbatim>\<open>HNSQRError\<close> in \<^verbatim>\<open>src/src/lib.rs\<close>), the result type of fallible operations, the
  collections of rewrite rules the component theories fill, list facts on prefixes of
  logs, and the interface of quorum systems with its interpretation on the majorities
  that the consensus code counts.

  Conventions used by every theory.
  \<^item> A fallible operation returns \<open>'a res\<close>: \<open>Inl\<close> carries the error.
  \<^item> A value of type \<open>'a option\<close> returned by an operation is \<open>None\<close> where the Rust call
    does not return: it panics (an \<^verbatim>\<open>unwrap\<close>, an assertion, a subtraction below zero) or
    it loops forever.
  \<^item> An error message is kept as its constant text; the values interpolated by
    \<^verbatim>\<open>format!\<close> are left out.
  \<^item> \<^verbatim>\<open>u64\<close> terms, indices and counters are \<open>nat\<close>; integers are words where the code
    cuts them into bytes or relies on a width.
\<close>

section \<open>Errors and results\<close>

datatype hnsqr_error =
    DimensionMismatch nat nat
  | NodeNotFound string
  | NodeIndexNotFound nat
  | NodeAlreadyExists string
  | IndexFull nat
  | SearchError string
  | ConcurrencyError string
  | InvalidConfig string
  | InvalidRequest string
  | SerializationError string
  | IoError string
  | SnapshotIncompatible string
  | CorruptedSnapshot string
  | Internal string
  | StaleEpoch string
  | Unauthorized string
  | UnsupportedFeature string
  | CertifiedDeadlineExceeded nat nat nat nat

type_synonym 'a res = "hnsqr_error + 'a"

text \<open>The \<^verbatim>\<open>Display\<close> text of an error, without the numbers it interpolates.\<close>

fun error_text :: "hnsqr_error \<Rightarrow> string" where
  "error_text (DimensionMismatch e a) = ''Vector dimension mismatch''"
| "error_text (NodeNotFound s) = ''Node not found: '' @ s"
| "error_text (NodeIndexNotFound i) = ''Node index out of bounds''"
| "error_text (NodeAlreadyExists s) = ''Node already exists: '' @ s"
| "error_text (IndexFull c) = ''Index is full''"
| "error_text (SearchError s) = ''Search error: '' @ s"
| "error_text (ConcurrencyError s) = ''Concurrency error: '' @ s"
| "error_text (InvalidConfig s) = ''Invalid configuration: '' @ s"
| "error_text (InvalidRequest s) = ''Invalid request: '' @ s"
| "error_text (SerializationError s) = ''Serialization error: '' @ s"
| "error_text (IoError s) = ''I/O error: '' @ s"
| "error_text (SnapshotIncompatible s) = ''Snapshot incompatible: '' @ s"
| "error_text (CorruptedSnapshot s) = ''Corrupted snapshot/log: '' @ s"
| "error_text (Internal s) = ''Internal error: '' @ s"
| "error_text (StaleEpoch s) = ''Stale topology epoch: '' @ s"
| "error_text (Unauthorized s) = ''Unauthorized: '' @ s"
| "error_text (UnsupportedFeature s) = ''Unsupported feature: '' @ s"
| "error_text (CertifiedDeadlineExceeded a b c d) = ''Certified search deadline exceeded''"

fun is_ok :: "'e + 'a \<Rightarrow> bool" where
  "is_ok (Inl e) = False"
| "is_ok (Inr x) = True"

fun is_err :: "'e + 'a \<Rightarrow> bool" where
  "is_err (Inl e) = True"
| "is_err (Inr x) = False"

lemma is_err_iff [simp]: "is_err r \<longleftrightarrow> \<not> is_ok r"
  by (cases r) auto

lemma is_ok_iff: "is_ok r \<longleftrightarrow> (\<exists>x. r = Inr x)"
  by (cases r) auto

definition u64_max :: nat where
  "u64_max = 2 ^ 64 - 1"

definition saturating_add :: "nat \<Rightarrow> nat \<Rightarrow> nat" where
  "saturating_add a b = min u64_max (a + b)"

section \<open>Rewrite collections\<close>

named_theorems handler_simps \<open>defining equations of message handlers\<close>
named_theorems storage_simps \<open>defining equations of storage operations\<close>
named_theorems pending_simps \<open>defining equations of the proposal registry\<close>

section \<open>Prefixes of lists\<close>

lemma take_Suc_eq_nth:
  assumes "take (Suc i) xs = take (Suc i) ys" and "i < length xs"
  shows "i < length ys \<and> xs ! i = ys ! i"
proof -
  have l: "i < length ys"
  proof (rule ccontr)
    assume "\<not> i < length ys"
    then have "length (take (Suc i) ys) = length ys" by simp
    moreover have "length (take (Suc i) xs) = Suc i" using assms(2) by simp
    ultimately show False using assms(1) \<open>\<not> i < length ys\<close> by simp
  qed
  have "take (Suc i) xs ! i = take (Suc i) ys ! i" using assms(1) by simp
  then show ?thesis using l by simp
qed

lemma take_eq_mono:
  assumes "take n xs = take n ys" and "m \<le> n"
  shows "take m xs = take m ys"
proof -
  have "take m (take n xs) = take m (take n ys)" using assms(1) by simp
  then show ?thesis using assms(2) by (simp add: min_def)
qed

lemma take_Suc_eqI:
  assumes "take n xs = take n ys" and "n < length xs" and "n < length ys"
    and "xs ! n = ys ! n"
  shows "take (Suc n) xs = take (Suc n) ys"
  using assms by (simp add: take_Suc_conv_app_nth)

lemma map_of_filter_key:
  "map_of (filter (\<lambda>(k', v). k' \<noteq> k) xs) = (map_of xs)(k := None)"
  by (induction xs) (auto simp: fun_eq_iff)

lemma disjoint_insert_sub:
  "A \<subseteq> insert n B \<Longrightarrow> n \<notin> C \<Longrightarrow> B \<inter> C = {} \<Longrightarrow> A \<inter> C = {}"
  by blast

lemma distinct_fst_filter:
  "distinct (map fst xs) \<Longrightarrow> distinct (map fst (filter P xs))"
  by (rule distinct_map_filter)

section \<open>Sequences of operations\<close>

text \<open>Runs a list of operations; an operation that does not return ends the run.\<close>

fun run_ops :: "('o \<Rightarrow> 's \<Rightarrow> 's option) \<Rightarrow> 'o list \<Rightarrow> 's \<Rightarrow> 's option" where
  "run_ops f [] s = Some s"
| "run_ops f (x # xs) s = (case f x s of None \<Rightarrow> None | Some s' \<Rightarrow> run_ops f xs s')"

lemma run_ops_invariant:
  assumes "run_ops f xs s = Some t" and "I s"
    and "\<And>x s t. f x s = Some t \<Longrightarrow> I s \<Longrightarrow> I t"
  shows "I t"
  using assms(1,2)
proof (induction xs arbitrary: s)
  case (Cons x xs)
  then show ?case using assms(3) by (fastforce split: option.splits)
qed simp

text \<open>An operation under a guard: a run that breaks the guard is not considered.\<close>

definition guarded ::
  "('a \<Rightarrow> 'c \<Rightarrow> bool) \<Rightarrow> ('a \<Rightarrow> 'c \<Rightarrow> 'c option) \<Rightarrow> 'a \<Rightarrow> 'c \<Rightarrow> 'c option" where
  "guarded ok f a c = (if ok a c then f a c else None)"

section \<open>Quorum systems\<close>

text \<open>
  The interface that the election and commit arguments rely on: two quorums share a
  member. The consensus code counts a quorum of a peer set of size \<open>n\<close> as
  \<open>n div 2 + 1\<close> members.
\<close>

locale quorum_system =
  fixes quorum :: "'a set \<Rightarrow> bool"
  assumes quorum_meet: "quorum Q \<Longrightarrow> quorum R \<Longrightarrow> \<exists>x. x \<in> Q \<and> x \<in> R"
    and quorum_upward: "quorum Q \<Longrightarrow> Q \<subseteq> R \<Longrightarrow> R \<subseteq> U \<Longrightarrow> quorum U \<Longrightarrow> quorum R"
begin

lemma quorum_nonempty: "quorum Q \<Longrightarrow> Q \<noteq> {}"
  using quorum_meet by blast

lemma quorum_disjoint: "quorum Q \<Longrightarrow> Q \<inter> R = {} \<Longrightarrow> \<not> quorum R"
  using quorum_meet by blast

text \<open>
  Votes are exclusive: when every member of a quorum backs \<open>a\<close> and every member of
  another backs \<open>b\<close>, and a member backs at most one, then \<open>a = b\<close>.
\<close>

lemma quorum_agree:
  assumes "quorum Q" and "quorum R"
    and "\<And>x. x \<in> Q \<Longrightarrow> f x = Some a" and "\<And>x. x \<in> R \<Longrightarrow> f x = Some b"
  shows "a = b"
proof -
  from quorum_meet [OF assms(1,2)] obtain x where "x \<in> Q" and "x \<in> R" by blast
  with assms(3,4) have "Some a = Some b" by metis
  then show ?thesis by simp
qed

end

definition quorum_size :: "nat list \<Rightarrow> nat" where
  "quorum_size peers = length peers div 2 + 1"

definition majority :: "nat list \<Rightarrow> nat set \<Rightarrow> bool" where
  "majority peers Q \<longleftrightarrow>
     distinct peers \<and> Q \<subseteq> set peers \<and> quorum_size peers \<le> card Q"

lemma majority_meet:
  assumes "majority P Q" and "majority P R"
  shows "\<exists>x. x \<in> Q \<and> x \<in> R"
proof (rule ccontr)
  assume "\<not> ?thesis"
  then have disj: "Q \<inter> R = {}" by blast
  have fin: "finite Q" "finite R"
    using assms by (auto simp: majority_def intro: finite_subset)
  have "card Q + card R = card (Q \<union> R)"
    using fin disj by (simp add: card_Un_disjoint)
  also have "\<dots> \<le> card (set P)"
    using assms by (intro card_mono) (auto simp: majority_def)
  also have "\<dots> \<le> length P" by (rule card_length)
  finally have "card Q + card R \<le> length P" .
  moreover have "length P div 2 + 1 \<le> card Q" and "length P div 2 + 1 \<le> card R"
    using assms by (simp_all add: majority_def quorum_size_def)
  ultimately show False by linarith
qed

interpretation maj: quorum_system "majority P" for P
proof unfold_locales
  fix Q R assume "majority P Q" "majority P R"
  then show "\<exists>x. x \<in> Q \<and> x \<in> R" by (rule majority_meet)
next
  fix Q R U assume "majority P Q" "Q \<subseteq> R" "R \<subseteq> U" "majority P U"
  then have "Q \<subseteq> R" and "R \<subseteq> set P" and "quorum_size P \<le> card Q" and "distinct P"
    by (auto simp: majority_def)
  moreover from this have "card Q \<le> card R"
    by (meson card_mono finite_set finite_subset)
  ultimately show "majority P R" by (simp add: majority_def)
qed

lemma majority_count:
  assumes "distinct P" and "quorum_size P \<le> length (filter p P)"
  shows "majority P {x \<in> set P. p x}"
proof -
  have "card {x \<in> set P. p x} = length (filter p P)"
    using assms(1) distinct_card [of "filter p P"] by simp
  with assms show ?thesis by (auto simp: majority_def)
qed

end
