(* ===== verification/Pending_Proposals.thy ===== *)
theory Pending_Proposals
  imports Holo_Prelude "HOL-Library.AList"
begin

text \<open>
  The registry of in-flight proposals, \<^verbatim>\<open>src/src/consensus/pending.rs\<close>. The
  \<^verbatim>\<open>HashMap\<close> of entries is an association list in the order the map iterates. A
  one-shot channel is a number drawn from \<open>next_channel\<close>; the sender is that number, and
  sending appends the pair of channel and result to \<open>delivered\<close>. The instants of the
  monotonic clock are \<open>int\<close>, in nanoseconds.
\<close>

section \<open>Data\<close>

type_synonym mutation_id = string

record proposal_id =
  prop_term :: nat
  prop_log_index :: nat

datatype durability_level = MemoryOnly | QuorumReplicated | QuorumDurableFsylog

record commit_receipt =
  cr_mutation_id :: mutation_id
  cr_term :: nat
  cr_log_index :: nat
  cr_quorum_committed :: bool
  cr_state_machine_applied :: bool
  cr_applied_index :: nat
  cr_topology_epoch :: nat
  cr_durability :: durability_level

datatype commit_status = Committed | Uncommitted | Unknown

datatype apply_error =
    LeadershipLost mutation_id nat nat commit_status
  | StateApplyFailed mutation_id string nat
  | StateMachineUnavailable nat
  | SequenceViolation string
  | QuorumUnavailable nat
  | ProposalTimedOut proposal_id
  | Deduplicated commit_receipt

record pending_entry =
  pe_sender :: nat
  pe_mutation_id :: mutation_id
  pe_created_at :: int

record pending_proposals =
  entries :: "(proposal_id \<times> pending_entry) list"
  max_capacity :: nat
  next_channel :: nat
  delivered :: "(nat \<times> (apply_error + commit_receipt)) list"

section \<open>Operations\<close>

text \<open>\<^verbatim>\<open>CommitReceipt::new_verified\<close> panics on an applied index of zero.\<close>

definition new_verified ::
  "mutation_id \<Rightarrow> nat \<Rightarrow> nat \<Rightarrow> nat \<Rightarrow> nat \<Rightarrow> durability_level \<Rightarrow> commit_receipt option" where
  "new_verified mid term log_index applied_index epoch durability =
     (if applied_index > 0
      then Some \<lparr>cr_mutation_id = mid, cr_term = term, cr_log_index = log_index,
                 cr_quorum_committed = True, cr_state_machine_applied = True,
                 cr_applied_index = applied_index, cr_topology_epoch = epoch,
                 cr_durability = durability\<rparr>
      else None)"

text \<open>\<^verbatim>\<open>impl From<ApplyError> for HNSQRError\<close>.\<close>

fun from_apply_error :: "apply_error \<Rightarrow> hnsqr_error" where
  "from_apply_error (LeadershipLost mid t i s) = Internal ''Leadership lost''"
| "from_apply_error (StateApplyFailed mid r i) = Internal ''State apply failed''"
| "from_apply_error (StateMachineUnavailable i) = Internal ''State machine unavailable''"
| "from_apply_error (SequenceViolation r) = Internal ''Sequence violation''"
| "from_apply_error (QuorumUnavailable t) = Internal ''Quorum unavailable''"
| "from_apply_error (ProposalTimedOut p) = Internal ''Proposal timed out''"
| "from_apply_error (Deduplicated r) = Internal ''Idempotent replay''"

definition pending_new :: "nat \<Rightarrow> pending_proposals" where
  "pending_new cap = \<lparr>entries = [], max_capacity = cap, next_channel = 0, delivered = []\<rparr>"

definition pending_default :: pending_proposals where
  "pending_default = pending_new 65536"

definition send :: "nat \<Rightarrow> apply_error + commit_receipt \<Rightarrow> pending_proposals \<Rightarrow> pending_proposals"
  where "send ch r pp = pp\<lparr>delivered := delivered pp @ [(ch, r)]\<rparr>"

definition register ::
  "int \<Rightarrow> proposal_id \<Rightarrow> mutation_id \<Rightarrow> pending_proposals \<Rightarrow> nat res \<times> pending_proposals" where
  "register now proposal mid pp =
     (if max_capacity pp \<le> length (entries pp)
      then (Inl (Internal ''Pending proposals queue saturated''), pp)
      else (Inr (next_channel pp),
            pp\<lparr>entries := AList.update proposal
                 \<lparr>pe_sender = next_channel pp, pe_mutation_id = mid, pe_created_at = now\<rparr>
                 (entries pp),
               next_channel := Suc (next_channel pp)\<rparr>))"

definition complete_applied ::
  "proposal_id \<Rightarrow> nat \<Rightarrow> nat \<Rightarrow> nat \<Rightarrow> durability_level \<Rightarrow> pending_proposals \<Rightarrow>
     (bool \<times> pending_proposals) option" where
  "complete_applied proposal term applied_index epoch durability pp =
     (case map_of (entries pp) proposal of
        Some e \<Rightarrow>
          (let pp1 = pp\<lparr>entries := AList.delete proposal (entries pp)\<rparr> in
           do { receipt \<leftarrow> new_verified (pe_mutation_id e) term (prop_log_index proposal)
                             applied_index epoch durability;
                Some (True, send (pe_sender e) (Inr receipt) pp1) })
      | None \<Rightarrow> Some (False, pp))"

definition fail_proposal ::
  "proposal_id \<Rightarrow> apply_error \<Rightarrow> pending_proposals \<Rightarrow> bool \<times> pending_proposals" where
  "fail_proposal proposal err pp =
     (case map_of (entries pp) proposal of
        Some e \<Rightarrow> (True, send (pe_sender e) (Inl err)
                          (pp\<lparr>entries := AList.delete proposal (entries pp)\<rparr>))
      | None \<Rightarrow> (False, pp))"

fun lost_message :: "nat \<Rightarrow> proposal_id \<times> pending_entry \<Rightarrow> nat \<times> (apply_error + commit_receipt)"
  where "lost_message t (p, e) =
    (pe_sender e, Inl (LeadershipLost (pe_mutation_id e) t (prop_log_index p) Unknown))"

definition cancel_all_leadership_lost ::
  "nat \<Rightarrow> pending_proposals \<Rightarrow> nat \<times> pending_proposals" where
  "cancel_all_leadership_lost current_term pp =
     (length (entries pp),
      pp\<lparr>entries := [],
         delivered := delivered pp @ map (lost_message current_term) (entries pp)\<rparr>)"

fun timeout_message :: "proposal_id \<times> pending_entry \<Rightarrow> nat \<times> (apply_error + commit_receipt)"
  where "timeout_message (p, e) = (pe_sender e, Inl (ProposalTimedOut p))"

definition timed_out :: "int \<Rightarrow> int \<Rightarrow> proposal_id \<times> pending_entry \<Rightarrow> bool" where
  "timed_out now timeout x \<longleftrightarrow> max 0 (now - pe_created_at (snd x)) > timeout"

definition prune_timeouts ::
  "int \<Rightarrow> int \<Rightarrow> pending_proposals \<Rightarrow> nat \<times> pending_proposals" where
  "prune_timeouts now timeout pp =
     (let out = filter (timed_out now timeout) (entries pp) in
      (length out,
       pp\<lparr>entries := filter (\<lambda>x. \<not> timed_out now timeout x) (entries pp),
          delivered := delivered pp @ map timeout_message out\<rparr>))"

lemmas [pending_simps] =
  new_verified_def pending_new_def pending_default_def send_def register_def complete_applied_def
  fail_proposal_def cancel_all_leadership_lost_def prune_timeouts_def

definition pending_len :: "pending_proposals \<Rightarrow> nat" where
  "pending_len pp = length (entries pp)"

definition pending_is_empty :: "pending_proposals \<Rightarrow> bool" where
  "pending_is_empty pp \<longleftrightarrow> entries pp = []"

section \<open>Invariant\<close>

definition senders :: "pending_proposals \<Rightarrow> nat list" where
  "senders pp = map (pe_sender \<circ> snd) (entries pp)"

definition answered :: "pending_proposals \<Rightarrow> nat list" where
  "answered pp = map fst (delivered pp)"

text \<open>
  One entry per proposal, within capacity; every channel was drawn from the counter, has
  at most one answer, and no channel still waiting has been answered.
\<close>

definition pending_inv :: "pending_proposals \<Rightarrow> bool" where
  "pending_inv pp \<longleftrightarrow>
     distinct (map fst (entries pp)) \<and>
     length (entries pp) \<le> max_capacity pp \<and>
     distinct (senders pp @ answered pp) \<and>
     set (senders pp @ answered pp) \<subseteq> {..<next_channel pp}"

lemmas pending_defs = senders_def answered_def pending_inv_def send_def

lemma map_of_split:
  assumes "map_of xs k = Some v" and "distinct (map fst xs)"
  obtains ys zs where "xs = ys @ (k, v) # zs" and "AList.delete k xs = ys @ zs"
proof -
  from map_of_SomeD [OF assms(1)] obtain ys zs where xs: "xs = ys @ (k, v) # zs"
    by (auto simp: in_set_conv_decomp)
  with assms(2) have "k \<notin> fst ` set ys" and "k \<notin> fst ` set zs" by auto
  then have "AList.delete k ys = ys" and "AList.delete k zs = zs"
    by (simp_all add: delete_idem)
  then have "AList.delete k xs = ys @ zs"
    by (simp add: xs AList.delete_eq)
  with xs show ?thesis by (rule that)
qed

lemma pending_inv_new: "pending_inv (pending_new cap)"
  by (simp add: pending_new_def pending_defs)

lemma answer_one:
  assumes inv: "pending_inv pp" and e: "map_of (entries pp) p = Some e"
  shows "pending_inv (send (pe_sender e) r (pp\<lparr>entries := AList.delete p (entries pp)\<rparr>))"
proof -
  from inv have "distinct (map fst (entries pp))" by (simp add: pending_inv_def)
  then obtain ys zs where "entries pp = ys @ (p, e) # zs"
      and "AList.delete p (entries pp) = ys @ zs"
    by (rule map_of_split [OF e])
  with inv show ?thesis by (auto simp: pending_defs)
qed

lemma complete_applied_inv:
  assumes "complete_applied p t a ep d pp = Some (b, pp')" and "pending_inv pp"
  shows "pending_inv pp'"
  using assms
  by (auto simp: complete_applied_def Let_def answer_one split: option.splits bind_splits)

lemma fail_proposal_inv:
  assumes "pending_inv pp" shows "pending_inv (snd (fail_proposal p err pp))"
  using assms by (auto simp: fail_proposal_def answer_one split: option.splits)

lemma fst_lost_message [simp]: "fst (lost_message t x) = pe_sender (snd x)"
  by (cases x) simp

lemma fst_timeout_message [simp]: "fst (timeout_message x) = pe_sender (snd x)"
  by (cases x) simp

lemma cancel_all_inv:
  assumes "pending_inv pp" shows "pending_inv (snd (cancel_all_leadership_lost t pp))"
  using assms
  by (auto simp: cancel_all_leadership_lost_def pending_defs comp_def)

lemma prune_timeouts_inv:
  assumes "pending_inv pp" shows "pending_inv (snd (prune_timeouts now timeout pp))"
proof -
  let ?f = "\<lambda>x. pe_sender (snd x)"
  from assms have d: "distinct (map ?f (entries pp))"
    by (simp add: pending_defs comp_def)
  have disj: "?f ` {x \<in> set (entries pp). P x} \<inter> ?f ` {x \<in> set (entries pp). \<not> P x} = {}" for P
  proof -
    have "inj_on ?f (set (entries pp))" using d by (simp add: distinct_map)
    then show ?thesis by (auto simp: inj_on_def)
  qed
  from assms d disj [of "timed_out now timeout"] show ?thesis
    by (auto simp: prune_timeouts_def Let_def pending_defs comp_def distinct_map_filter
        intro: order_trans [OF length_filter_le])
qed

text \<open>Registering a proposal anew replaces its entry; otherwise it adds one.\<close>

lemma set_map_update:
  "set (map g (AList.update k v xs)) \<subseteq> insert (g (k, v)) (set (map g xs))"
  by (induction xs) auto

lemma distinct_map_update:
  assumes "distinct (map g xs)" and "g (k, v) \<notin> set (map g xs)"
  shows "distinct (map g (AList.update k v xs))"
  using assms
proof (induction xs)
  case (Cons x xs)
  then show ?case using set_map_update [of g k v xs] by (cases x) auto
qed simp

lemma length_update_le: "length (AList.update k v xs) \<le> Suc (length xs)"
  by (induction xs) auto

lemma register_inv:
  assumes "pending_inv pp" shows "pending_inv (snd (register now p mid pp))"
proof (cases "max_capacity pp \<le> length (entries pp)")
  case False
  let ?e = "\<lparr>pe_sender = next_channel pp, pe_mutation_id = mid, pe_created_at = now\<rparr>"
  let ?f = "\<lambda>x. pe_sender (snd x)"
  let ?xs = "AList.update p ?e (entries pp)"
  from assms have f: "set (map ?f (entries pp)) \<subseteq> {..<next_channel pp}"
      and a: "fst ` set (delivered pp) \<subseteq> {..<next_channel pp}"
      and d: "distinct (map ?f (entries pp))"
      and i: "?f ` set (entries pp) \<inter> fst ` set (delivered pp) = {}"
    by (auto simp: pending_defs comp_def)
  have n: "next_channel pp \<notin> fst ` set (delivered pp)"
      "next_channel pp \<notin> set (map ?f (entries pp))"
    using a f by auto
  have d': "distinct (map ?f ?xs)"
    by (rule distinct_map_update [OF d]) (use n(2) in simp)
  have sub: "set (map ?f ?xs) \<subseteq> insert (next_channel pp) (?f ` set (entries pp))"
    using set_map_update [of ?f p ?e "entries pp"] by simp
  have i': "set (map ?f ?xs) \<inter> fst ` set (delivered pp) = {}"
    by (rule disjoint_insert_sub [OF sub n(1) i])
  have "insert (next_channel pp) (?f ` set (entries pp)) \<subseteq> {..<Suc (next_channel pp)}"
    using f by (auto simp: less_Suc_eq)
  with sub have b: "set (map ?f ?xs) \<subseteq> {..<Suc (next_channel pp)}"
    by (rule order_trans)
  have c: "fst ` set (delivered pp) \<subseteq> {..<Suc (next_channel pp)}"
    using a by (auto simp: less_Suc_eq)
  have l: "length ?xs \<le> max_capacity pp"
    using False length_update_le [of p ?e "entries pp"] by linarith
  have k: "distinct (map fst ?xs)" "distinct (map fst (delivered pp))"
    using assms by (simp_all add: pending_defs distinct_update)
  show ?thesis using False d' i' b c l k
    by (simp add: register_def pending_defs comp_def)
qed (use assms in \<open>simp add: register_def\<close>)

section \<open>Every waiter is answered at most once\<close>

text \<open>
  What the consensus code relies on: whatever operations run, in whatever order, a
  channel receives at most one answer, the answer never changes, and a channel that is
  still waiting has none.
\<close>

locale oneshot_registry =
  fixes inv :: "'r \<Rightarrow> bool"
    and waiting :: "'r \<Rightarrow> nat set"
    and answers :: "'r \<Rightarrow> (nat \<times> 'x) list"
    and operate :: "'o \<Rightarrow> 'r \<Rightarrow> 'r option"
  assumes operate_inv: "operate x r = Some r' \<Longrightarrow> inv r \<Longrightarrow> inv r'"
    and operate_answers: "operate x r = Some r' \<Longrightarrow> \<exists>ys. answers r' = answers r @ ys"
    and answered_once: "inv r \<Longrightarrow> distinct (map fst (answers r))"
    and waiting_unanswered: "inv r \<Longrightarrow> waiting r \<inter> fst ` set (answers r) = {}"
begin

lemma run_inv: "run_ops operate xs r = Some r' \<Longrightarrow> inv r \<Longrightarrow> inv r'"
  by (rule run_ops_invariant [where I = inv]) (auto intro: operate_inv)

lemma run_answers: "run_ops operate xs r = Some r' \<Longrightarrow> set (answers r) \<subseteq> set (answers r')"
  by (rule run_ops_invariant [where I = "\<lambda>s. set (answers r) \<subseteq> set (answers s)"])
    (auto dest!: operate_answers)

lemma answer_final:
  assumes "inv r" and "run_ops operate xs r = Some r'"
    and "(ch, a) \<in> set (answers r)" and "(ch, b) \<in> set (answers r')"
  shows "a = b" and "ch \<notin> waiting r'"
proof -
  from assms(2,1) have i: "inv r'" by (rule run_inv)
  from assms(2,3) have m: "(ch, a) \<in> set (answers r')" using run_answers by blast
  with answered_once [OF i] assms(4) show "a = b" by (auto dest: eq_key_imp_eq_value)
  from waiting_unanswered [OF i] m show "ch \<notin> waiting r'" by force
qed

end

datatype pending_op =
    OpRegister int proposal_id mutation_id
  | OpComplete proposal_id nat nat nat durability_level
  | OpFail proposal_id apply_error
  | OpCancelAll nat
  | OpPrune int int

fun pending_step :: "pending_op \<Rightarrow> pending_proposals \<Rightarrow> pending_proposals option" where
  "pending_step (OpRegister now p mid) pp = Some (snd (register now p mid pp))"
| "pending_step (OpComplete p t a ep d) pp = map_option snd (complete_applied p t a ep d pp)"
| "pending_step (OpFail p e) pp = Some (snd (fail_proposal p e pp))"
| "pending_step (OpCancelAll t) pp = Some (snd (cancel_all_leadership_lost t pp))"
| "pending_step (OpPrune now timeout) pp = Some (snd (prune_timeouts now timeout pp))"

lemma pending_step_inv:
  assumes "pending_step x pp = Some pp'" and "pending_inv pp"
  shows "pending_inv pp'"
  using assms
  by (cases x) (auto simp: register_inv fail_proposal_inv cancel_all_inv prune_timeouts_inv
      intro: complete_applied_inv)

lemma pending_step_delivered:
  assumes "pending_step x pp = Some pp'"
  shows "\<exists>ys. delivered pp' = delivered pp @ ys"
  using assms
  by (cases x) (auto simp: register_def complete_applied_def fail_proposal_def send_def Let_def
      cancel_all_leadership_lost_def prune_timeouts_def split: option.splits bind_splits)

interpretation pend: oneshot_registry pending_inv "set \<circ> senders" delivered pending_step
proof unfold_locales
  fix x r r' assume "pending_step x r = Some r'" and "pending_inv r"
  then show "pending_inv r'" by (rule pending_step_inv)
qed (auto simp: pending_step_delivered pending_inv_def answered_def)

lemma pending_step_capacity:
  "pending_step x pp = Some pp' \<Longrightarrow> max_capacity pp' = max_capacity pp"
  by (cases x) (auto simp: pending_simps Let_def split: option.splits bind_splits if_splits)

text \<open>No waiter is forgotten: every channel handed out is waiting or answered.\<close>

definition covered :: "pending_proposals \<Rightarrow> bool" where
  "covered pp \<longleftrightarrow> set (senders pp) \<union> set (answered pp) = {..<next_channel pp}"

fun fresh_op :: "pending_op \<Rightarrow> pending_proposals \<Rightarrow> bool" where
  "fresh_op (OpRegister now p mid) pp = (p \<notin> fst ` set (entries pp))"
| "fresh_op _ pp = True"

lemma update_fresh: "k \<notin> fst ` set xs \<Longrightarrow> AList.update k v xs = xs @ [(k, v)]"
  by (induction xs) auto

lemma covered_answer:
  assumes "pending_inv pp" and "covered pp" and "map_of (entries pp) p = Some e"
  shows "covered (send (pe_sender e) r (pp\<lparr>entries := AList.delete p (entries pp)\<rparr>))"
proof -
  from assms(1) have "distinct (map fst (entries pp))" by (simp add: pending_inv_def)
  then obtain ys zs where "entries pp = ys @ (p, e) # zs"
      and "AList.delete p (entries pp) = ys @ zs"
    by (rule map_of_split [OF assms(3)])
  with assms(2) show ?thesis by (auto simp: covered_def pending_defs)
qed

lemma covered_prune:
  assumes "covered pp" shows "covered (snd (prune_timeouts now timeout pp))"
proof -
  let ?f = "\<lambda>x. pe_sender (snd x)"
  have "?f ` {x \<in> set (entries pp). \<not> timed_out now timeout x} \<union>
        ?f ` {x \<in> set (entries pp). timed_out now timeout x} = ?f ` set (entries pp)"
    by auto
  moreover have "?f ` set (entries pp) \<union> fst ` set (delivered pp) = {..<next_channel pp}"
    using assms by (simp add: covered_def pending_defs)
  moreover have "A \<union> B = C \<Longrightarrow> C \<union> D = X \<Longrightarrow> A \<union> (D \<union> B) = X" for A B C D X :: "nat set"
    by blast
  ultimately have "?f ` {x \<in> set (entries pp). \<not> timed_out now timeout x} \<union>
      (fst ` set (delivered pp) \<union> ?f ` {x \<in> set (entries pp). timed_out now timeout x}) =
      {..<next_channel pp}"
    by simp
  then show ?thesis
    by (simp add: covered_def prune_timeouts_def Let_def pending_defs image_image)
qed

lemma pending_step_covered:
  assumes "pending_step x pp = Some pp'" and "pending_inv pp" and "covered pp"
    and "fresh_op x pp"
  shows "covered pp'"
proof (cases x)
  case (OpRegister now p mid)
  with assms have "insert (next_channel pp) (set (senders pp) \<union> set (answered pp)) =
      {..<Suc (next_channel pp)}"
    by (simp add: covered_def lessThan_Suc)
  moreover from OpRegister assms(1) have "pp' = snd (register now p mid pp)" by simp
  ultimately show ?thesis using OpRegister assms(3,4)
    by (cases "max_capacity pp \<le> length (entries pp)")
      (simp_all add: register_def covered_def pending_defs update_fresh)
next
  case (OpComplete p t a ep d)
  with assms show ?thesis
    by (auto simp: complete_applied_def Let_def covered_answer split: option.splits bind_splits)
next
  case (OpFail p e)
  with assms show ?thesis
    by (auto simp: fail_proposal_def covered_answer split: option.splits)
next
  case (OpCancelAll t)
  with assms(1) have "pp' = snd (cancel_all_leadership_lost t pp)" by simp
  with assms(3) show ?thesis
    by (simp add: cancel_all_leadership_lost_def covered_def pending_defs image_image image_Un
        Un_commute)
next
  case (OpPrune now timeout)
  with assms show ?thesis by (auto simp: covered_prune)
qed

section \<open>Answers\<close>

text \<open>
  C16. Answers are final. Whatever sequence of registrations, completions, failures,
  cancellations and timeouts runs on a fresh registry, a channel that has been answered
  never receives a second, different answer and no longer waits.
\<close>

theorem answers_are_final:
  assumes "run_ops pending_step xs (pending_new cap) = Some pp" and "run_ops pending_step ys pp = Some pp'"
    and "(ch, a) \<in> set (delivered pp)" and "(ch, b) \<in> set (delivered pp')"
  shows "a = b \<and> ch \<notin> set (senders pp')"
  using pend.answer_final [OF pend.run_inv [OF assms(1) pending_inv_new] assms(2-4)] by simp

theorem answers_are_final_witness:
  "\<exists>pp pp'. run_ops pending_step
      [OpRegister 0 \<lparr>prop_term = 1, prop_log_index = 4\<rparr> ''a'',
       OpComplete \<lparr>prop_term = 1, prop_log_index = 4\<rparr> 1 4 1 QuorumReplicated] (pending_new 2) = Some pp \<and>
     run_ops pending_step [OpCancelAll 2, OpFail \<lparr>prop_term = 1, prop_log_index = 4\<rparr> (SequenceViolation ''x'')] pp =
       Some pp' \<and>
     (\<exists>a. (0, a) \<in> set (delivered pp) \<and> (0, a) \<in> set (delivered pp')) \<and> 0 \<notin> set (senders pp')"
proof -
  let ?p = "\<lparr>prop_term = 1, prop_log_index = 4\<rparr> :: proposal_id"
  let ?xs = "[OpRegister 0 ?p ''a'', OpComplete ?p 1 4 1 QuorumReplicated]"
  let ?ys = "[OpCancelAll 2, OpFail ?p (SequenceViolation ''x'')]"
  obtain pp pp' a where r: "run_ops pending_step ?xs (pending_new 2) = Some pp"
      "run_ops pending_step ?ys pp = Some pp'"
    and d: "(0, a) \<in> set (delivered pp)" "(0, a) \<in> set (delivered pp')"
    by (simp add: pending_simps)
  with answers_are_final [OF r d] show ?thesis by blast
qed

text \<open>
  C17. No waiter is lost. While no proposal is registered twice, every channel the
  registry has handed out is either still waiting or has its answer, and the registry
  never holds more than its capacity.
\<close>

theorem no_waiter_lost:
  assumes "run_ops (guarded fresh_op pending_step) xs (pending_new cap) = Some pp"
  shows "set (senders pp) \<union> set (answered pp) = {..<next_channel pp} \<and> pending_len pp \<le> cap"
proof -
  have "pending_inv pp \<and> covered pp \<and> max_capacity pp = cap"
    using assms
  proof (rule run_ops_invariant)
    show "pending_inv (pending_new cap) \<and> covered (pending_new cap) \<and> max_capacity (pending_new cap) = cap"
      using pending_inv_new by (simp add: pending_new_def covered_def senders_def answered_def)
    fix x s t assume "guarded fresh_op pending_step x s = Some t"
      and "pending_inv s \<and> covered s \<and> max_capacity s = cap"
    then show "pending_inv t \<and> covered t \<and> max_capacity t = cap"
      using pending_step_inv pending_step_covered pending_step_capacity
      by (auto simp: guarded_def split: if_splits)
  qed
  then show ?thesis by (simp add: covered_def pending_inv_def pending_len_def)
qed

theorem no_waiter_lost_witness:
  "\<exists>pp. run_ops (guarded fresh_op pending_step)
      [OpRegister 0 \<lparr>prop_term = 1, prop_log_index = 4\<rparr> ''a'', OpRegister 0 \<lparr>prop_term = 1, prop_log_index = 5\<rparr> ''b'',
       OpComplete \<lparr>prop_term = 1, prop_log_index = 4\<rparr> 1 4 1 QuorumReplicated] (pending_new 2) = Some pp \<and>
     set (senders pp) \<union> set (answered pp) = {..<2} \<and> pending_len pp \<le> 2"
proof -
  let ?p = "\<lparr>prop_term = 1, prop_log_index = 4\<rparr> :: proposal_id"
  let ?xs = "[OpRegister 0 ?p ''a'', OpRegister 0 \<lparr>prop_term = 1, prop_log_index = 5\<rparr> ''b'',
    OpComplete ?p 1 4 1 QuorumReplicated]"
  obtain pp where r: "run_ops (guarded fresh_op pending_step) ?xs (pending_new 2) = Some pp"
    and n: "next_channel pp = 2"
    by (simp add: pending_simps guarded_def)
  from no_waiter_lost [OF r] n r show ?thesis by auto
qed

end
