(* ===== verification/Read_Index.thy ===== *)
theory Read_Index
  imports Holo_Prelude
begin

text \<open>
  The read-index engine, \<^verbatim>\<open>src/src/consensus/read_index.rs\<close>: rounds that confirm
  leadership before a linearizable read, leader leases, and the wait for the applied
  index. Instants and durations are \<open>int\<close> nanoseconds; the clock reading of a call is its
  argument \<open>now\<close>. A \<^verbatim>\<open>HashSet\<close> of confirmations is a list without duplicates. A context
  identifier is a 64-bit word. The random salt of an identifier is an argument.
\<close>

unbundle bit_operations_syntax

section \<open>Data\<close>

type_synonym read_context_id = "64 word"

record read_index_request =
  rq_context :: read_context_id
  rq_term :: nat

record read_index_confirmation =
  cf_context :: read_context_id
  cf_term :: nat
  cf_node_id :: nat
  cf_success :: bool

datatype linearizable_read_mode = ReadIndex | LeaseRead nat nat

datatype read_consistency =
    Linearizable
  | LinearizableWithMode linearizable_read_mode
  | CommittedRead
  | BoundedStaleness nat nat

record read_index_round =
  rd_term :: nat
  rd_confirmations :: "nat list"
  rd_created_at :: int

record read_index_engine =
  last_quorum_check :: int
  lease_duration :: int
  lease_term :: nat
  pending_rounds :: "read_context_id \<rightharpoonup> read_index_round"
  readindex_requests_total :: nat
  readindex_quorum_latency_us :: nat
  readindex_term_invalidations :: nat
  lease_reads_total :: nat
  lease_read_rejections :: nat
  lease_remaining_us :: nat

section \<open>Operations\<close>

definition from_millis :: "nat \<Rightarrow> int" where
  "from_millis ms = int ms * 1000000"

definition as_micros :: "int \<Rightarrow> nat" where
  "as_micros d = nat (d div 1000)"

definition elapsed :: "int \<Rightarrow> int \<Rightarrow> int" where
  "elapsed now since = max 0 (now - since)"

text \<open>
  \<^verbatim>\<open>ReadContextId::generate\<close>: the process-wide counter before and after the call, and
  the identifier, which carries the random salt in its upper half.
\<close>

definition generate :: "64 word \<Rightarrow> 32 word \<Rightarrow> read_context_id \<times> 64 word" where
  "generate counter salt = (counter XOR push_bit 32 (ucast salt), counter + 1)"

definition engine_new :: "int \<Rightarrow> int \<Rightarrow> read_index_engine" where
  "engine_new now lease =
     \<lparr>last_quorum_check = now - lease * 2, lease_duration = lease, lease_term = 0,
      pending_rounds = Map.empty, readindex_requests_total = 0,
      readindex_quorum_latency_us = 0, readindex_term_invalidations = 0,
      lease_reads_total = 0, lease_read_rejections = 0, lease_remaining_us = 0\<rparr>"

definition engine_default :: "int \<Rightarrow> read_index_engine" where
  "engine_default now = engine_new now (from_millis 250)"

definition start_read_index_round ::
  "int \<Rightarrow> read_context_id \<Rightarrow> nat \<Rightarrow> nat \<Rightarrow> read_index_engine \<Rightarrow>
     read_index_request \<times> read_index_engine" where
  "start_read_index_round now ctx term leader eng =
     (\<lparr>rq_context = ctx, rq_term = term\<rparr>,
      eng\<lparr>readindex_requests_total := readindex_requests_total eng + 1,
          pending_rounds := (pending_rounds eng)(ctx \<mapsto>
            \<lparr>rd_term = term, rd_confirmations = [leader], rd_created_at = now\<rparr>)\<rparr>)"

definition invalidate :: "read_index_engine \<Rightarrow> read_index_engine" where
  "invalidate eng =
     eng\<lparr>readindex_term_invalidations := readindex_term_invalidations eng + 1\<rparr>"

definition handle_confirmation ::
  "int \<Rightarrow> read_index_confirmation \<Rightarrow> nat \<Rightarrow> nat \<Rightarrow> read_index_engine \<Rightarrow>
     bool res \<times> read_index_engine" where
  "handle_confirmation now conf current_term quorum eng =
     (if cf_term conf \<noteq> current_term
      then (Inl (Internal ''ReadIndex confirmation term mismatch''), invalidate eng)
      else
        case pending_rounds eng (cf_context conf) of
          None \<Rightarrow> (Inr False, eng)
        | Some st \<Rightarrow>
            if rd_term st \<noteq> current_term
            then (Inl (Internal ''ReadIndex round invalidated due to term change''),
                  invalidate (eng\<lparr>pending_rounds :=
                    (pending_rounds eng)(cf_context conf := None)\<rparr>))
            else
              (let confs = (if cf_success conf then List.insert (cf_node_id conf) (rd_confirmations st)
                            else rd_confirmations st) in
               if quorum \<le> length confs
               then (Inr True,
                     eng\<lparr>readindex_quorum_latency_us := as_micros (elapsed now (rd_created_at st)),
                         pending_rounds := (pending_rounds eng)(cf_context conf := None)\<rparr>)
               else (Inr False,
                     eng\<lparr>pending_rounds := (pending_rounds eng)(cf_context conf \<mapsto>
                       st\<lparr>rd_confirmations := confs\<rparr>)\<rparr>)))"

definition validate_lease_contract :: "nat \<Rightarrow> nat \<Rightarrow> nat \<Rightarrow> unit res" where
  "validate_lease_contract lease_duration_ms max_clock_drift_ms election_timeout_ms =
     (if lease_duration_ms = 0
      then Inl (InvalidConfig ''Lease duration must be greater than 0 ms'')
      else if election_timeout_ms \<le> saturating_add lease_duration_ms max_clock_drift_ms
      then Inl (InvalidConfig ''Unsafe LeaseRead configuration'')
      else Inr ())"

definition verify_lease_read ::
  "int \<Rightarrow> nat \<Rightarrow> int \<Rightarrow> read_index_engine \<Rightarrow> unit res \<times> read_index_engine" where
  "verify_lease_read now current_term lease eng =
     (let eng1 = eng\<lparr>lease_reads_total := lease_reads_total eng + 1\<rparr>;
          reject = eng1\<lparr>lease_read_rejections := lease_read_rejections eng1 + 1\<rparr>;
          el = elapsed now (last_quorum_check eng) in
      if lease_term eng \<noteq> current_term
      then (Inl (Internal ''LeaseRead rejected: lease term''), reject)
      else if lease \<le> el
      then (Inl (Internal ''LeaseRead expired''), reject)
      else (Inr (), eng1\<lparr>lease_remaining_us := as_micros (lease - el)\<rparr>))"

definition record_quorum_success :: "int \<Rightarrow> nat \<Rightarrow> read_index_engine \<Rightarrow> read_index_engine" where
  "record_quorum_success now term eng = eng\<lparr>lease_term := term, last_quorum_check := now\<rparr>"

definition has_valid_lease :: "int \<Rightarrow> nat \<Rightarrow> read_index_engine \<Rightarrow> bool" where
  "has_valid_lease now current_term eng \<longleftrightarrow>
     lease_term eng = current_term \<and> elapsed now (last_quorum_check eng) < lease_duration eng"

text \<open>
  The polling loop of \<^verbatim>\<open>wait_applied\<close>. \<open>poll k\<close> is what the \<open>k\<close>-th iteration observes:
  the applied index and the time elapsed since the wait began.
\<close>

partial_function (option) wait_applied_from ::
  "(nat \<Rightarrow> nat \<times> int) \<Rightarrow> nat \<Rightarrow> int \<Rightarrow> nat \<Rightarrow> nat res option" where
  "wait_applied_from poll target timeout k =
     (if target \<le> fst (poll k) then Some (Inr (fst (poll k)))
      else if timeout < snd (poll k)
      then Some (Inl (Internal ''Timed out waiting for applied index''))
      else wait_applied_from poll target timeout (Suc k))"

declare wait_applied_from.simps [code]

definition wait_applied :: "(nat \<Rightarrow> nat \<times> int) \<Rightarrow> nat \<Rightarrow> int \<Rightarrow> nat res option" where
  "wait_applied poll target timeout = wait_applied_from poll target timeout 0"

section \<open>Rounds are counted exactly\<close>

text \<open>Feeds a list of confirmations to the engine and keeps the verdicts.\<close>

fun feed ::
  "int \<Rightarrow> nat \<Rightarrow> nat \<Rightarrow> read_index_confirmation list \<Rightarrow> read_index_engine \<Rightarrow>
     bool res list \<times> read_index_engine" where
  "feed now t q [] eng = ([], eng)"
| "feed now t q (c # cs) eng =
     (let step = handle_confirmation now c t q eng; rest = feed now t q cs (snd step)
      in (fst step # fst rest, snd rest))"

definition backers :: "nat \<Rightarrow> read_index_confirmation list \<Rightarrow> nat set" where
  "backers leader cs = insert leader (cf_node_id ` {c \<in> set cs. cf_success c})"

lemma backers_Nil [simp]: "backers l [] = {l}"
  by (simp add: backers_def)

lemma backers_Cons:
  "backers l (c # cs) = (if cf_success c then insert (cf_node_id c) (backers l cs) else backers l cs)"
  by (auto simp: backers_def)

lemma finite_backers [simp]: "finite (backers l cs)"
  by (simp add: backers_def)

lemma card_backers_append: "card (backers l cs) \<le> card (backers l (cs @ ds))"
  by (rule card_mono) (auto simp: backers_def)

text \<open>
  While a round is open, its confirmations are the backers seen so far, and it closes with
  the first confirmation that makes them a quorum.
\<close>

lemma open_round_confirmation:
  assumes "pending_rounds eng ctx = Some st" and "rd_term st = t"
    and "distinct (rd_confirmations st)" and "cf_context c = ctx" and "cf_term c = t"
  shows "fst (handle_confirmation now c t q eng) =
      Inr (q \<le> card (if cf_success c then insert (cf_node_id c) (set (rd_confirmations st))
                    else set (rd_confirmations st)))"
    and "\<not> q \<le> card (if cf_success c then insert (cf_node_id c) (set (rd_confirmations st))
                    else set (rd_confirmations st)) \<Longrightarrow>
      \<exists>st'. pending_rounds (snd (handle_confirmation now c t q eng)) ctx = Some st' \<and>
        rd_term st' = t \<and> distinct (rd_confirmations st') \<and>
        set (rd_confirmations st') =
          (if cf_success c then insert (cf_node_id c) (set (rd_confirmations st))
           else set (rd_confirmations st))"
proof -
  let ?cs = "if cf_success c then List.insert (cf_node_id c) (rd_confirmations st)
             else rd_confirmations st"
  have s: "set ?cs = (if cf_success c then insert (cf_node_id c) (set (rd_confirmations st))
                    else set (rd_confirmations st))" by simp
  have d: "distinct ?cs" using assms(3) by simp
  have l: "length ?cs = card (set ?cs)" using d by (simp add: distinct_card)
  show "fst (handle_confirmation now c t q eng) =
      Inr (q \<le> card (if cf_success c then insert (cf_node_id c) (set (rd_confirmations st))
                    else set (rd_confirmations st)))"
    using assms(1,2,4,5) unfolding s [symmetric] l [symmetric]
    by (simp add: handle_confirmation_def Let_def)
  show "\<not> q \<le> card (if cf_success c then insert (cf_node_id c) (set (rd_confirmations st))
                    else set (rd_confirmations st)) \<Longrightarrow>
      \<exists>st'. pending_rounds (snd (handle_confirmation now c t q eng)) ctx = Some st' \<and>
        rd_term st' = t \<and> distinct (rd_confirmations st') \<and>
        set (rd_confirmations st') =
          (if cf_success c then insert (cf_node_id c) (set (rd_confirmations st))
           else set (rd_confirmations st))"
    using assms d unfolding s [symmetric] l [symmetric]
    by (simp add: handle_confirmation_def Let_def)
qed

lemma feed_verdicts:
  assumes "pending_rounds eng ctx = Some st" and "rd_term st = t"
    and "distinct (rd_confirmations st)"
    and "\<forall>c \<in> set (cs @ [c']). cf_context c = ctx \<and> cf_term c = t"
    and "card (set (rd_confirmations st) \<union> backers l cs) < q"
    and "l \<in> set (rd_confirmations st)"
  shows "last (fst (feed now t q (cs @ [c']) eng)) =
    Inr (q \<le> card (set (rd_confirmations st) \<union> backers l (cs @ [c'])))"
  using assms
proof (induction cs arbitrary: eng st)
  case Nil
  have "fst (handle_confirmation now c' t q eng) =
      Inr (q \<le> card (if cf_success c' then insert (cf_node_id c') (set (rd_confirmations st))
                    else set (rd_confirmations st)))"
    using Nil by (intro open_round_confirmation(1)) auto
  moreover have "set (rd_confirmations st) \<union> backers l [c'] =
      (if cf_success c' then insert (cf_node_id c') (set (rd_confirmations st))
       else set (rd_confirmations st))"
    using Nil(6) by (auto simp: backers_def)
  ultimately show ?case by (simp add: Let_def)
next
  case (Cons c cs)
  let ?S = "if cf_success c then insert (cf_node_id c) (set (rd_confirmations st))
            else set (rd_confirmations st)"
  have S: "?S \<union> backers l cs = set (rd_confirmations st) \<union> backers l (c # cs)"
    and S': "?S \<union> backers l (cs @ [c']) = set (rd_confirmations st) \<union> backers l ((c # cs) @ [c'])"
    by (auto simp: backers_Cons)
  have "card ?S \<le> card (set (rd_confirmations st) \<union> backers l (c # cs))"
    unfolding S [symmetric] by (rule card_mono) auto
  then have nq: "\<not> q \<le> card ?S" using Cons.prems(5) by linarith
  have c: "cf_context c = ctx" "cf_term c = t" using Cons.prems(4) by simp_all
  from open_round_confirmation(2) [OF Cons.prems(1-3) c nq]
  obtain st' where st': "pending_rounds (snd (handle_confirmation now c t q eng)) ctx = Some st'"
      "rd_term st' = t" "distinct (rd_confirmations st')" "set (rd_confirmations st') = ?S"
    by blast
  have "last (fst (feed now t q (cs @ [c']) (snd (handle_confirmation now c t q eng)))) =
    Inr (q \<le> card (set (rd_confirmations st') \<union> backers l (cs @ [c'])))"
    by (rule Cons.IH [OF st'(1-3)]) (use Cons.prems S st'(4) in auto)
  moreover have "fst (feed now t q (cs @ [c']) e) \<noteq> []" for e
    by (cases cs) (auto simp: Let_def)
  ultimately show ?case
    using S' st'(4) by (simp add: Let_def)
qed

lemma feed_length: "length (fst (feed now t q cs eng)) = length cs"
  by (induction cs arbitrary: eng) (simp_all add: Let_def)

lemma start_opens_round:
  "pending_rounds (snd (start_read_index_round now ctx t l eng)) ctx =
     Some \<lparr>rd_term = t, rd_confirmations = [l], rd_created_at = now\<rparr>"
  by (simp add: start_read_index_round_def)

section \<open>Leases\<close>

lemma validate_lease_contract_ok:
  assumes "validate_lease_contract ld drift et = Inr ()" and "et \<le> u64_max"
  shows "0 < ld" and "ld + drift < et"
  using assms by (auto simp: validate_lease_contract_def saturating_add_def split: if_splits)

lemma verify_lease_read_ok:
  assumes "fst (verify_lease_read now t lease eng) = Inr ()"
  shows "lease_term eng = t" and "now - last_quorum_check eng < lease"
  using assms by (auto simp: verify_lease_read_def Let_def elapsed_def split: if_splits)

section \<open>Context identifiers\<close>

text \<open>The lower half of an identifier is the counter, whatever the salt.\<close>

lemma generate_low_half:
  "take_bit 32 (fst (generate c s)) = take_bit 32 c"
  by (simp add: generate_def take_bit_xor take_bit_push_bit)

section \<open>The wait ends\<close>

lemma wait_applied_from_returns:
  assumes "target \<le> fst (poll (k + n)) \<or> timeout < snd (poll (k + n))"
  shows "\<exists>r. wait_applied_from poll target timeout k = Some r"
  using assms
proof (induction n arbitrary: k)
  case 0
  then show ?case by (subst wait_applied_from.simps) auto
next
  case (Suc n)
  then have "\<exists>r. wait_applied_from poll target timeout (Suc k) = Some r"
    by (intro Suc.IH) simp
  then show ?case by (subst wait_applied_from.simps) auto
qed

lemma wait_applied_from_sound:
  assumes ret: "wait_applied_from poll target timeout k = Some (Inr v)"
  shows "target \<le> v"
proof (rule wait_applied_from.raw_induct [where P = "\<lambda>poll target timeout k r. r = Inr v \<longrightarrow> target \<le> v",
      OF _ ret, THEN mp, OF _ refl])
  fix f :: "(nat \<Rightarrow> nat \<times> int) \<Rightarrow> nat \<Rightarrow> int \<Rightarrow> nat \<Rightarrow> nat res option" and poll target timeout k r
  assume IH: "\<And>poll target timeout k r. f poll target timeout k = Some r \<Longrightarrow> r = Inr v \<longrightarrow> target \<le> v"
    and eq: "(if target \<le> fst (poll k) then Some (Inr (fst (poll k)))
      else if timeout < snd (poll k)
      then Some (Inl (Internal ''Timed out waiting for applied index''))
      else f poll target timeout (Suc k)) = Some r"
  then show "r = Inr v \<longrightarrow> target \<le> v" by (auto split: if_splits)
qed

section \<open>Correctness of reads\<close>

text \<open>
  C18. ReadIndex rounds count voters exactly. After a leader has opened a round, a stream
  of confirmations for it answers yes at the first confirmation with which the distinct
  nodes that confirmed, the leader included, reach the quorum, and not before; repeated
  and negative confirmations do not count.
\<close>

theorem read_index_quorum_exact:
  assumes "\<forall>c \<in> set (cs @ [c']). cf_context c = ctx \<and> cf_term c = t"
    and "card (backers l cs) < q"
  shows "last (fst (feed now t q (cs @ [c']) (snd (start_read_index_round now0 ctx t l eng)))) =
    Inr (q \<le> card (backers l (cs @ [c'])))"
proof -
  let ?st = "\<lparr>rd_term = t, rd_confirmations = [l], rd_created_at = now0\<rparr>"
  have u: "set (rd_confirmations ?st) \<union> backers l ds = backers l ds" for ds
    by (auto simp: backers_def)
  have "last (fst (feed now t q (cs @ [c']) (snd (start_read_index_round now0 ctx t l eng)))) =
      Inr (q \<le> card (set (rd_confirmations ?st) \<union> backers l (cs @ [c'])))"
    by (rule feed_verdicts [OF start_opens_round], unfold u) (use assms in simp_all)
  then show ?thesis by (simp only: u)
qed

theorem read_index_quorum_exact_witness:
  "last (fst (feed 9 5 2
     ([\<lparr>cf_context = 7, cf_term = 5, cf_node_id = 1, cf_success = True\<rparr>,
       \<lparr>cf_context = 7, cf_term = 5, cf_node_id = 2, cf_success = False\<rparr>] @
      [\<lparr>cf_context = 7, cf_term = 5, cf_node_id = 3, cf_success = True\<rparr>])
     (snd (start_read_index_round 0 7 5 1 (engine_default 0))))) = Inr True"
proof -
  let ?c = "\<lambda>i ok. \<lparr>cf_context = 7, cf_term = 5, cf_node_id = i, cf_success = ok\<rparr>"
  have "card (backers 1 [?c 1 True, ?c 2 False]) < 2" "2 \<le> card (backers 1 ([?c 1 True, ?c 2 False] @ [?c 3 True]))"
    by (simp_all add: backers_Cons card_insert_if)
  with read_index_quorum_exact [of "[?c 1 True, ?c 2 False]" "?c 3 True" 7 5 1 2 9 0 "engine_default 0"]
  show ?thesis by (simp del: feed.simps)
qed

text \<open>
  C19. Lease reads stay inside the election timeout. When the lease contract is accepted
  and a lease read is then served, the last quorum contact was in the current term and
  lies back by less than the election timeout even after the clock drift is added.
\<close>

theorem lease_read_within_timeout:
  assumes "validate_lease_contract lease drift timeout = Inr ()" and "timeout \<le> u64_max"
    and "fst (verify_lease_read now t (from_millis lease) eng) = Inr ()"
  shows "lease_term eng = t \<and> now - last_quorum_check eng + from_millis drift < from_millis timeout"
proof -
  have "lease_term eng = t" "now - last_quorum_check eng < from_millis lease"
    using verify_lease_read_ok [OF assms(3)] by simp_all
  moreover have "from_millis lease + from_millis drift < from_millis timeout"
    using validate_lease_contract_ok(2) [OF assms(1,2)]
    by (simp add: from_millis_def flip: distrib_right of_nat_add)
  ultimately show ?thesis by linarith
qed

theorem lease_read_within_timeout_witness:
  "\<exists>eng. validate_lease_contract 250 50 1000 = Inr () \<and>
     fst (verify_lease_read 100 3 (from_millis 250) eng) = Inr () \<and>
     lease_term eng = 3 \<and> 100 - last_quorum_check eng + from_millis 50 < from_millis 1000"
proof -
  let ?e = "record_quorum_success 0 3 (engine_default 0)"
  have v: "validate_lease_contract 250 50 1000 = Inr ()" "(1000::nat) \<le> u64_max"
    by (simp_all add: validate_lease_contract_def saturating_add_def u64_max_def)
  have r: "fst (verify_lease_read 100 3 (from_millis 250) ?e) = Inr ()"
    by (simp add: verify_lease_read_def record_quorum_success_def elapsed_def from_millis_def Let_def)
  from lease_read_within_timeout [OF v r] v r show ?thesis by blast
qed



text \<open>
  Read contexts do not collide. Two identifiers drawn at counter values that differ
  in their lower 32 bits differ, whatever the random salts.
\<close>

theorem context_ids_distinct:
  assumes "take_bit 32 c \<noteq> take_bit 32 d"
  shows "fst (generate c s) \<noteq> fst (generate d s')"
  using assms generate_low_half [of c s] generate_low_half [of d s'] by metis

theorem context_ids_distinct_witness: "fst (generate 1 5) \<noteq> fst (generate 2 9)"
proof -
  have "take_bit 32 (1 :: 64 word) \<noteq> take_bit 32 2" by simp
  from context_ids_distinct [OF this] show ?thesis .
qed

end
