(* ===== verification/Durability_Control.thy ===== *)
theory Durability_Control
  imports Holo_Prelude Complex_Main
begin

text \<open>
  The adaptive batching controller, \<^verbatim>\<open>src/src/consensus/durability_controller.rs\<close>, with
  the operator intents of \<^verbatim>\<open>src/src/planning/autoforge.rs\<close>. Floating-point intents are
  rationals; integer divisions are those of the code.
\<close>

datatype operator_intent =
    CertifiedExact
  | HighRecall rat
  | LatencyBudget nat
  | ResourceBudget nat

record storage_telemetry =
  p50_fsync_micros :: nat
  p99_fsync_micros :: nat
  mutation_arrival_rate_per_sec :: nat
  outstanding_wal_bytes :: nat
  replication_rtt_micros :: nat

record durability_batch_plan =
  plan_max_batch_size :: nat
  max_batch_delay_micros :: nat
  flush_cadence_micros :: nat
  pipeline_window_depth :: nat
  is_direct_io :: bool

record durability_controller =
  dc_intent :: operator_intent
  dc_telemetry :: storage_telemetry
  max_commit_sla_micros :: nat
  dc_current_plan :: durability_batch_plan

definition telemetry_default :: storage_telemetry where
  "telemetry_default = \<lparr>p50_fsync_micros = 0, p99_fsync_micros = 0,
     mutation_arrival_rate_per_sec = 0, outstanding_wal_bytes = 0, replication_rtt_micros = 0\<rparr>"

definition plan_windows ::
  "operator_intent \<Rightarrow> storage_telemetry \<Rightarrow> nat \<Rightarrow> nat \<times> nat \<times> nat \<times> nat" where
  "plan_windows intent tel sla =
     (case intent of
        LatencyBudget max_micros \<Rightarrow>
          (let target = min max_micros sla; delay = max (target div 4) 200
           in (32, delay, delay div 2, 2))
      | ResourceBudget mb \<Rightarrow> (512, min 10000 sla, 5000, 8)
      | _ \<Rightarrow>
          if p99_fsync_micros tel > 10000 then (256, max (sla div 2) 1000, 2000, 6)
          else if mutation_arrival_rate_per_sec tel > 10000 then (128, 1000, 500, 4)
          else (64, 2000, 1000, 4))"

definition recalculate_plan :: "durability_controller \<Rightarrow> durability_controller" where
  "recalculate_plan dc =
     (case plan_windows (dc_intent dc) (dc_telemetry dc) (max_commit_sla_micros dc) of
        (max_batch, max_delay, cadence, depth) \<Rightarrow>
          dc\<lparr>dc_current_plan :=
               \<lparr>plan_max_batch_size = max_batch, max_batch_delay_micros = max_delay,
                flush_cadence_micros = cadence, pipeline_window_depth = depth,
                is_direct_io = (outstanding_wal_bytes (dc_telemetry dc) > 64 * 1024 * 1024)\<rparr>\<rparr>)"

definition controller_new :: "operator_intent \<Rightarrow> nat \<Rightarrow> durability_controller" where
  "controller_new intent sla =
     recalculate_plan
       \<lparr>dc_intent = intent, dc_telemetry = telemetry_default, max_commit_sla_micros = sla,
        dc_current_plan = \<lparr>plan_max_batch_size = 64, max_batch_delay_micros = 2000,
          flush_cadence_micros = 1000, pipeline_window_depth = 4, is_direct_io = False\<rparr>\<rparr>"

definition controller_default :: durability_controller where
  "controller_default = controller_new CertifiedExact 20000"

definition record_telemetry :: "storage_telemetry \<Rightarrow> durability_controller \<Rightarrow> durability_controller"
  where "record_telemetry tel dc = recalculate_plan (dc\<lparr>dc_telemetry := tel\<rparr>)"

definition set_operator_intent :: "operator_intent \<Rightarrow> durability_controller \<Rightarrow> durability_controller"
  where "set_operator_intent intent dc = recalculate_plan (dc\<lparr>dc_intent := intent\<rparr>)"

definition current_plan :: "durability_controller \<Rightarrow> durability_batch_plan" where
  "current_plan dc = dc_current_plan dc"

section \<open>The plan always belongs to the current intent, telemetry and target\<close>

definition plan_current :: "durability_controller \<Rightarrow> bool" where
  "plan_current dc \<longleftrightarrow> recalculate_plan dc = dc"

lemma recalculate_frame [simp]:
  "dc_intent (recalculate_plan dc) = dc_intent dc"
  "dc_telemetry (recalculate_plan dc) = dc_telemetry dc"
  "max_commit_sla_micros (recalculate_plan dc) = max_commit_sla_micros dc"
  by (simp_all add: recalculate_plan_def split: prod.splits)

lemma recalculate_idem: "plan_current (recalculate_plan dc)"
  by (simp add: plan_current_def recalculate_plan_def split: prod.splits)

lemma plan_current_ops:
  "plan_current (controller_new i s)"
  "plan_current (record_telemetry tel dc)"
  "plan_current (set_operator_intent i dc)"
  by (simp_all add: controller_new_def record_telemetry_def set_operator_intent_def recalculate_idem)

lemma plan_current_delay:
  assumes "plan_current dc"
  shows "max_batch_delay_micros (current_plan dc) =
    fst (snd (plan_windows (dc_intent dc) (dc_telemetry dc) (max_commit_sla_micros dc)))"
proof -
  have "current_plan dc = dc_current_plan (recalculate_plan dc)"
    using assms by (simp add: plan_current_def current_plan_def)
  then show ?thesis by (simp add: recalculate_plan_def split: prod.splits)
qed

lemma plan_windows_delay_le:
  assumes "2000 \<le> sla" shows "fst (snd (plan_windows i tel sla)) \<le> sla"
  using assms by (auto simp: plan_windows_def Let_def split: operator_intent.splits)

section \<open>Runs of the controller\<close>

datatype controller_op = RecordTelemetry storage_telemetry | SetIntent operator_intent

primrec controller_step :: "controller_op \<Rightarrow> durability_controller \<Rightarrow> durability_controller option" where
  "controller_step (RecordTelemetry tel) dc = Some (record_telemetry tel dc)"
| "controller_step (SetIntent i) dc = Some (set_operator_intent i dc)"

lemma controller_step_inv:
  assumes "controller_step x dc = Some dc'"
  shows "plan_current dc' \<and> max_commit_sla_micros dc' = max_commit_sla_micros dc"
  using assms by (cases x) (auto simp: plan_current_ops record_telemetry_def set_operator_intent_def recalculate_idem)

text \<open>
  C25. The batch delay keeps the commit target. Under any sequence of telemetry reports and
  intent changes the planned batch delay never exceeds a commit target of at least two
  milliseconds.
\<close>

theorem batch_delay_within_sla:
  assumes "run_ops controller_step xs (controller_new intent sla) = Some dc" and "2000 \<le> sla"
  shows "max_batch_delay_micros (current_plan dc) \<le> sla"
proof -
  have "plan_current dc \<and> max_commit_sla_micros dc = sla"
    using assms(1)
  proof (rule run_ops_invariant)
    show "plan_current (controller_new intent sla) \<and> max_commit_sla_micros (controller_new intent sla) = sla"
      by (simp add: plan_current_ops) (simp add: controller_new_def)
  qed (use controller_step_inv in force)
  with plan_current_delay [of dc] plan_windows_delay_le [OF assms(2)] show ?thesis by simp
qed

theorem batch_delay_within_sla_witness:
  "\<exists>dc. run_ops controller_step
      [SetIntent (LatencyBudget 3000), RecordTelemetry (telemetry_default\<lparr>p99_fsync_micros := 20000\<rparr>),
       SetIntent (HighRecall 1)] (controller_new CertifiedExact 2500) = Some dc \<and>
     max_batch_delay_micros (current_plan dc) \<le> 2500"
proof -
  let ?xs = "[SetIntent (LatencyBudget 3000), RecordTelemetry (telemetry_default\<lparr>p99_fsync_micros := 20000\<rparr>),
    SetIntent (HighRecall 1)]"
  obtain dc where r: "run_ops controller_step ?xs (controller_new CertifiedExact 2500) = Some dc" by simp
  from batch_delay_within_sla [OF r] r show ?thesis by auto
qed

text \<open>With a smaller commit target the delay of the default plan exceeds it.\<close>

lemma batch_delay_exceeds_small_sla:
  "max_commit_sla_micros (controller_new CertifiedExact 500) < max_batch_delay_micros (current_plan (controller_new CertifiedExact 500))"
  by (simp add: controller_new_def current_plan_def recalculate_plan_def plan_windows_def telemetry_default_def)

end
