(* ===== verification/Raft_Types.thy ===== *)
theory Raft_Types
  imports Pending_Proposals Read_Index Durability_Control
begin

text \<open>
  The data of the consensus engine: the first part of \<^verbatim>\<open>src/src/consensus/raft.rs\<close>
  (roles, commands, log entries, messages, batching and health metrics). The replicated
  mutation (\<^verbatim>\<open>DataMutation\<close>) is the type parameter \<open>'m\<close>: consensus only moves it.
  Floating-point scores are rationals.
\<close>

section \<open>Roles, commands and log entries\<close>

datatype raft_role = Follower | Candidate | Leader | Learner

record topology_mutation =
  tm_epoch :: nat
  tm_shard_owners :: "nat \<rightharpoonup> nat"

record membership_mutation =
  mm_new_peers :: "nat list"

datatype 'm raft_command =
    Data 'm
  | Topology topology_mutation
  | Membership membership_mutation
  | NoOp

record 'm raft_log_entry =
  le_term :: nat
  le_index :: nat
  le_command :: "'m raft_command"

section \<open>Messages\<close>

record request_vote_args =
  rv_term :: nat
  rv_candidate_id :: nat
  rv_last_log_index :: nat
  rv_last_log_term :: nat

record request_vote_reply =
  rvr_term :: nat
  rvr_vote_granted :: bool

record 'm append_entries_args =
  ae_term :: nat
  ae_leader_id :: nat
  ae_prev_log_index :: nat
  ae_prev_log_term :: nat
  ae_entries :: "'m raft_log_entry list"
  ae_leader_commit :: nat
  ae_is_heartbeat :: bool

record append_entries_reply =
  aer_term :: nat
  aer_success :: bool
  aer_match_index :: nat

datatype 'm raft_message =
    RequestVote request_vote_args
  | RequestVoteReply request_vote_reply
  | AppendEntries "'m append_entries_args"
  | AppendEntriesReply append_entries_reply

section \<open>Batching, health and telemetry\<close>

record adaptive_microbatcher =
  min_batch_size :: nat
  max_batch_size :: nat
  target_commit_latency_us :: nat

definition microbatcher_default :: adaptive_microbatcher where
  "microbatcher_default =
     \<lparr>min_batch_size = 1, max_batch_size = 512, target_commit_latency_us = 10000\<rparr>"

text \<open>\<^verbatim>\<open>Ord::clamp\<close> panics when the lower bound exceeds the upper one.\<close>

definition clamp :: "'a::linorder \<Rightarrow> 'a \<Rightarrow> 'a \<Rightarrow> 'a option" where
  "clamp lo hi x = (if lo \<le> hi then Some (if x < lo then lo else if hi < x then hi else x) else None)"

definition compute_optimal_batch_size ::
  "adaptive_microbatcher \<Rightarrow> rat \<Rightarrow> nat \<Rightarrow> nat \<Rightarrow> nat \<Rightarrow> nat \<Rightarrow> nat option" where
  "compute_optimal_batch_size mb rate fsync rtt depth sla =
     (let base_delay = max fsync rtt; headroom = sla - base_delay in
      do { rate_multiplier \<leftarrow> clamp 1 32 (rate / 1000);
           queue_factor \<leftarrow> clamp 1 64 (depth div 8);
           if headroom > 5000
           then clamp (min_batch_size mb) (max_batch_size mb)
                  (min_batch_size mb * queue_factor * nat (floor rate_multiplier))
           else Some (min_batch_size mb) })"

record storage_health_metrics =
  fsync_latency_p99_us :: nat
  disk_write_stall_count :: nat
  io_error_count :: nat
  free_disk_bytes :: nat
  is_read_only :: bool

definition health_default :: storage_health_metrics where
  "health_default = \<lparr>fsync_latency_p99_us = 200, disk_write_stall_count = 0,
     io_error_count = 0, free_disk_bytes = 1000000000000, is_read_only = False\<rparr>"

definition suitability_score :: "storage_health_metrics \<Rightarrow> rat" where
  "suitability_score h =
     (if is_read_only h \<or> io_error_count h > 0 \<or> free_disk_bytes h < 100000000 then - 1
      else let latency_penalty = min (of_nat (fsync_latency_p99_us h) / 1000) 50;
               stall_penalty = min (of_nat (disk_write_stall_count h) * 5) 50
           in max (100 - latency_penalty - stall_penalty) 0)"

definition record_error :: "storage_health_metrics \<Rightarrow> storage_health_metrics" where
  "record_error h = h\<lparr>io_error_count := io_error_count h + 1\<rparr>"

record raft_pipeline_telemetry =
  microbatch_size_last :: nat
  inflight_proposals :: nat
  fsync_ops_total :: nat
  leader_wal_p99_us :: nat
  quorum_commit_p99_us :: nat
  replication_rtt_us :: nat
  serialization_cpu_us :: nat
  queue_delay_us :: nat
  apply_delay_us :: nat
  leadership_transfers_total :: nat

definition pipeline_telemetry_default :: raft_pipeline_telemetry where
  "pipeline_telemetry_default = \<lparr>microbatch_size_last = 0, inflight_proposals = 0,
     fsync_ops_total = 0, leader_wal_p99_us = 0, quorum_commit_p99_us = 0,
     replication_rtt_us = 0, serialization_cpu_us = 0, queue_delay_us = 0,
     apply_delay_us = 0, leadership_transfers_total = 0\<rparr>"

section \<open>Facts\<close>

lemma clamp_bounds: "clamp lo hi x = Some y \<Longrightarrow> lo \<le> y \<and> y \<le> hi"
  by (auto simp: clamp_def split: if_splits)

lemma clamp_returns: "lo \<le> hi \<Longrightarrow> \<exists>y. clamp lo hi x = Some y"
  by (simp add: clamp_def)

lemma compute_optimal_batch_size_bounds:
  assumes "min_batch_size mb \<le> max_batch_size mb"
  shows "\<exists>b. compute_optimal_batch_size mb rate fsync rtt depth sla = Some b \<and>
    min_batch_size mb \<le> b \<and> b \<le> max_batch_size mb"
proof -
  obtain r where r: "clamp 1 32 (rate / 1000) = Some r"
    using clamp_returns [of "1::rat" 32] by auto
  obtain q where q: "clamp 1 64 (depth div 8) = Some q"
    using clamp_returns [of "1::nat" 64] by auto
  obtain b where b: "clamp (min_batch_size mb) (max_batch_size mb)
      (min_batch_size mb * q * nat (floor r)) = Some b"
    using clamp_returns [OF assms] by blast
  show ?thesis using r q b assms clamp_bounds [OF b]
    by (simp add: compute_optimal_batch_size_def Let_def)
qed

lemma suitability_range: "- 1 \<le> suitability_score h \<and> suitability_score h \<le> 100"
  by (auto simp: suitability_score_def Let_def min_def max_def)

end
