(* ===== verification/Le_Bytes.thy ===== *)
theory Le_Bytes
  imports Holo_Prelude
begin

text \<open>
  Little-endian byte encodings of fixed-width integers: \<^verbatim>\<open>to_le_bytes\<close> and
  \<^verbatim>\<open>from_le_bytes\<close> of the Rust standard library, on byte lists. Shared by the record
  frames of the Raft storage and by the write-ahead log.
\<close>

type_synonym byte = "8 word"

fun to_le :: "nat \<Rightarrow> nat \<Rightarrow> byte list" where
  "to_le 0 x = []"
| "to_le (Suc n) x = word_of_nat x # to_le n (x div 256)"

fun from_le :: "byte list \<Rightarrow> nat" where
  "from_le [] = 0"
| "from_le (b # bs) = unat b + 256 * from_le bs"

lemma length_to_le [simp]: "length (to_le n x) = n"
  by (induction n arbitrary: x) auto

lemma unat_byte_of_nat: "unat (word_of_nat x :: byte) = x mod 256"
  by (simp add: unat_of_nat)

lemma from_le_to_le: "from_le (to_le n x) = x mod 256 ^ n"
proof (induction n arbitrary: x)
  case (Suc n)
  then show ?case by (simp add: unat_byte_of_nat mod_mult2_eq)
qed simp

lemma from_le_bound: "from_le bs < 256 ^ length bs"
proof (induction bs)
  case (Cons b bs)
  have "unat b < 256" using unsigned_less [of b, where ?'a = nat] by simp
  moreover have "from_le bs + 1 \<le> 256 ^ length bs" using Cons by simp
  then have "256 * (from_le bs + 1) \<le> 256 * 256 ^ length bs" by (rule mult_le_mono2)
  ultimately show ?case by simp
qed simp

lemma to_le_from_le: "to_le (length bs) (from_le bs) = bs"
proof (induction bs)
  case (Cons b bs)
  have lt: "unat b < 256" using unsigned_less [of b, where ?'a = nat] by simp
  then have "(unat b + 256 * from_le bs) div 256 = from_le bs" by simp
  moreover have "(word_of_nat (unat b + 256 * from_le bs) :: byte) = b"
  proof (rule word_unat_eq_iff [THEN iffD2])
    show "unat (word_of_nat (unat b + 256 * from_le bs) :: byte) = unat b"
      by (simp only: unat_byte_of_nat) (use lt in simp)
  qed
  ultimately show ?case using Cons by simp
qed simp

definition u16_to_le :: "16 word \<Rightarrow> byte list" where
  "u16_to_le w = to_le 2 (unat w)"

definition u32_to_le :: "32 word \<Rightarrow> byte list" where
  "u32_to_le w = to_le 4 (unat w)"

definition u64_to_le :: "64 word \<Rightarrow> byte list" where
  "u64_to_le w = to_le 8 (unat w)"

definition u16_from_le :: "byte list \<Rightarrow> 16 word" where
  "u16_from_le bs = word_of_nat (from_le bs)"

definition u32_from_le :: "byte list \<Rightarrow> 32 word" where
  "u32_from_le bs = word_of_nat (from_le bs)"

definition u64_from_le :: "byte list \<Rightarrow> 64 word" where
  "u64_from_le bs = word_of_nat (from_le bs)"

lemma length_words_to_le [simp]:
  "length (u16_to_le a) = 2" "length (u32_to_le b) = 4" "length (u64_to_le c) = 8"
  by (simp_all add: u16_to_le_def u32_to_le_def u64_to_le_def)

lemma u16_round [simp]: "u16_from_le (u16_to_le w) = w"
  using unsigned_less [of w, where ?'a = nat] by (simp add: u16_from_le_def u16_to_le_def from_le_to_le)

lemma u32_round [simp]: "u32_from_le (u32_to_le w) = w"
  using unsigned_less [of w, where ?'a = nat] by (simp add: u32_from_le_def u32_to_le_def from_le_to_le)

lemma u64_round [simp]: "u64_from_le (u64_to_le w) = w"
  using unsigned_less [of w, where ?'a = nat] by (simp add: u64_from_le_def u64_to_le_def from_le_to_le)

text \<open>A slice \<^verbatim>\<open>buffer[a..b]\<close>.\<close>

definition slice :: "nat \<Rightarrow> nat \<Rightarrow> 'a list \<Rightarrow> 'a list" where
  "slice a b xs = take (b - a) (drop a xs)"

lemma slice_skip [simp]:
  "length xs = n \<Longrightarrow> n \<le> a \<Longrightarrow> slice a b (xs @ ys) = slice (a - n) (b - n) ys"
  by (auto simp: slice_def)

lemma slice_hit [simp]: "length xs = b \<Longrightarrow> slice 0 b (xs @ ys) = xs"
  by (simp add: slice_def)

lemma slice_all [simp]: "length xs = b \<Longrightarrow> slice 0 b xs = xs"
  by (simp add: slice_def)

lemma slice_take: "b \<le> k \<Longrightarrow> slice a b (take k xs) = slice a b xs"
  by (simp add: slice_def drop_take)

end
