(* ===== verification/Raft_Storage.thy ===== *)
theory Raft_Storage
  imports Raft_Types Le_Bytes
begin

text \<open>
  Persistence of the consensus state, \<^verbatim>\<open>src/src/consensus/storage.rs\<close>: the persisted
  records, the checksummed frames, the \<^verbatim>\<open>RaftStorage\<close> trait as a record of operations,
  and the in-memory implementation with its fault injection. The third-party codec
  (\<^verbatim>\<open>bincode\<close>) and checksum (\<^verbatim>\<open>crc32fast\<close>) are arguments of the frame functions.

  The interface that consensus relies on is the locale \<open>raft_storage_contract\<close>,
  interpreted here on \<open>mem_ops\<close>.
\<close>

section \<open>Persisted records\<close>

record raft_hard_state =
  hs_current_term :: nat
  hs_voted_for :: "nat option"

record raft_persistent_progress =
  pg_commit_index :: nat
  pg_last_applied :: nat
  pg_snapshot_index :: nat
  pg_snapshot_term :: nat

record raft_snapshot_meta =
  sm_last_included_index :: nat
  sm_last_included_term :: nat
  sm_topology_epoch :: nat

definition hard_state_default :: raft_hard_state where
  "hard_state_default = \<lparr>hs_current_term = 0, hs_voted_for = None\<rparr>"

definition progress_default :: raft_persistent_progress where
  "progress_default = \<lparr>pg_commit_index = 0, pg_last_applied = 0, pg_snapshot_index = 0,
     pg_snapshot_term = 0\<rparr>"

definition snapshot_meta_default :: raft_snapshot_meta where
  "snapshot_meta_default = \<lparr>sm_last_included_index = 0, sm_last_included_term = 0,
     sm_topology_epoch = 0\<rparr>"

section \<open>Frames\<close>

definition RAFT_FRAME_MAGIC :: "32 word" where
  "RAFT_FRAME_MAGIC = 0x52414654"

definition RAFT_FRAME_VERSION :: "16 word" where
  "RAFT_FRAME_VERSION = 1"

definition RAFT_FRAME_HEADER_SIZE :: nat where
  "RAFT_FRAME_HEADER_SIZE = 14"

definition encode_framed_record ::
  "(byte list \<Rightarrow> 32 word) \<Rightarrow> ('a \<Rightarrow> byte list option) \<Rightarrow> 'a \<Rightarrow> byte list res" where
  "encode_framed_record crc32 serialize rec =
     (case serialize rec of
        None \<Rightarrow> Inl (Internal ''Failed to serialize Raft record'')
      | Some payload \<Rightarrow>
          Inr (u32_to_le RAFT_FRAME_MAGIC @ u16_to_le RAFT_FRAME_VERSION @
               u32_to_le (word_of_nat (length payload)) @ u32_to_le (crc32 payload) @ payload))"

definition decode_framed_record ::
  "(byte list \<Rightarrow> 32 word) \<Rightarrow> (byte list \<Rightarrow> 'a option) \<Rightarrow> byte list \<Rightarrow> ('a \<times> nat) res" where
  "decode_framed_record crc32 deserialize buffer =
     (if length buffer < RAFT_FRAME_HEADER_SIZE
      then Inl (Internal ''Buffer too small for Raft frame header'')
      else if u32_from_le (slice 0 4 buffer) \<noteq> RAFT_FRAME_MAGIC
      then Inl (Internal ''Invalid Raft frame magic'')
      else if u16_from_le (slice 4 6 buffer) \<noteq> RAFT_FRAME_VERSION
      then Inl (Internal ''Unsupported Raft frame version'')
      else
        let payload_len = unat (u32_from_le (slice 6 10 buffer));
            expected_crc = u32_from_le (slice 10 14 buffer);
            total_frame_len = RAFT_FRAME_HEADER_SIZE + payload_len in
        if length buffer < total_frame_len
        then Inl (Internal ''Incomplete Raft frame payload (torn record)'')
        else
          let payload = slice RAFT_FRAME_HEADER_SIZE total_frame_len buffer in
          if crc32 payload \<noteq> expected_crc
          then Inl (Internal ''CRC32 checksum mismatch in Raft frame'')
          else case deserialize payload of
                 None \<Rightarrow> Inl (Internal ''Failed to deserialize Raft record payload'')
               | Some rec \<Rightarrow> Inr (rec, total_frame_len))"

lemma encode_framed_record_length:
  assumes "encode_framed_record crc ser x = Inr frame" and "ser x = Some p"
  shows "length frame = RAFT_FRAME_HEADER_SIZE + length p"
  using assms by (auto simp: encode_framed_record_def RAFT_FRAME_HEADER_SIZE_def)

lemma unat_len32: "n < 2 ^ 32 \<Longrightarrow> unat (word_of_nat n :: 32 word) = n"
  by (simp add: unat_of_nat)

lemma decode_encode:
  assumes "encode_framed_record crc ser x = Inr frame" and "ser x = Some p"
    and "length p < 2 ^ 32" and "de p = Some x"
  shows "decode_framed_record crc de (frame @ rest) = Inr (x, length frame)"
  using assms unat_len32 [of "length p"]
  by (auto simp: encode_framed_record_def decode_framed_record_def RAFT_FRAME_HEADER_SIZE_def Let_def)

lemma decode_torn:
  assumes "encode_framed_record crc ser x = Inr frame" and "ser x = Some p"
    and "length p < 2 ^ 32" and "k < length frame"
  shows "is_err (decode_framed_record crc de (take k frame))"
proof (cases "k < 14")
  case True
  with assms show ?thesis
    by (auto simp: decode_framed_record_def RAFT_FRAME_HEADER_SIZE_def)
next
  case False
  let ?h = "u32_to_le RAFT_FRAME_MAGIC @ u16_to_le RAFT_FRAME_VERSION @
            u32_to_le (word_of_nat (length p)) @ u32_to_le (crc p)"
  from assms(1,2) have f: "frame = ?h @ p" by (simp add: encode_framed_record_def)
  have k: "take k frame = ?h @ take (k - 14) p"
    using False by (simp add: f)
  have "k < 14 + length p" using assms(4) by (simp add: f)
  then show ?thesis using False unat_len32 [OF assms(3)]
    by (auto simp: decode_framed_record_def RAFT_FRAME_HEADER_SIZE_def k Let_def)
qed

lemma decode_sound:
  assumes "decode_framed_record crc de buffer = Inr (x, n)"
  shows "RAFT_FRAME_HEADER_SIZE \<le> n" and "n \<le> length buffer"
    and "de (slice RAFT_FRAME_HEADER_SIZE n buffer) = Some x"
    and "crc (slice RAFT_FRAME_HEADER_SIZE n buffer) = u32_from_le (slice 10 14 buffer)"
  using assms by (auto simp: decode_framed_record_def Let_def split: if_splits option.splits)

section \<open>The storage trait\<close>

record ('st, 'm) raft_storage =
  save_hard_state :: "'st \<Rightarrow> raft_hard_state \<Rightarrow> unit res \<times> 'st"
  load_hard_state :: "'st \<Rightarrow> raft_hard_state res"
  save_progress :: "'st \<Rightarrow> raft_persistent_progress \<Rightarrow> unit res \<times> 'st"
  load_progress :: "'st \<Rightarrow> raft_persistent_progress res"
  append_entries :: "'st \<Rightarrow> 'm raft_log_entry list \<Rightarrow> unit res \<times> 'st"
  truncate_suffix :: "'st \<Rightarrow> nat \<Rightarrow> unit res \<times> 'st"
  load_log_entries :: "'st \<Rightarrow> nat \<Rightarrow> 'm raft_log_entry list res"
  save_snapshot_meta :: "'st \<Rightarrow> raft_snapshot_meta \<Rightarrow> unit res \<times> 'st"
  load_snapshot_meta :: "'st \<Rightarrow> raft_snapshot_meta res"
  flush :: "'st \<Rightarrow> unit res \<times> 'st"

text \<open>The effect of \<^verbatim>\<open>append_entries\<close> on a log: overwrite in range, push otherwise.\<close>

definition put_entry :: "'m raft_log_entry list \<Rightarrow> 'm raft_log_entry \<Rightarrow> 'm raft_log_entry list" where
  "put_entry lg e = (if le_index e < length lg then lg[le_index e := e] else lg @ [e])"

definition put_entries :: "'m raft_log_entry list \<Rightarrow> 'm raft_log_entry list \<Rightarrow> 'm raft_log_entry list"
  where "put_entries lg es = foldl put_entry lg es"

text \<open>
  What consensus relies on. \<open>hs\<close>, \<open>pg\<close> and \<open>lg\<close> read the persisted hard state, progress
  and log; \<open>healthy\<close> holds while the device does not fail. A failed \<^verbatim>\<open>save_hard_state\<close>
  leaves either the old or the new record; no other operation touches the hard state.
\<close>

locale raft_storage_contract =
  fixes S :: "('st, 'm) raft_storage"
    and hs :: "'st \<Rightarrow> raft_hard_state"
    and pg :: "'st \<Rightarrow> raft_persistent_progress"
    and lg :: "'st \<Rightarrow> 'm raft_log_entry list"
    and healthy :: "'st \<Rightarrow> bool"
  assumes save_hs: "save_hard_state S st h = (Inr (), st') \<Longrightarrow> hs st' = h"
    and save_hs_err: "save_hard_state S st h = (Inl e, st') \<Longrightarrow> hs st' = hs st \<or> hs st' = h"
    and load_hs: "load_hard_state S st = Inr h \<Longrightarrow> h = hs st"
    and frame_hs: "hs (snd (save_progress S st p)) = hs st"
      "hs (snd (append_entries S st es)) = hs st"
      "hs (snd (truncate_suffix S st i)) = hs st"
    and grow_lg: "set (lg (snd (save_hard_state S st h))) \<subseteq> set (lg st)"
      "set (lg (snd (save_progress S st p))) \<subseteq> set (lg st)"
      "set (lg (snd (append_entries S st es))) \<subseteq> set (lg st) \<union> set es"
      "set (lg (snd (truncate_suffix S st i))) \<subseteq> set (lg st)"
      "load_log_entries S st i = Inr ls \<Longrightarrow> set ls \<subseteq> set (lg st)"
    and healthy_save_hs: "healthy st \<Longrightarrow> save_hard_state S st h = (r, st') \<Longrightarrow>
      r = Inr () \<and> healthy st' \<and> lg st' = lg st \<and> pg st' = pg st"
    and healthy_save_pg: "healthy st \<Longrightarrow> save_progress S st p = (r, st') \<Longrightarrow>
      r = Inr () \<and> healthy st' \<and> pg st' = p \<and> lg st' = lg st"
    and healthy_append: "healthy st \<Longrightarrow> append_entries S st es = (r, st') \<Longrightarrow>
      r = Inr () \<and> healthy st' \<and> lg st' = put_entries (lg st) es \<and> pg st' = pg st"
    and healthy_truncate: "healthy st \<Longrightarrow> truncate_suffix S st i = (r, st') \<Longrightarrow>
      r = Inr () \<and> healthy st' \<and> lg st' = take i (lg st) \<and> pg st' = pg st"
    and healthy_load: "healthy st \<Longrightarrow> load_hard_state S st = Inr (hs st)"
      "healthy st \<Longrightarrow> load_progress S st = Inr (pg st)"
      "healthy st \<Longrightarrow> load_log_entries S st i = Inr (drop i (lg st))"

section \<open>In-memory storage\<close>

record 'm memory_raft_storage =
  ms_hard_state :: raft_hard_state
  ms_progress :: raft_persistent_progress
  ms_snapshot_meta :: raft_snapshot_meta
  ms_log :: "'m raft_log_entry list"
  fail_before_vote_persist :: bool
  fail_after_vote_persist :: bool
  fail_before_log_persist :: bool
  fail_after_log_persist :: bool

definition sentinel :: "'m raft_log_entry" where
  "sentinel = \<lparr>le_term = 0, le_index = 0, le_command = NoOp\<rparr>"

definition mem_new :: "'m memory_raft_storage" where
  "mem_new = \<lparr>ms_hard_state = hard_state_default, ms_progress = progress_default,
     ms_snapshot_meta = snapshot_meta_default, ms_log = [sentinel],
     fail_before_vote_persist = False, fail_after_vote_persist = False,
     fail_before_log_persist = False, fail_after_log_persist = False\<rparr>"

definition mem_save_hard_state ::
  "'m memory_raft_storage \<Rightarrow> raft_hard_state \<Rightarrow> unit res \<times> 'm memory_raft_storage" where
  "mem_save_hard_state st h =
     (if fail_before_vote_persist st
      then (Inl (Internal ''Injected crash before vote persistence''), st)
      else let st' = st\<lparr>ms_hard_state := h\<rparr> in
           if fail_after_vote_persist st
           then (Inl (Internal ''Injected crash after vote persistence''), st')
           else (Inr (), st'))"

definition mem_append_entries ::
  "'m memory_raft_storage \<Rightarrow> 'm raft_log_entry list \<Rightarrow> unit res \<times> 'm memory_raft_storage" where
  "mem_append_entries st es =
     (if fail_before_log_persist st
      then (Inl (Internal ''Injected crash before log persistence''), st)
      else let st' = st\<lparr>ms_log := put_entries (ms_log st) es\<rparr> in
           if fail_after_log_persist st
           then (Inl (Internal ''Injected crash after log persistence''), st')
           else (Inr (), st'))"

definition mem_truncate_suffix ::
  "'m memory_raft_storage \<Rightarrow> nat \<Rightarrow> unit res \<times> 'm memory_raft_storage" where
  "mem_truncate_suffix st i =
     (if i < length (ms_log st) then (Inr (), st\<lparr>ms_log := take i (ms_log st)\<rparr>) else (Inr (), st))"

definition mem_load_log_entries ::
  "'m memory_raft_storage \<Rightarrow> nat \<Rightarrow> 'm raft_log_entry list res" where
  "mem_load_log_entries st i =
     (if i < length (ms_log st) then Inr (drop i (ms_log st)) else Inr [])"

definition mem_ops :: "('m memory_raft_storage, 'm) raft_storage" where
  "mem_ops =
     \<lparr>save_hard_state = mem_save_hard_state,
      load_hard_state = (\<lambda>st. Inr (ms_hard_state st)),
      save_progress = (\<lambda>st p. (Inr (), st\<lparr>ms_progress := p\<rparr>)),
      load_progress = (\<lambda>st. Inr (ms_progress st)),
      append_entries = mem_append_entries,
      truncate_suffix = mem_truncate_suffix,
      load_log_entries = mem_load_log_entries,
      save_snapshot_meta = (\<lambda>st m. (Inr (), st\<lparr>ms_snapshot_meta := m\<rparr>)),
      load_snapshot_meta = (\<lambda>st. Inr (ms_snapshot_meta st)),
      flush = (\<lambda>st. (Inr (), st))\<rparr>"

definition mem_healthy :: "'m memory_raft_storage \<Rightarrow> bool" where
  "mem_healthy st \<longleftrightarrow>
     \<not> fail_before_vote_persist st \<and> \<not> fail_after_vote_persist st \<and>
     \<not> fail_before_log_persist st \<and> \<not> fail_after_log_persist st"

lemmas [storage_simps] =
  mem_ops_def mem_save_hard_state_def mem_append_entries_def mem_truncate_suffix_def
  mem_load_log_entries_def

lemma set_put_entries: "set (put_entries l es) \<subseteq> set l \<union> set es"
proof (induction es arbitrary: l)
  case (Cons e es)
  have "set (put_entry l e) \<subseteq> insert e (set l)"
    by (auto simp: put_entry_def dest!: set_update_subset_insert [THEN subsetD])
  with Cons [of "put_entry l e"] show ?case by (auto simp: put_entries_def)
qed (simp add: put_entries_def)

interpretation mem: raft_storage_contract mem_ops ms_hard_state ms_progress ms_log mem_healthy
  by unfold_locales
    (auto simp: storage_simps mem_healthy_def Let_def split: if_splits
      dest: set_put_entries [THEN subsetD] in_set_takeD in_set_dropD)

section \<open>Appending to an indexed log\<close>

text \<open>A log is indexed when the entry at each position carries that position.\<close>

definition indexed :: "'m raft_log_entry list \<Rightarrow> bool" where
  "indexed l \<longleftrightarrow> (\<forall>i < length l. le_index (l ! i) = i)"

lemma indexed_append_iff:
  "indexed (l @ [e]) \<longleftrightarrow> indexed l \<and> le_index e = length l"
  by (auto simp: indexed_def nth_append less_Suc_eq)

lemma indexed_take: "indexed l \<Longrightarrow> indexed (take n l)"
  by (simp add: indexed_def)

lemma put_entry_next: "le_index e = length l \<Longrightarrow> put_entry l e = l @ [e]"
  by (simp add: put_entry_def)

lemma put_entries_next:
  assumes "indexed (l @ es)"
  shows "put_entries l es = l @ es"
  using assms
proof (induction es arbitrary: l)
  case (Cons e es)
  from Cons.prems have "le_index e = length l"
    by (auto simp: indexed_def dest: spec [of _ "length l"])
  with Cons.IH [of "l @ [e]"] Cons.prems show ?case
    by (simp add: put_entries_def put_entry_next)
qed (simp add: put_entries_def)

end
