(* ===== verification/Raft_Node.thy ===== *)
theory Raft_Node
  imports Raft_Storage
begin

text \<open>
  One Raft replica: \<^verbatim>\<open>RaftNode\<close> of \<^verbatim>\<open>src/src/consensus/raft.rs\<close>, every handler as a
  function from the node to its reply and the updated node. The interior locks of the
  Rust struct are its fields; a handler holds them for the whole call, as the single
  driver thread that calls the handlers does.

  \<^item> \<open>raft_env\<close> bundles what the node reaches through trait objects: the storage
    operations, \<^verbatim>\<open>ReplicatedStateMachine::apply\<close>, and \<^verbatim>\<open>DataMutation::mutation_id\<close>.
  \<^item> The set of voting peers is a list without duplicates, in iteration order.
  \<^item> \<open>now\<close> is the clock reading of the call; \<open>None\<close> is a call that does not return.
\<close>

section \<open>The node\<close>

record apply_receipt =
  ar_mutation_id :: mutation_id
  ar_applied_index :: nat
  ar_applied_generation :: nat
  ar_durable_lsn :: nat

record ('m, 'st, 'sm) raft_env =
  env_storage :: "('st, 'm) raft_storage"
  env_apply :: "'sm \<Rightarrow> nat \<Rightarrow> 'm \<Rightarrow> apply_receipt res \<times> 'sm"
  env_mutation_id :: "'m \<Rightarrow> mutation_id"

record ('m, 'st, 'sm) raft_node =
  node_id :: nat
  voting_peers :: "nat list"
  learners :: "nat list"
  role :: raft_role
  current_term :: nat
  voted_for :: "nat option"
  log :: "'m raft_log_entry list"
  commit_index :: nat
  last_applied :: nat
  leader_id :: "nat option"
  next_index :: "nat \<rightharpoonup> nat"
  match_index :: "nat \<rightharpoonup> nat"
  shard_owners :: "nat \<rightharpoonup> nat"
  topology_epoch :: nat
  last_heartbeat_received :: int
  warm_proof_shards :: "nat set"
  replicated_sm :: "'sm option"
  storage_health :: storage_health_metrics
  pipeline_telemetry :: raft_pipeline_telemetry
  microbatcher :: adaptive_microbatcher
  pending :: pending_proposals
  read_engine :: read_index_engine
  durability :: durability_controller
  storage :: 'st

section \<open>Construction and recovery\<close>

definition try_with_storage ::
  "('m, 'st, 'sm) raft_env \<Rightarrow> int \<Rightarrow> nat \<Rightarrow> nat list \<Rightarrow> 'st \<Rightarrow> ('m, 'st, 'sm) raft_node res" where
  "try_with_storage env now i peers st =
     (let S = env_storage env;
          peers_set = List.insert i (remdups peers);
          initial = (case load_log_entries S st 0 of
                       Inl e \<Rightarrow> Inl e
                     | Inr es \<Rightarrow>
                         if es \<noteq> [] then Inr (es, st)
                         else case append_entries S st [sentinel] of
                                (Inl e, st') \<Rightarrow> Inl e
                              | (Inr _, st') \<Rightarrow> Inr ([sentinel], st')) in
      case initial of
        Inl e \<Rightarrow> Inl e
      | Inr (initial_log, st1) \<Rightarrow>
          (case load_hard_state S st1 of
             Inl e \<Rightarrow> Inl e
           | Inr hard_state \<Rightarrow>
               (case load_progress S st1 of
                  Inl e \<Rightarrow> Inl e
                | Inr progress \<Rightarrow>
                    Inr \<lparr>node_id = i, voting_peers = peers_set, learners = [],
                         role = Follower, current_term = hs_current_term hard_state,
                         voted_for = hs_voted_for hard_state, log = initial_log,
                         commit_index = pg_commit_index progress,
                         last_applied = pg_last_applied progress, leader_id = None,
                         next_index = Map.empty, match_index = Map.empty,
                         shard_owners = Map.empty, topology_epoch = 1,
                         last_heartbeat_received = now, warm_proof_shards = {},
                         replicated_sm = None, storage_health = health_default,
                         pipeline_telemetry = pipeline_telemetry_default,
                         microbatcher = microbatcher_default, pending = pending_default,
                         read_engine = engine_default now,
                         durability = controller_default, storage = st1\<rparr>)))"

text \<open>\<^verbatim>\<open>with_storage\<close> panics on an error.\<close>

definition with_storage ::
  "('m, 'st, 'sm) raft_env \<Rightarrow> int \<Rightarrow> nat \<Rightarrow> nat list \<Rightarrow> 'st \<Rightarrow> ('m, 'st, 'sm) raft_node option" where
  "with_storage env now i peers st =
     (case try_with_storage env now i peers st of Inl e \<Rightarrow> None | Inr n \<Rightarrow> Some n)"

definition new_learner ::
  "('m, 'st, 'sm) raft_env \<Rightarrow> int \<Rightarrow> nat \<Rightarrow> 'st \<Rightarrow> ('m, 'st, 'sm) raft_node option" where
  "new_learner env now i st = map_option (\<lambda>n. n\<lparr>role := Learner\<rparr>) (with_storage env now i [] st)"

fun recover_entries ::
  "('sm \<Rightarrow> nat \<Rightarrow> 'm \<Rightarrow> apply_receipt res \<times> 'sm) \<Rightarrow> nat \<Rightarrow> 'm raft_log_entry list \<Rightarrow> 'sm \<Rightarrow> nat \<Rightarrow>
     nat res \<times> 'sm" where
  "recover_entries app commit [] sm count = (Inr count, sm)"
| "recover_entries app commit (e # es) sm count =
     (if le_index e \<le> commit
      then case le_command e of
             Data m \<Rightarrow> (case app sm (le_index e) m of
                          (Inl err, sm') \<Rightarrow> (Inl err, sm')
                        | (Inr r, sm') \<Rightarrow> recover_entries app commit es sm' (count + 1))
           | _ \<Rightarrow> recover_entries app commit es sm count
      else recover_entries app commit es sm count)"

definition recover_node_state ::
  "('m, 'st, 'sm) raft_env \<Rightarrow> ('m, 'st, 'sm) raft_node \<Rightarrow> 'sm \<Rightarrow>
     nat res \<times> ('m, 'st, 'sm) raft_node \<times> 'sm" where
  "recover_node_state env n sm =
     (case load_progress (env_storage env) (storage n) of
        Inl e \<Rightarrow> (Inl e, n, sm)
      | Inr progress \<Rightarrow>
          (case load_log_entries (env_storage env) (storage n) (pg_snapshot_index progress + 1) of
             Inl e \<Rightarrow> (Inl e, n, sm)
           | Inr es \<Rightarrow>
               (case recover_entries (env_apply env) (pg_commit_index progress) es sm 0 of
                  (Inl e, sm') \<Rightarrow> (Inl e, n, sm')
                | (Inr count, sm') \<Rightarrow>
                    (Inr count,
                     n\<lparr>last_applied := pg_commit_index progress,
                       commit_index := pg_commit_index progress\<rparr>, sm'))))"

definition set_replicated_sm :: "'sm \<Rightarrow> ('m, 'st, 'sm) raft_node \<Rightarrow> ('m, 'st, 'sm) raft_node" where
  "set_replicated_sm sm n = n\<lparr>replicated_sm := Some sm\<rparr>"

definition is_leader :: "('m, 'st, 'sm) raft_node \<Rightarrow> bool" where
  "is_leader n \<longleftrightarrow> role n = Leader"

definition is_learner :: "('m, 'st, 'sm) raft_node \<Rightarrow> bool" where
  "is_learner n \<longleftrightarrow> role n = Learner"

definition validate_read_consistency ::
  "('m, 'st, 'sm) raft_node \<Rightarrow> read_consistency \<Rightarrow> unit res" where
  "validate_read_consistency n c =
     (case c of
        CommittedRead \<Rightarrow> Inr ()
      | BoundedStaleness max_lag max_age \<Rightarrow>
          if commit_index n - last_applied n > max_lag
          then Inl (Internal ''Learner lag exceeds bounded staleness limit'')
          else Inr ()
      | _ \<Rightarrow> if \<not> is_leader n
            then Inl (Internal ''Linearizable read must be routed to leader'')
            else Inr ())"

section \<open>Votes\<close>

definition save_hs ::
  "('m, 'st, 'sm) raft_env \<Rightarrow> nat \<Rightarrow> nat option \<Rightarrow> ('m, 'st, 'sm) raft_node \<Rightarrow>
     bool \<times> ('m, 'st, 'sm) raft_node" where
  "save_hs env t v n =
     (case save_hard_state (env_storage env) (storage n)
             \<lparr>hs_current_term = t, hs_voted_for = v\<rparr> of
        (r, st') \<Rightarrow> (is_ok r, n\<lparr>storage := st'\<rparr>))"

text \<open>The step to a higher term at the head of \<^verbatim>\<open>handle_request_vote\<close>.\<close>

definition vote_adopt_term ::
  "('m, 'st, 'sm) raft_env \<Rightarrow> nat \<Rightarrow> ('m, 'st, 'sm) raft_node \<Rightarrow>
     bool \<times> ('m, 'st, 'sm) raft_node" where
  "vote_adopt_term env t n =
     (if t > current_term n
      then case save_hs env t None n of
             (False, n1) \<Rightarrow> (False, n1)
           | (True, n1) \<Rightarrow>
               (True, n1\<lparr>current_term := t,
                         role := (if role n1 \<noteq> Learner then Follower else role n1),
                         voted_for := None, leader_id := None,
                         pending := snd (cancel_all_leadership_lost t (pending n1))\<rparr>)
      else (True, n))"

definition log_up_to_date :: "request_vote_args \<Rightarrow> 'm raft_log_entry \<Rightarrow> bool" where
  "log_up_to_date args l \<longleftrightarrow>
     rv_last_log_term args > le_term l \<or>
     (rv_last_log_term args = le_term l \<and> rv_last_log_index args \<ge> le_index l)"

definition handle_request_vote ::
  "('m, 'st, 'sm) raft_env \<Rightarrow> int \<Rightarrow> request_vote_args \<Rightarrow> ('m, 'st, 'sm) raft_node \<Rightarrow>
     (request_vote_reply \<times> ('m, 'st, 'sm) raft_node) option" where
  "handle_request_vote env now args n =
     (if is_learner n
      then Some (\<lparr>rvr_term = current_term n, rvr_vote_granted = False\<rparr>, n)
      else case vote_adopt_term env (rv_term args) n of
        (False, n1) \<Rightarrow> Some (\<lparr>rvr_term = current_term n, rvr_vote_granted = False\<rparr>, n1)
      | (True, n1) \<Rightarrow>
          if log n1 = [] then None
          else
            let can_vote = (voted_for n1 = None \<or> voted_for n1 = Some (rv_candidate_id args)) \<and>
                           rv_term args = current_term n1 \<and>
                           log_up_to_date args (last (log n1)) in
            if can_vote
            then case save_hs env (current_term n1) (Some (rv_candidate_id args)) n1 of
                   (False, n2) \<Rightarrow>
                     Some (\<lparr>rvr_term = current_term n1, rvr_vote_granted = False\<rparr>, n2)
                 | (True, n2) \<Rightarrow>
                     Some (\<lparr>rvr_term = current_term n1, rvr_vote_granted = True\<rparr>,
                           n2\<lparr>voted_for := Some (rv_candidate_id args),
                              last_heartbeat_received := now\<rparr>)
            else Some (\<lparr>rvr_term = current_term n1, rvr_vote_granted = False\<rparr>, n1))"

section \<open>Applying committed entries\<close>

type_synonym completion = "proposal_id \<times> nat \<times> nat \<times> nat \<times> durability_level"
type_synonym failure = "proposal_id \<times> apply_error"

definition apply_entry ::
  "('m, 'st, 'sm) raft_env \<Rightarrow> nat \<Rightarrow> 'm raft_log_entry \<Rightarrow> ('m, 'st, 'sm) raft_node \<Rightarrow>
     bool \<times> ('m, 'st, 'sm) raft_node \<times> completion list \<times> failure list" where
  "apply_entry env epoch e n =
     (case le_command e of
        Topology tm \<Rightarrow>
          (True, n\<lparr>topology_epoch := tm_epoch tm,
                   shard_owners := shard_owners n ++ tm_shard_owners tm\<rparr>, [], [])
      | Membership mem \<Rightarrow> (True, n\<lparr>voting_peers := remdups (mm_new_peers mem)\<rparr>, [], [])
      | Data m \<Rightarrow>
          (let p = \<lparr>prop_term = le_term e, prop_log_index = le_index e\<rparr> in
           case replicated_sm n of
             Some sm \<Rightarrow>
               (case env_apply env sm (le_index e) m of
                  (Inr receipt, sm') \<Rightarrow>
                    (True, n\<lparr>replicated_sm := Some sm'\<rparr>,
                     [(p, le_term e, ar_applied_index receipt, epoch, QuorumReplicated)], [])
                | (Inl err, sm') \<Rightarrow>
                    (False, n\<lparr>replicated_sm := Some sm'\<rparr>, [],
                     [(p, StateApplyFailed (env_mutation_id env m) (error_text err) (le_index e))]))
           | None \<Rightarrow> (False, n, [], [(p, StateMachineUnavailable (le_index e))]))
      | NoOp \<Rightarrow> (True, n, [], []))"

text \<open>
  The \<^verbatim>\<open>while applied < target_commit\<close> loop. It advances to the index stored in the
  entry, not to the next position, so on a log whose entries are not indexed it need not
  end.
\<close>

partial_function (option) apply_loop ::
  "('m, 'st, 'sm) raft_env \<Rightarrow> nat \<Rightarrow> 'm raft_log_entry list \<Rightarrow> nat \<Rightarrow> nat \<Rightarrow>
     ('m, 'st, 'sm) raft_node \<Rightarrow> completion list \<Rightarrow> failure list \<Rightarrow>
     (('m, 'st, 'sm) raft_node \<times> nat \<times> completion list \<times> failure list) option" where
  "apply_loop env epoch lg target applied n cs fs =
     (if applied < target then
        if applied + 1 < length lg then
          (let e = lg ! (applied + 1); r = apply_entry env epoch e n in
           if \<not> fst r
           then Some (fst (snd r), applied, cs @ fst (snd (snd r)), fs @ snd (snd (snd r)))
           else apply_loop env epoch lg target (le_index e)
                  ((fst (snd r))\<lparr>last_applied := le_index e\<rparr>)
                  (cs @ fst (snd (snd r))) (fs @ snd (snd (snd r))))
        else Some (n, applied, cs, fs)
      else Some (n, applied, cs, fs))"

declare apply_loop.simps [code]

definition save_pg ::
  "('m, 'st, 'sm) raft_env \<Rightarrow> nat \<Rightarrow> nat \<Rightarrow> ('m, 'st, 'sm) raft_node \<Rightarrow> ('m, 'st, 'sm) raft_node" where
  "save_pg env commit applied n =
     (case save_progress (env_storage env) (storage n)
             \<lparr>pg_commit_index = commit, pg_last_applied = applied, pg_snapshot_index = 0,
              pg_snapshot_term = 0\<rparr> of
        (Inr _, st') \<Rightarrow> n\<lparr>storage := st'\<rparr>
      | (Inl e, st') \<Rightarrow> n\<lparr>storage := st', storage_health := record_error (storage_health n)\<rparr>)"

fun complete_all :: "completion list \<Rightarrow> pending_proposals \<Rightarrow> pending_proposals option" where
  "complete_all [] pp = Some pp"
| "complete_all ((p, t, a, ep, d) # cs) pp =
     (case complete_applied p t a ep d pp of
        None \<Rightarrow> None
      | Some (_, pp') \<Rightarrow> complete_all cs pp')"

fun fail_all :: "failure list \<Rightarrow> pending_proposals \<Rightarrow> pending_proposals" where
  "fail_all [] pp = pp"
| "fail_all ((p, err) # fs) pp = fail_all fs (snd (fail_proposal p err pp))"

definition apply_committed_entries ::
  "('m, 'st, 'sm) raft_env \<Rightarrow> 'm raft_log_entry list \<Rightarrow> nat \<Rightarrow> ('m, 'st, 'sm) raft_node \<Rightarrow>
     ('m, 'st, 'sm) raft_node option" where
  "apply_committed_entries env lg target n =
     (case apply_loop env (topology_epoch n) lg target (last_applied n) n [] [] of
        None \<Rightarrow> None
      | Some (n1, applied, cs, fs) \<Rightarrow>
          (let n2 = save_pg env target applied n1 in
           case complete_all cs (pending n2) of
             None \<Rightarrow> None
           | Some pp \<Rightarrow> Some (n2\<lparr>pending := fail_all fs pp\<rparr>)))"

section \<open>Replication\<close>

definition append_adopt_term ::
  "('m, 'st, 'sm) raft_env \<Rightarrow> nat \<Rightarrow> ('m, 'st, 'sm) raft_node \<Rightarrow>
     bool \<times> ('m, 'st, 'sm) raft_node" where
  "append_adopt_term env t n =
     (if t > current_term n
      then case save_hs env t None n of
             (False, n1) \<Rightarrow> (False, n1)
           | (True, n1) \<Rightarrow>
               (True, n1\<lparr>current_term := t,
                         role := (if role n1 \<noteq> Learner then Follower else role n1),
                         voted_for := None,
                         pending := snd (cancel_all_leadership_lost t (pending n1))\<rparr>)
      else (True, n))"

text \<open>
  The loop over the received entries: the flag is \<open>False\<close> when a storage error ends it
  early, with what was written up to there kept in the log.
\<close>

fun append_loop ::
  "('st, 'm) raft_storage \<Rightarrow> 'm raft_log_entry list \<Rightarrow> nat \<Rightarrow> 'm raft_log_entry list \<Rightarrow> 'st \<Rightarrow>
     bool \<times> 'm raft_log_entry list \<times> 'st" where
  "append_loop S [] idx lg st = (True, lg, st)"
| "append_loop S (e # es) idx lg st =
     (if idx < length lg then
        if le_term (lg ! idx) \<noteq> le_term e then
          (case truncate_suffix S st idx of
             (Inl err, st1) \<Rightarrow> (False, lg, st1)
           | (Inr _, st1) \<Rightarrow>
               (case append_entries S st1 [e] of
                  (Inl err, st2) \<Rightarrow> (False, lg, st2)
                | (Inr _, st2) \<Rightarrow> append_loop S es (idx + 1) (take idx lg @ [e]) st2))
        else append_loop S es (idx + 1) lg st
      else
        (case append_entries S st [e] of
           (Inl err, st1) \<Rightarrow> (False, lg, st1)
         | (Inr _, st1) \<Rightarrow> append_loop S es (idx + 1) (lg @ [e]) st1))"

definition advance_commit ::
  "('m, 'st, 'sm) raft_env \<Rightarrow> nat \<Rightarrow> nat \<Rightarrow> ('m, 'st, 'sm) raft_node \<Rightarrow>
     ('m, 'st, 'sm) raft_node option" where
  "advance_commit env leader_commit max_match n =
     (if leader_commit > commit_index n
      then let new_commit = min leader_commit max_match in
           apply_committed_entries env (log n) new_commit (n\<lparr>commit_index := new_commit\<rparr>)
      else Some n)"

definition append_reply :: "nat \<Rightarrow> bool \<Rightarrow> nat \<Rightarrow> append_entries_reply" where
  "append_reply t b m = \<lparr>aer_term = t, aer_success = b, aer_match_index = m\<rparr>"

definition prev_matches :: "'m append_entries_args \<Rightarrow> 'm raft_log_entry list \<Rightarrow> bool" where
  "prev_matches args lg \<longleftrightarrow>
     ae_prev_log_index args < length lg \<and>
     le_term (lg ! ae_prev_log_index args) = ae_prev_log_term args"

text \<open>
  The consistency check and the log update of a follower that has accepted the leader's
  term: a heartbeat answers with the position of the last entry of the follower's own log.
\<close>

definition append_accepted ::
  "('m, 'st, 'sm) raft_env \<Rightarrow> 'm append_entries_args \<Rightarrow> ('m, 'st, 'sm) raft_node \<Rightarrow>
     (append_entries_reply \<times> ('m, 'st, 'sm) raft_node) option" where
  "append_accepted env args n =
     (let t = current_term n in
      if ae_is_heartbeat args \<and> ae_entries args = []
      then if \<not> prev_matches args (log n)
           then Some (append_reply t False (length (log n) - 1), n)
           else (let cur_match = length (log n) - 1 in
                 do { n' \<leftarrow> advance_commit env (ae_leader_commit args) cur_match n;
                      Some (append_reply t True cur_match, n') })
      else if \<not> prev_matches args (log n)
      then if log n = [] then None
           else Some (append_reply t False (length (log n) - 1), n)
      else case append_loop (env_storage env) (ae_entries args)
                  (ae_prev_log_index args + 1) (log n) (storage n) of
             (False, lg, st) \<Rightarrow>
               Some (append_reply t False 0, n\<lparr>log := lg, storage := st\<rparr>)
           | (True, lg, st) \<Rightarrow>
               (let new_match = length lg - 1 in
                do { n' \<leftarrow> advance_commit env (ae_leader_commit args) new_match
                            (n\<lparr>log := lg, storage := st\<rparr>);
                     Some (append_reply t True new_match, n') }))"

definition follow ::
  "nat \<Rightarrow> int \<Rightarrow> ('m, 'st, 'sm) raft_node \<Rightarrow> ('m, 'st, 'sm) raft_node" where
  "follow leader now n =
     n\<lparr>role := (if role n \<noteq> Learner then Follower else role n),
       leader_id := Some leader, last_heartbeat_received := now\<rparr>"

definition handle_append_entries ::
  "('m, 'st, 'sm) raft_env \<Rightarrow> int \<Rightarrow> 'm append_entries_args \<Rightarrow> ('m, 'st, 'sm) raft_node \<Rightarrow>
     (append_entries_reply \<times> ('m, 'st, 'sm) raft_node) option" where
  "handle_append_entries env now args n =
     (case append_adopt_term env (ae_term args) n of
        (False, n1) \<Rightarrow> Some (append_reply (current_term n) False 0, n1)
      | (True, n1) \<Rightarrow>
          if ae_term args < current_term n1
          then Some (append_reply (current_term n1) False 0, n1)
          else append_accepted env args (follow (ae_leader_id args) now n1))"

section \<open>Proposals and commitment\<close>

fun number_entries :: "nat \<Rightarrow> nat \<Rightarrow> 'm raft_command list \<Rightarrow> 'm raft_log_entry list" where
  "number_entries t i [] = []"
| "number_entries t i (c # cs) =
     \<lparr>le_term = t, le_index = i, le_command = c\<rparr> # number_entries t (i + 1) cs"

definition propose_batch ::
  "('m, 'st, 'sm) raft_env \<Rightarrow> 'm raft_command list \<Rightarrow> ('m, 'st, 'sm) raft_node \<Rightarrow>
     (nat list res \<times> ('m, 'st, 'sm) raft_node) option" where
  "propose_batch env commands n =
     (if \<not> is_leader n then Some (Inl (Internal ''Node is not leader''), n)
      else
        let plan = current_plan (durability n);
            fsync = fsync_latency_p99_us (storage_health n);
            n1 = n\<lparr>pipeline_telemetry := (pipeline_telemetry n)\<lparr>microbatch_size_last :=
                     min (length commands) (plan_max_batch_size plan)\<rparr>,
                   durability := record_telemetry
                     \<lparr>p50_fsync_micros = fsync div 2, p99_fsync_micros = fsync,
                      mutation_arrival_rate_per_sec = length commands * 1000,
                      outstanding_wal_bytes = length commands * 128,
                      replication_rtt_micros = 350\<rparr> (durability n)\<rparr>;
            new_entries = number_entries (current_term n) (length (log n)) commands;
            indices = map le_index new_entries in
        case append_entries (env_storage env) (storage n1) new_entries of
          (Inl e, st) \<Rightarrow> Some (Inl e, n1\<lparr>storage := st\<rparr>)
        | (Inr _, st) \<Rightarrow>
            if indices = [] then None
            else Some (Inr indices,
                       n1\<lparr>storage := st, log := log n1 @ new_entries,
                          match_index := (match_index n1)(node_id n1 \<mapsto> last indices)\<rparr>))"

definition propose ::
  "('m, 'st, 'sm) raft_env \<Rightarrow> 'm raft_command \<Rightarrow> ('m, 'st, 'sm) raft_node \<Rightarrow>
     (nat res \<times> ('m, 'st, 'sm) raft_node) option" where
  "propose env command n =
     (case propose_batch env [command] n of
        None \<Rightarrow> None
      | Some (Inl e, n') \<Rightarrow> Some (Inl e, n')
      | Some (Inr indices, n') \<Rightarrow> (case indices of [] \<Rightarrow> None | i # is \<Rightarrow> Some (Inr i, n')))"

definition match_count :: "('m, 'st, 'sm) raft_node \<Rightarrow> nat \<Rightarrow> nat" where
  "match_count n k =
     length (filter (\<lambda>p. case match_index n p of
                           Some matched \<Rightarrow> k \<le> matched
                         | None \<Rightarrow> p = node_id n) (voting_peers n))"

definition commit_target :: "('m, 'st, 'sm) raft_node \<Rightarrow> nat option" where
  "commit_target n =
     List.find (\<lambda>k. le_term (log n ! k) = current_term n \<and>
                   quorum_size (voting_peers n) \<le> match_count n k)
       (rev [commit_index n + 1..<length (log n)])"

definition check_quorum_commit ::
  "('m, 'st, 'sm) raft_env \<Rightarrow> ('m, 'st, 'sm) raft_node \<Rightarrow>
     (bool \<times> ('m, 'st, 'sm) raft_node) option" where
  "check_quorum_commit env n =
     (if \<not> is_leader n then Some (False, n)
      else if log n = [] then None
      else case commit_target n of
             None \<Rightarrow> Some (False, n)
           | Some k \<Rightarrow>
               do { n' \<leftarrow> apply_committed_entries env (log n) k
                           (save_pg env k (last_applied n) (n\<lparr>commit_index := k\<rparr>));
                    Some (True, n') })"

definition propose_data_mutation ::
  "('m, 'st, 'sm) raft_env \<Rightarrow> int \<Rightarrow> 'm \<Rightarrow> ('m, 'st, 'sm) raft_node \<Rightarrow>
     (nat res \<times> ('m, 'st, 'sm) raft_node) option" where
  "propose_data_mutation env now mutation n =
     (if \<not> is_leader n then Some (Inl (Internal ''Node is not leader''), n)
      else
        case propose env (Data mutation) n of
          None \<Rightarrow> None
        | Some (Inl e, n1) \<Rightarrow> Some (Inl e, n1)
        | Some (Inr index, n1) \<Rightarrow>
            (case register now \<lparr>prop_term = current_term n, prop_log_index = index\<rparr>
                    (env_mutation_id env mutation) (pending n1) of
               (r, pp) \<Rightarrow> Some (r, n1\<lparr>pending := pp\<rparr>)))"

section \<open>Linearizable reads\<close>

definition handle_read_index_request ::
  "int \<Rightarrow> read_index_request \<Rightarrow> ('m, 'st, 'sm) raft_node \<Rightarrow>
     read_index_confirmation \<times> ('m, 'st, 'sm) raft_node" where
  "handle_read_index_request now req n =
     (if rq_term req < current_term n
      then (\<lparr>cf_context = rq_context req, cf_term = current_term n, cf_node_id = node_id n,
             cf_success = False\<rparr>, n)
      else (\<lparr>cf_context = rq_context req, cf_term = rq_term req, cf_node_id = node_id n,
             cf_success = True\<rparr>, n\<lparr>last_heartbeat_received := now\<rparr>))"

text \<open>
  The tail shared by the read paths: the commit index, after waiting until it is applied.
  \<open>poll\<close> is what the waiting loop observes.
\<close>

definition read_at_commit ::
  "(nat \<Rightarrow> nat \<times> int) \<Rightarrow> ('m, 'st, 'sm) raft_node \<Rightarrow> nat res option" where
  "read_at_commit poll n =
     (if last_applied n < commit_index n
      then map_option (map_sum id (\<lambda>_. commit_index n))
             (wait_applied poll (commit_index n) (from_millis 500))
      else Some (Inr (commit_index n)))"

definition node_linearizable_read ::
  "int \<Rightarrow> read_context_id \<Rightarrow> (nat \<Rightarrow> nat \<times> int) \<Rightarrow> linearizable_read_mode \<Rightarrow>
     ('m, 'st, 'sm) raft_node \<Rightarrow> (nat res \<times> ('m, 'st, 'sm) raft_node) option" where
  "node_linearizable_read now ctx poll mode n =
     (if \<not> is_leader n
      then Some (Inl (Internal ''Node cannot serve linearizable read: not leader''), n)
      else
        case mode of
          ReadIndex \<Rightarrow>
            (let n1 = n\<lparr>read_engine := snd (start_read_index_round now ctx (current_term n)
                          (node_id n) (read_engine n))\<rparr> in
             do { r \<leftarrow> read_at_commit poll n1; Some (r, n1) })
        | LeaseRead lease drift \<Rightarrow>
            (case validate_lease_contract lease drift 1000 of
               Inl e \<Rightarrow> Some (Inl e, n)
             | Inr _ \<Rightarrow>
                 (case verify_lease_read now (current_term n) (from_millis lease) (read_engine n) of
                    (Inl e, eng) \<Rightarrow> Some (Inl e, n\<lparr>read_engine := eng\<rparr>)
                  | (Inr _, eng) \<Rightarrow>
                      (let n1 = n\<lparr>read_engine := eng\<rparr> in
                       do { r \<leftarrow> read_at_commit poll n1; Some (r, n1) }))))"

section \<open>Evaluating concrete runs\<close>

lemmas node_eval =
  try_with_storage_def with_storage_def new_learner_def save_hs_def vote_adopt_term_def
  log_up_to_date_def handle_request_vote_def apply_entry_def apply_loop.simps save_pg_def
  apply_committed_entries_def append_adopt_term_def advance_commit_def append_reply_def
  prev_matches_def append_accepted_def follow_def handle_append_entries_def propose_batch_def
  propose_def match_count_def commit_target_def check_quorum_commit_def
  propose_data_mutation_def is_leader_def is_learner_def set_replicated_sm_def quorum_size_def
  storage_simps mem_new_def sentinel_def put_entries_def put_entry_def
  hard_state_default_def progress_default_def List.insert_def

end
