(* ===== verification/Raft_Cluster.thy ===== *)
theory Raft_Cluster
  imports Raft_Node
begin

text \<open>
  The in-process cluster, \<^verbatim>\<open>RaftCluster\<close> of \<^verbatim>\<open>src/src/consensus/raft.rs\<close>: elections,
  heartbeats and replication, leadership transfer, routing and linearizable reads. The
  \<^verbatim>\<open>HashMap\<close> of nodes is its iteration order \<open>keys\<close> and its lookup \<open>nodes\<close>; the order
  is arbitrary, so every theorem holds for all of them.
\<close>

section \<open>The cluster\<close>

record ('m, 'st, 'sm) raft_cluster =
  keys :: "nat list"
  nodes :: "nat \<rightharpoonup> ('m, 'st, 'sm) raft_node"

definition cluster_insert ::
  "nat \<Rightarrow> ('m, 'st, 'sm) raft_node \<Rightarrow> ('m, 'st, 'sm) raft_cluster \<Rightarrow> ('m, 'st, 'sm) raft_cluster" where
  "cluster_insert i n c =
     c\<lparr>keys := (if i \<in> set (keys c) then keys c else keys c @ [i]),
       nodes := (nodes c)(i \<mapsto> n)\<rparr>"

text \<open>Writes back a node that is already in the cluster.\<close>

definition put ::
  "nat \<Rightarrow> ('m, 'st, 'sm) raft_node \<Rightarrow> ('m, 'st, 'sm) raft_cluster \<Rightarrow> ('m, 'st, 'sm) raft_cluster" where
  "put i n c = c\<lparr>nodes := (nodes c)(i \<mapsto> n)\<rparr>"

definition empty_cluster :: "('m, 'st, 'sm) raft_cluster" where
  "empty_cluster = \<lparr>keys = [], nodes = Map.empty\<rparr>"

fun insert_nodes ::
  "('m, 'st, 'sm) raft_env \<Rightarrow> int \<Rightarrow> nat list \<Rightarrow> (nat \<times> 'st) list \<Rightarrow>
     ('m, 'st, 'sm) raft_cluster \<Rightarrow> ('m, 'st, 'sm) raft_cluster option" where
  "insert_nodes env now peers [] c = Some c"
| "insert_nodes env now peers ((i, st) # xs) c =
     do { n \<leftarrow> with_storage env now i peers st;
          insert_nodes env now peers xs (cluster_insert i n c) }"

definition with_storages ::
  "('m, 'st, 'sm) raft_env \<Rightarrow> int \<Rightarrow> (nat \<times> 'st) list \<Rightarrow> ('m, 'st, 'sm) raft_cluster option" where
  "with_storages env now storages =
     insert_nodes env now (map fst storages) storages empty_cluster"

text \<open>\<^verbatim>\<open>RaftCluster::new\<close> gives every node a fresh in-memory storage.\<close>

definition cluster_new ::
  "('m, 'm memory_raft_storage, 'sm) raft_env \<Rightarrow> int \<Rightarrow> nat list \<Rightarrow>
     ('m, 'm memory_raft_storage, 'sm) raft_cluster option" where
  "cluster_new env now ids = insert_nodes env now ids (map (\<lambda>i. (i, mem_new)) ids) empty_cluster"

definition add_learner ::
  "('m, 'st, 'sm) raft_env \<Rightarrow> int \<Rightarrow> nat \<Rightarrow> 'st \<Rightarrow> ('m, 'st, 'sm) raft_cluster \<Rightarrow>
     ('m, 'st, 'sm) raft_cluster option" where
  "add_learner env now i st c = do { n \<leftarrow> new_learner env now i st; Some (cluster_insert i n c) }"

section \<open>Heartbeats and replication\<close>

definition append_args ::
  "nat \<Rightarrow> nat \<Rightarrow> nat \<Rightarrow> 'm raft_log_entry list \<Rightarrow> nat \<Rightarrow> 'm append_entries_args" where
  "append_args term leader leader_commit lg next_idx =
     (let prev = min (next_idx - 1) (length lg - 1);
          es = (if next_idx < length lg then drop next_idx lg else []) in
      \<lparr>ae_term = term, ae_leader_id = leader, ae_prev_log_index = prev,
       ae_prev_log_term = le_term (lg ! prev), ae_entries = es,
       ae_leader_commit = leader_commit, ae_is_heartbeat = (es = [])\<rparr>)"

definition peer_next :: "('m, 'st, 'sm) raft_node \<Rightarrow> nat \<Rightarrow> nat" where
  "peer_next leader p = (case next_index leader p of Some i \<Rightarrow> i | None \<Rightarrow> 1)"

definition heartbeat_peer ::
  "('m, 'st, 'sm) raft_env \<Rightarrow> int \<Rightarrow> nat \<Rightarrow> nat \<Rightarrow> nat \<Rightarrow> 'm raft_log_entry list \<Rightarrow> nat \<Rightarrow>
     nat \<times> ('m, 'st, 'sm) raft_cluster \<Rightarrow> (nat \<times> ('m, 'st, 'sm) raft_cluster) option" where
  "heartbeat_peer env now lid term leader_commit lg p = (\<lambda>(responses, c).
     if p = lid then Some (responses, c)
     else case (nodes c p, nodes c lid) of
       (Some n, Some leader) \<Rightarrow>
         if peer_next leader p = 0 \<or> lg = [] then None
         else do { (reply, n') \<leftarrow> handle_append_entries env now
                       (append_args term lid leader_commit lg (peer_next leader p)) n;
                   let c1 = put p n' c in
                   if aer_success reply
                   then Some (responses + 1,
                     put lid (leader\<lparr>next_index := (next_index leader)(p \<mapsto> aer_match_index reply + 1),
                                     match_index := (match_index leader)(p \<mapsto> aer_match_index reply)\<rparr>) c1)
                   else Some (responses, c1) }
     | _ \<Rightarrow> Some (responses, c))"

fun heartbeat_peers ::
  "('m, 'st, 'sm) raft_env \<Rightarrow> int \<Rightarrow> nat \<Rightarrow> nat \<Rightarrow> nat \<Rightarrow> 'm raft_log_entry list \<Rightarrow> nat list \<Rightarrow>
     nat \<times> ('m, 'st, 'sm) raft_cluster \<Rightarrow> (nat \<times> ('m, 'st, 'sm) raft_cluster) option" where
  "heartbeat_peers env now lid term lc lg [] s = Some s"
| "heartbeat_peers env now lid term lc lg (p # ps) s =
     do { s' \<leftarrow> heartbeat_peer env now lid term lc lg p s;
          heartbeat_peers env now lid term lc lg ps s' }"

definition finish_heartbeats ::
  "('m, 'st, 'sm) raft_env \<Rightarrow> int \<Rightarrow> nat \<Rightarrow> nat \<Rightarrow> nat \<times> ('m, 'st, 'sm) raft_cluster \<Rightarrow>
     ('m, 'st, 'sm) raft_cluster option" where
  "finish_heartbeats env now lid term = (\<lambda>(responses, c).
     case nodes c lid of
       None \<Rightarrow> Some c
     | Some leader \<Rightarrow>
         (let leader1 = (if quorum_size (voting_peers leader) \<le> responses
                         then leader\<lparr>read_engine := record_quorum_success now term (read_engine leader)\<rparr>
                         else leader) in
          do { (b, leader2) \<leftarrow> check_quorum_commit env leader1; Some (put lid leader2 c) }))"

definition broadcast_heartbeats ::
  "('m, 'st, 'sm) raft_env \<Rightarrow> int \<Rightarrow> nat \<Rightarrow> ('m, 'st, 'sm) raft_cluster \<Rightarrow>
     ('m, 'st, 'sm) raft_cluster option" where
  "broadcast_heartbeats env now lid c =
     (case nodes c lid of
        None \<Rightarrow> Some c
      | Some leader \<Rightarrow>
          if \<not> is_leader leader then Some c
          else do { s \<leftarrow> heartbeat_peers env now lid (current_term leader) (commit_index leader)
                          (log leader) (keys c) (1, c);
                    finish_heartbeats env now lid (current_term leader) s })"

section \<open>Elections\<close>

definition request_vote_from ::
  "('m, 'st, 'sm) raft_env \<Rightarrow> int \<Rightarrow> request_vote_args \<Rightarrow> nat \<Rightarrow>
     nat \<times> ('m, 'st, 'sm) raft_cluster \<Rightarrow> (nat \<times> ('m, 'st, 'sm) raft_cluster) option" where
  "request_vote_from env now args p = (\<lambda>(votes, c).
     if p = rv_candidate_id args then Some (votes, c)
     else case nodes c p of
       None \<Rightarrow> Some (votes, c)
     | Some n \<Rightarrow>
         do { (reply, n') \<leftarrow> handle_request_vote env now args n;
              Some (if rvr_vote_granted reply \<and> rvr_term reply = rv_term args
                    then votes + 1 else votes, put p n' c) })"

fun request_votes ::
  "('m, 'st, 'sm) raft_env \<Rightarrow> int \<Rightarrow> request_vote_args \<Rightarrow> nat list \<Rightarrow>
     nat \<times> ('m, 'st, 'sm) raft_cluster \<Rightarrow> (nat \<times> ('m, 'st, 'sm) raft_cluster) option" where
  "request_votes env now args [] s = Some s"
| "request_votes env now args (p # ps) s =
     do { s' \<leftarrow> request_vote_from env now args p s; request_votes env now args ps s' }"

text \<open>The candidate that has won takes over: fresh replication indices for every node.\<close>

definition become_leader ::
  "int \<Rightarrow> nat list \<Rightarrow> ('m, 'st, 'sm) raft_node \<Rightarrow> ('m, 'st, 'sm) raft_node" where
  "become_leader now ks n =
     n\<lparr>role := Leader, leader_id := Some (node_id n),
       read_engine := record_quorum_success now (current_term n) (read_engine n),
       next_index := (\<lambda>p. if p \<in> set ks then Some (length (log n)) else next_index n p),
       match_index := (\<lambda>p. if p \<in> set ks then Some 0 else match_index n p)
                        (node_id n \<mapsto> length (log n) - 1)\<rparr>"

definition start_candidacy ::
  "('m, 'st, 'sm) raft_env \<Rightarrow> nat \<Rightarrow> ('m, 'st, 'sm) raft_node \<Rightarrow> bool \<times> ('m, 'st, 'sm) raft_node" where
  "start_candidacy env i n =
     (case save_hs env (current_term n + 1) (Some i) n of
        (False, n1) \<Rightarrow> (False, n1)
      | (True, n1) \<Rightarrow>
          (True, n1\<lparr>current_term := current_term n + 1, role := Candidate, voted_for := Some i\<rparr>))"

definition vote_request :: "nat \<Rightarrow> ('m, 'st, 'sm) raft_node \<Rightarrow> request_vote_args" where
  "vote_request i n =
     \<lparr>rv_term = current_term n, rv_candidate_id = i, rv_last_log_index = le_index (last (log n)),
      rv_last_log_term = le_term (last (log n))\<rparr>"

definition conclude_election ::
  "('m, 'st, 'sm) raft_env \<Rightarrow> int \<Rightarrow> nat \<Rightarrow> nat \<Rightarrow> nat \<times> ('m, 'st, 'sm) raft_cluster \<Rightarrow>
     (bool \<times> ('m, 'st, 'sm) raft_cluster) option" where
  "conclude_election env now i quorum = (\<lambda>(votes, c).
     case nodes c i of
       None \<Rightarrow> None
     | Some n \<Rightarrow>
         if quorum \<le> votes
         then do { (r, n1) \<leftarrow> propose env NoOp (become_leader now (keys c) n);
                   c' \<leftarrow> broadcast_heartbeats env now i (put i n1 c);
                   Some (True, c') }
         else Some (False, put i (n\<lparr>role := Follower\<rparr>) c))"

definition trigger_election ::
  "('m, 'st, 'sm) raft_env \<Rightarrow> int \<Rightarrow> nat \<Rightarrow> ('m, 'st, 'sm) raft_cluster \<Rightarrow>
     (bool \<times> ('m, 'st, 'sm) raft_cluster) option" where
  "trigger_election env now i c =
     (case nodes c i of
        None \<Rightarrow> Some (False, c)
      | Some n \<Rightarrow>
          if is_learner n then Some (False, c)
          else case start_candidacy env i n of
            (False, n1) \<Rightarrow> Some (False, put i n1 c)
          | (True, n1) \<Rightarrow>
              if log n1 = [] then None
              else do { s \<leftarrow> request_votes env now (vote_request i n1) (voting_peers n1)
                              (1, put i n1 c);
                        conclude_election env now i (quorum_size (voting_peers n1)) s })"

section \<open>Routing and leadership transfer\<close>

definition node_lag :: "('m, 'st, 'sm) raft_node \<Rightarrow> nat" where
  "node_lag n = commit_index n - last_applied n"

fun route_scan ::
  "nat \<Rightarrow> ('m, 'st, 'sm) raft_cluster \<Rightarrow> nat list \<Rightarrow> nat option \<times> nat \<Rightarrow> nat option \<times> nat" where
  "route_scan shard c [] acc = acc"
| "route_scan shard c (i # is) acc =
     (case nodes c i of
        None \<Rightarrow> route_scan shard c is acc
      | Some n \<Rightarrow>
          if shard \<in> warm_proof_shards n \<and> node_lag n < snd acc
          then route_scan shard c is (Some i, node_lag n)
          else route_scan shard c is acc)"

definition route_read_locality :: "nat \<Rightarrow> ('m, 'st, 'sm) raft_cluster \<Rightarrow> nat option" where
  "route_read_locality shard c =
     (case fst (route_scan shard c (keys c) (None, u64_max)) of
        Some i \<Rightarrow> Some i
      | None \<Rightarrow> (case keys c of [] \<Rightarrow> None | i # is \<Rightarrow> Some i))"

fun healthiest_scan ::
  "nat \<Rightarrow> ('m, 'st, 'sm) raft_cluster \<Rightarrow> nat list \<Rightarrow> nat option \<times> rat \<Rightarrow> nat option \<times> rat" where
  "healthiest_scan cur c [] acc = acc"
| "healthiest_scan cur c (i # is) acc =
     (case nodes c i of
        None \<Rightarrow> healthiest_scan cur c is acc
      | Some n \<Rightarrow>
          if i = cur \<or> is_learner n then healthiest_scan cur c is acc
          else let score = suitability_score (storage_health n) in
               if score > snd acc then healthiest_scan cur c is (Some i, score)
               else healthiest_scan cur c is acc)"

definition get_healthiest_candidate :: "nat \<Rightarrow> ('m, 'st, 'sm) raft_cluster \<Rightarrow> nat option" where
  "get_healthiest_candidate cur c = fst (healthiest_scan cur c (keys c) (None, - 1))"

definition count_transfer :: "('m, 'st, 'sm) raft_node \<Rightarrow> ('m, 'st, 'sm) raft_node" where
  "count_transfer n =
     n\<lparr>pipeline_telemetry := (pipeline_telemetry n)\<lparr>leadership_transfers_total :=
         leadership_transfers_total (pipeline_telemetry n) + 1\<rparr>\<rparr>"

definition transfer_leadership_to_healthiest ::
  "('m, 'st, 'sm) raft_env \<Rightarrow> int \<Rightarrow> nat \<Rightarrow> ('m, 'st, 'sm) raft_cluster \<Rightarrow>
     (nat option res \<times> ('m, 'st, 'sm) raft_cluster) option" where
  "transfer_leadership_to_healthiest env now cur c =
     (case nodes c cur of
        None \<Rightarrow> Some (Inl (Internal ''Node is not leader''), c)
      | Some leader \<Rightarrow>
          if \<not> is_leader leader then Some (Inl (Internal ''Node is not leader''), c)
          else case get_healthiest_candidate cur c of
                 None \<Rightarrow> Some (Inr None, c)
               | Some target \<Rightarrow>
                   do { c1 \<leftarrow> broadcast_heartbeats env now cur c;
                        (won, c2) \<leftarrow> trigger_election env now target c1;
                        if won
                        then Some (Inr (Some target),
                               c2\<lparr>nodes := (nodes c2)(cur := map_option count_transfer (nodes c2 cur))\<rparr>)
                        else Some (Inl (Internal ''Leadership transfer failed quorum election''), c2) })"

definition get_leader :: "('m, 'st, 'sm) raft_cluster \<Rightarrow> nat option" where
  "get_leader c =
     List.find (\<lambda>i. case nodes c i of Some n \<Rightarrow> is_leader n | None \<Rightarrow> False) (keys c)"

section \<open>Client operations\<close>

text \<open>
  \<^verbatim>\<open>RaftCluster::propose_data_mutation\<close>: without a leader it first runs an election for
  the first node of the map, whose outcome it does not look at.
\<close>

definition cluster_propose ::
  "('m, 'st, 'sm) raft_env \<Rightarrow> int \<Rightarrow> 'm \<Rightarrow> ('m, 'st, 'sm) raft_cluster \<Rightarrow>
     (nat res \<times> ('m, 'st, 'sm) raft_cluster) option" where
  "cluster_propose env now mutation c =
     do { (lid, c1) \<leftarrow> (case get_leader c of
                          Some i \<Rightarrow> Some (i, c)
                        | None \<Rightarrow> (case keys c of
                                    [] \<Rightarrow> None
                                  | i # is \<Rightarrow> do { (b, c') \<leftarrow> trigger_election env now i c; Some (i, c') }));
          leader \<leftarrow> nodes c1 lid;
          (r, leader') \<leftarrow> propose_data_mutation env now mutation leader;
          (case r of
             Inl e \<Rightarrow> Some (Inl e, put lid leader' c1)
           | Inr rx \<Rightarrow> do { c2 \<leftarrow> broadcast_heartbeats env now lid (put lid leader' c1);
                           Some (Inr rx, c2) }) }"

fun confirm_peers ::
  "int \<Rightarrow> nat \<Rightarrow> nat \<Rightarrow> nat \<Rightarrow> read_index_request \<Rightarrow> nat list \<Rightarrow> bool \<Rightarrow>
     ('m, 'st, 'sm) raft_cluster \<Rightarrow> bool res \<times> ('m, 'st, 'sm) raft_cluster" where
  "confirm_peers now lid term q req [] reached c = (Inr reached, c)"
| "confirm_peers now lid term q req (p # ps) reached c =
     (if p = lid then confirm_peers now lid term q req ps reached c
      else case (nodes c p, nodes c lid) of
        (Some n, Some leader) \<Rightarrow>
          (let (conf, n') = handle_read_index_request now req n;
               (r, eng) = handle_confirmation now conf term q (read_engine leader);
               c' = put lid (leader\<lparr>read_engine := eng\<rparr>) (put p n' c) in
           case r of
             Inl e \<Rightarrow> (Inl e, c')
           | Inr b \<Rightarrow> confirm_peers now lid term q req ps (reached \<or> b) c')
      | _ \<Rightarrow> confirm_peers now lid term q req ps reached c)"

definition read_on_leader ::
  "(nat \<Rightarrow> nat \<times> int) \<Rightarrow> nat \<Rightarrow> ('m, 'st, 'sm) raft_cluster \<Rightarrow>
     (nat res \<times> ('m, 'st, 'sm) raft_cluster) option" where
  "read_on_leader poll lid c =
     do { leader \<leftarrow> nodes c lid; r \<leftarrow> read_at_commit poll leader; Some (r, c) }"

definition cluster_read_index ::
  "int \<Rightarrow> read_context_id \<Rightarrow> (nat \<Rightarrow> nat \<times> int) \<Rightarrow> nat \<Rightarrow> ('m, 'st, 'sm) raft_node \<Rightarrow>
     ('m, 'st, 'sm) raft_cluster \<Rightarrow> (nat res \<times> ('m, 'st, 'sm) raft_cluster) option" where
  "cluster_read_index now ctx poll lid leader c =
     (let term = current_term leader;
          (req, eng) = start_read_index_round now ctx term lid (read_engine leader);
          c1 = put lid (leader\<lparr>read_engine := eng\<rparr>) c;
          peers = voting_peers leader; q = quorum_size peers in
      case confirm_peers now lid term q req peers (q \<le> 1) c1 of
        (Inl e, c2) \<Rightarrow> Some (Inl e, c2)
      | (Inr reached, c2) \<Rightarrow>
          if \<not> reached
          then Some (Inl (Internal
                 ''ReadIndex round failed to achieve voting quorum confirmation from peers''), c2)
          else do { leader2 \<leftarrow> nodes c2 lid;
                    if current_term leader2 \<noteq> term
                    then Some (Inl (Internal ''ReadIndex round invalidated''),
                           put lid (leader2\<lparr>read_engine := invalidate (read_engine leader2)\<rparr>) c2)
                    else read_on_leader poll lid c2 })"

definition cluster_lease_read ::
  "('m, 'st, 'sm) raft_env \<Rightarrow> int \<Rightarrow> (nat \<Rightarrow> nat \<times> int) \<Rightarrow> nat \<Rightarrow> nat \<Rightarrow> nat \<Rightarrow>
     ('m, 'st, 'sm) raft_cluster \<Rightarrow> (nat res \<times> ('m, 'st, 'sm) raft_cluster) option" where
  "cluster_lease_read env now poll lid lease drift c =
     (case validate_lease_contract lease drift 1000 of
        Inl e \<Rightarrow> Some (Inl e, c)
      | Inr _ \<Rightarrow>
          do { c1 \<leftarrow> broadcast_heartbeats env now lid c;
               leader \<leftarrow> nodes c1 lid;
               (case verify_lease_read now (current_term leader) (from_millis lease)
                       (read_engine leader) of
                  (Inl e, eng) \<Rightarrow> Some (Inl e, put lid (leader\<lparr>read_engine := eng\<rparr>) c1)
                | (Inr _, eng) \<Rightarrow> read_on_leader poll lid (put lid (leader\<lparr>read_engine := eng\<rparr>) c1)) })"

definition cluster_linearizable_read ::
  "('m, 'st, 'sm) raft_env \<Rightarrow> int \<Rightarrow> read_context_id \<Rightarrow> (nat \<Rightarrow> nat \<times> int) \<Rightarrow>
     linearizable_read_mode \<Rightarrow> ('m, 'st, 'sm) raft_cluster \<Rightarrow>
     (nat res \<times> ('m, 'st, 'sm) raft_cluster) option" where
  "cluster_linearizable_read env now ctx poll mode c =
     (case get_leader c of
        None \<Rightarrow> Some (Inl (Internal ''No active Raft leader to coordinate ReadIndex''), c)
      | Some lid \<Rightarrow>
          do { leader \<leftarrow> nodes c lid;
               (case mode of
                  ReadIndex \<Rightarrow> cluster_read_index now ctx poll lid leader c
                | LeaseRead lease drift \<Rightarrow> cluster_lease_read env now poll lid lease drift c) })"

section \<open>Evaluating concrete runs\<close>

lemmas cluster_eval =
  cluster_insert_def put_def empty_cluster_def with_storages_def cluster_new_def add_learner_def
  append_args_def peer_next_def heartbeat_peer_def finish_heartbeats_def broadcast_heartbeats_def
  request_vote_from_def become_leader_def start_candidacy_def vote_request_def
  conclude_election_def trigger_election_def get_leader_def cluster_propose_def

text \<open>A state machine that appends every mutation to a list, over memory storage.\<close>

definition demo_env :: "(nat, nat memory_raft_storage, nat list) raft_env" where
  "demo_env =
     \<lparr>env_storage = mem_ops,
      env_apply = (\<lambda>sm i m. (Inr \<lparr>ar_mutation_id = ''m'', ar_applied_index = i,
        ar_applied_generation = i, ar_durable_lsn = i\<rparr>, sm @ [m])),
      env_mutation_id = (\<lambda>m. ''m'')\<rparr>"

text \<open>What a test looks at: role, term, terms of the log, and commit index of a node.\<close>

definition observe ::
  "nat \<Rightarrow> ('m, 'st, 'sm) raft_cluster \<Rightarrow> (raft_role \<times> nat \<times> nat list \<times> nat) option" where
  "observe i c =
     map_option (\<lambda>n. (role n, current_term n, map le_term (log n), commit_index n)) (nodes c i)"

lemma observeD:
  "observe i c = Some (r, t, ts, k) \<Longrightarrow>
     \<exists>n. nodes c i = Some n \<and> role n = r \<and> current_term n = t \<and> map le_term (log n) = ts \<and>
         commit_index n = k"
  by (auto simp: observe_def)

end
