(* ===== verification/Raft_Votes.thy ===== *)
theory Raft_Votes
  imports Raft_Cluster
begin

text \<open>
  What the handlers of one node do to its term, vote, role and log. Each handler keeps the
  persisted vote at least as recent as the one in memory and never takes a vote back
  (\<open>vote_step\<close>), whatever errors the storage returns. The lemmas are proved once from the
  storage contract; the cluster theories build on them.
\<close>

section \<open>Frames of the apply loop\<close>

definition no_membership :: "'m raft_log_entry list \<Rightarrow> bool" where
  "no_membership l \<longleftrightarrow> (\<forall>e \<in> set l. \<forall>mm. le_command e \<noteq> Membership mm)"

text \<open>The nodes that differ from \<open>n\<close> only in what applying entries may change.\<close>

definition apply_frame ::
  "('m, 'st, 'sm) raft_node \<Rightarrow> ('m, 'st, 'sm) raft_node \<Rightarrow> bool" where
  "apply_frame n n' \<longleftrightarrow>
     n'\<lparr>topology_epoch := topology_epoch n, shard_owners := shard_owners n,
        replicated_sm := replicated_sm n, last_applied := last_applied n\<rparr> = n"

lemma apply_frame_refl: "apply_frame n n"
  by (simp add: apply_frame_def)

lemma apply_frame_trans: "apply_frame a b \<Longrightarrow> apply_frame b c \<Longrightarrow> apply_frame a c"
  unfolding apply_frame_def by (cases a; cases b; cases c) simp

lemma apply_frame_last_applied: "apply_frame n n' \<Longrightarrow> apply_frame n (n'\<lparr>last_applied := d\<rparr>)"
  unfolding apply_frame_def by (cases n; cases n') simp

lemma apply_entry_frame:
  assumes "\<And>mm. le_command e \<noteq> Membership mm"
  shows "apply_frame n (fst (snd (apply_entry env ep e n)))"
proof (cases "le_command e")
  case (Data m)
  then show ?thesis
    by (auto simp: apply_entry_def Let_def apply_frame_def split: option.splits prod.splits sum.splits)
next
  case (Topology tm)
  then show ?thesis by (auto simp: apply_entry_def apply_frame_def)
qed (use assms in \<open>auto simp: apply_entry_def apply_frame_refl\<close>)

lemma apply_loop_frame:
  assumes ret: "apply_loop env ep lg target applied n cs fs = Some r" and "no_membership lg"
  shows "apply_frame n (fst r)"
proof -
  have "no_membership lg \<longrightarrow> apply_frame n (fst r)"
  proof (rule apply_loop.raw_induct
      [where P = "\<lambda>env ep lg target applied n cs fs r. no_membership lg \<longrightarrow> apply_frame n (fst r)", OF _ ret])
    fix f :: "('m, 'st, 'sm) raft_env \<Rightarrow> nat \<Rightarrow> 'm raft_log_entry list \<Rightarrow> nat \<Rightarrow> nat \<Rightarrow>
        ('m, 'st, 'sm) raft_node \<Rightarrow> completion list \<Rightarrow> failure list \<Rightarrow>
        (('m, 'st, 'sm) raft_node \<times> nat \<times> completion list \<times> failure list) option"
      and env ep lg target applied n cs fs r
    assume IH: "\<And>env ep lg target applied n cs fs r. f env ep lg target applied n cs fs = Some r \<Longrightarrow>
        no_membership lg \<longrightarrow> apply_frame n (fst r)"
      and eq: "(if applied < target then
        if applied + 1 < length lg then
          (let e = lg ! (applied + 1); r = apply_entry env ep e n in
           if \<not> fst r
           then Some (fst (snd r), applied, cs @ fst (snd (snd r)), fs @ snd (snd (snd r)))
           else f env ep lg target (le_index e)
                  ((fst (snd r))\<lparr>last_applied := le_index e\<rparr>)
                  (cs @ fst (snd (snd r))) (fs @ snd (snd (snd r))))
        else Some (n, applied, cs, fs)
      else Some (n, applied, cs, fs)) = Some r"
    show "no_membership lg \<longrightarrow> apply_frame n (fst r)"
    proof
      assume nm: "no_membership lg"
      show "apply_frame n (fst r)"
      proof (cases "applied < target \<and> applied + 1 < length lg")
        case True
        let ?e = "lg ! (applied + 1)"
        let ?r = "apply_entry env ep ?e n"
        have fr: "apply_frame n (fst (snd ?r))"
          using True nm by (intro apply_entry_frame) (auto simp: no_membership_def)
        show ?thesis
        proof (cases "fst ?r")
          case ok: True
          with True eq have "f env ep lg target (le_index ?e)
              ((fst (snd ?r))\<lparr>last_applied := le_index ?e\<rparr>)
              (cs @ fst (snd (snd ?r))) (fs @ snd (snd (snd ?r))) = Some r"
            by (simp add: Let_def)
          from IH [OF this] nm have "apply_frame ((fst (snd ?r))\<lparr>last_applied := le_index ?e\<rparr>) (fst r)"
            by simp
          with apply_frame_last_applied [OF fr] show ?thesis by (rule apply_frame_trans)
        next
          case False
          with True eq fr show ?thesis by (auto simp: Let_def)
        qed
      next
        case False
        with eq show ?thesis by (auto simp: apply_frame_refl split: if_splits)
      qed
    qed
  qed
  with assms(2) show ?thesis by simp
qed

section \<open>What a handler may change\<close>

text \<open>The fields that elections and replication are about.\<close>

definition same_core ::
  "('m, 'st, 'sm) raft_node \<Rightarrow> ('m, 'st, 'sm) raft_node \<Rightarrow> bool" where
  "same_core n n' \<longleftrightarrow>
     node_id n' = node_id n \<and> voting_peers n' = voting_peers n \<and> role n' = role n \<and>
     current_term n' = current_term n \<and> voted_for n' = voted_for n \<and> log n' = log n \<and>
     commit_index n' = commit_index n \<and> next_index n' = next_index n \<and>
     match_index n' = match_index n"

lemma same_core_refl [simp]: "same_core n n"
  by (simp add: same_core_def)

lemma same_core_trans: "same_core a b \<Longrightarrow> same_core b c \<Longrightarrow> same_core a c"
  by (simp add: same_core_def)

lemma apply_frame_core: "apply_frame n n' \<Longrightarrow> same_core n n' \<and> storage n' = storage n"
  unfolding apply_frame_def same_core_def by (cases n; cases n') simp

text \<open>
  A vote once given in a term is not taken back in it, terms only grow, and leadership
  and the learner role are not acquired: what every message handler guarantees.
\<close>

definition vote_mono :: "nat \<Rightarrow> nat option \<Rightarrow> nat \<Rightarrow> nat option \<Rightarrow> bool" where
  "vote_mono t v t' v' \<longleftrightarrow> t < t' \<or> t' = t \<and> (v = None \<or> v' = v)"

lemma vote_mono_trans: "vote_mono t v t' v' \<Longrightarrow> vote_mono t' v' t'' v'' \<Longrightarrow> vote_mono t v t'' v''"
  by (auto simp: vote_mono_def)

definition role_le :: "raft_role \<Rightarrow> nat \<Rightarrow> raft_role \<Rightarrow> nat \<Rightarrow> bool" where
  "role_le r t r' t' \<longleftrightarrow> (r' = Leader \<longrightarrow> r = Leader \<and> t' = t) \<and> (r = Learner \<longleftrightarrow> r' = Learner)"

lemma role_le_trans: "role_le r t r' t' \<Longrightarrow> role_le r' t' r'' t'' \<Longrightarrow> role_le r t r'' t''"
  by (cases r; cases r'; cases r''; simp add: role_le_def)

lemma role_le_same [simp]: "role_le r t r t"
  by (simp add: role_le_def)

definition vote_le ::
  "('m, 'st, 'sm) raft_node \<Rightarrow> ('m, 'st, 'sm) raft_node \<Rightarrow> bool" where
  "vote_le n n' \<longleftrightarrow>
     node_id n' = node_id n \<and>
     set (voting_peers n') = set (voting_peers n) \<and>
     (distinct (voting_peers n) \<longrightarrow> distinct (voting_peers n')) \<and>
     role_le (role n) (current_term n) (role n') (current_term n') \<and>
     vote_mono (current_term n) (voted_for n) (current_term n') (voted_for n')"

lemma vote_le_refl [simp]: "vote_le n n"
  by (simp add: vote_le_def vote_mono_def)

lemma vote_le_trans:
  assumes "vote_le a b" and "vote_le b c"
  shows "vote_le a c"
  unfolding vote_le_def
proof (intro conjI)
  show "role_le (role a) (current_term a) (role c) (current_term c)"
    using role_le_trans assms unfolding vote_le_def by blast
  show "vote_mono (current_term a) (voted_for a) (current_term c) (voted_for c)"
    using vote_mono_trans assms unfolding vote_le_def by blast
qed (use assms in \<open>simp_all add: vote_le_def\<close>)

lemma same_core_vote_le: "same_core n n' \<Longrightarrow> vote_le n n'"
  by (simp add: same_core_def vote_le_def vote_mono_def)

lemma no_membership_subset:
  "no_membership l \<Longrightarrow> set l' \<subseteq> set l \<Longrightarrow> no_membership l'"
  by (auto simp: no_membership_def)

lemma no_membership_append [simp]:
  "no_membership (a @ b) \<longleftrightarrow> no_membership a \<and> no_membership b"
  by (auto simp: no_membership_def)

lemma no_membership_Cons [simp]:
  "no_membership (e # l) \<longleftrightarrow> (\<forall>mm. le_command e \<noteq> Membership mm) \<and> no_membership l"
  by (auto simp: no_membership_def)

lemma no_membership_Nil [simp]: "no_membership []"
  by (simp add: no_membership_def)

lemma no_membership_take: "no_membership l \<Longrightarrow> no_membership (take k l)"
  by (auto simp: no_membership_def dest: in_set_takeD)

lemma no_membership_drop: "no_membership l \<Longrightarrow> no_membership (drop k l)"
  by (auto simp: no_membership_def dest: in_set_dropD)

lemma no_membership_number:
  "(\<forall>c \<in> set cs. \<forall>mm. c \<noteq> Membership mm) \<Longrightarrow> no_membership (number_entries t i cs)"
  by (induction cs arbitrary: i) auto

context raft_storage_contract
begin

text \<open>The persisted term and vote are never behind the ones in memory.\<close>

definition durable_vote :: "('m, 'st, 'sm) raft_node \<Rightarrow> bool" where
  "durable_vote n \<longleftrightarrow>
     vote_mono (current_term n) (voted_for n)
       (hs_current_term (hs (storage n))) (hs_voted_for (hs (storage n)))"

definition node_ok :: "('m, 'st, 'sm) raft_node \<Rightarrow> bool" where
  "node_ok n \<longleftrightarrow> durable_vote n \<and> no_membership (log n) \<and> no_membership (lg (storage n))"

text \<open>Both together, the guarantee of one handler call.\<close>

definition vote_step :: "('m, 'st, 'sm) raft_node \<Rightarrow> ('m, 'st, 'sm) raft_node \<Rightarrow> bool" where
  "vote_step n n' \<longleftrightarrow> vote_le n n' \<and> (node_ok n \<longrightarrow> node_ok n')"

lemma vote_step_refl: "vote_step n n"
  by (simp add: vote_step_def)

lemma vote_step_trans: "vote_step a b \<Longrightarrow> vote_step b c \<Longrightarrow> vote_step a c"
  unfolding vote_step_def using vote_le_trans [of a b c] by simp

text \<open>A change that leaves the core and the persisted vote alone.\<close>

definition quiet :: "('m, 'st, 'sm) raft_node \<Rightarrow> ('m, 'st, 'sm) raft_node \<Rightarrow> bool" where
  "quiet n n' \<longleftrightarrow> same_core n n' \<and> hs (storage n') = hs (storage n) \<and>
     set (lg (storage n')) \<subseteq> set (lg (storage n))"

lemma quiet_vote_step:
  assumes "quiet n n'"
  shows "vote_step n n'"
proof -
  have core: "same_core n n'" and h: "hs (storage n') = hs (storage n)"
    and sub: "set (lg (storage n')) \<subseteq> set (lg (storage n))"
    using assms by (simp_all add: quiet_def)
  have "node_ok n'" if "node_ok n"
    using that core h no_membership_subset [OF _ sub]
    by (simp add: node_ok_def durable_vote_def same_core_def)
  with same_core_vote_le [OF core] show ?thesis by (simp add: vote_step_def)
qed

lemma save_hs_cases:
  assumes "env_storage env = S" and "save_hs env t v n = (b, n')"
  obtains st where "n' = n\<lparr>storage := st\<rparr>" "set (lg st) \<subseteq> set (lg (storage n))"
    "b \<Longrightarrow> hs st = \<lparr>hs_current_term = t, hs_voted_for = v\<rparr>"
    "hs st = hs (storage n) \<or> hs st = \<lparr>hs_current_term = t, hs_voted_for = v\<rparr>"
proof -
  let ?h = "\<lparr>hs_current_term = t, hs_voted_for = v\<rparr>"
  obtain r st where r: "save_hard_state S (storage n) ?h = (r, st)" by (rule prod.exhaust)
  have n': "n' = n\<lparr>storage := st\<rparr>" and b: "b = is_ok r"
    using assms r by (auto simp: save_hs_def)
  have sub: "set (lg st) \<subseteq> set (lg (storage n))" using grow_lg(1) [of "storage n" ?h] r by simp
  have "hs st = hs (storage n) \<or> hs st = ?h" and "b \<Longrightarrow> hs st = ?h"
    using r b save_hs_err [of "storage n" ?h _ st] save_hs [of "storage n" ?h st]
    by (cases r; simp)+
  with n' sub show thesis by (intro that)
qed

lemma adopt_vote_step:
  assumes "env_storage env = S" and "save_hs env t None n = (b, n1)" and "current_term n < t"
    and "n' = (if b then n1\<lparr>current_term := t, role := (if role n1 \<noteq> Learner then Follower else role n1),
                 voted_for := None, leader_id := l, pending := pp\<rparr> else n1)"
  shows "vote_step n n' \<and> log n' = log n \<and> (b \<longrightarrow> current_term n' = t)"
proof -
  from save_hs_cases [OF assms(1,2)] obtain st where n1: "n1 = n\<lparr>storage := st\<rparr>"
    and sub: "set (lg st) \<subseteq> set (lg (storage n))"
    and h: "b \<Longrightarrow> hs st = \<lparr>hs_current_term = t, hs_voted_for = None\<rparr>"
      "hs st = hs (storage n) \<or> hs st = \<lparr>hs_current_term = t, hs_voted_for = None\<rparr>" by blast
  have "vote_le n n'"
    using n1 assms(3,4) by (simp add: vote_le_def vote_mono_def role_le_def)
  moreover have "node_ok n'" if "node_ok n"
    using that n1 h assms(3,4) no_membership_subset [OF _ sub]
    by (auto simp: node_ok_def durable_vote_def vote_mono_def)
  ultimately show ?thesis using n1 assms(4) by (simp add: vote_step_def)
qed

lemma vote_adopt_step:
  assumes "env_storage env = S" and "vote_adopt_term env t n = (b, n')"
  shows "vote_step n n' \<and> log n' = log n \<and> (b \<longrightarrow> t \<le> current_term n')"
proof (cases "current_term n < t")
  case True
  obtain b1 n1 where s: "save_hs env t None n = (b1, n1)" by (rule prod.exhaust)
  from True s assms(2) have "b = b1" and
    n': "n' = (if b1 then n1\<lparr>current_term := t, role := (if role n1 \<noteq> Learner then Follower else role n1),
              voted_for := None, leader_id := None,
              pending := snd (cancel_all_leadership_lost t (pending n1))\<rparr> else n1)"
    by (cases b1; simp add: vote_adopt_term_def)+
  from adopt_vote_step [OF assms(1) s True n'] \<open>b = b1\<close> show ?thesis by auto
next
  case False
  with assms(2) show ?thesis by (simp add: vote_adopt_term_def vote_step_refl)
qed

lemma append_adopt_step:
  assumes "env_storage env = S" and "append_adopt_term env t n = (b, n')"
  shows "vote_step n n' \<and> log n' = log n \<and> (b \<longrightarrow> t \<le> current_term n')"
proof (cases "current_term n < t")
  case True
  obtain b1 n1 where s: "save_hs env t None n = (b1, n1)" by (rule prod.exhaust)
  from True s assms(2) have "b = b1" and
    n': "n' = (if b1 then n1\<lparr>current_term := t, role := (if role n1 \<noteq> Learner then Follower else role n1),
              voted_for := None, leader_id := leader_id n1,
              pending := snd (cancel_all_leadership_lost t (pending n1))\<rparr> else n1)"
    by (cases b1; simp add: append_adopt_term_def)+
  from adopt_vote_step [OF assms(1) s True n'] \<open>b = b1\<close> show ?thesis by auto
next
  case False
  with assms(2) show ?thesis by (simp add: append_adopt_term_def vote_step_refl)
qed

lemma grant_vote_step:
  assumes "env_storage env = S" and "save_hs env (current_term n) (Some k) n = (b, n1)"
    and "voted_for n = None \<or> voted_for n = Some k"
  shows "vote_step n (if b then n1\<lparr>voted_for := Some k, last_heartbeat_received := now\<rparr> else n1)"
proof -
  from save_hs_cases [OF assms(1,2)] obtain st where n1: "n1 = n\<lparr>storage := st\<rparr>"
    and sub: "set (lg st) \<subseteq> set (lg (storage n))"
    and h: "b \<Longrightarrow> hs st = \<lparr>hs_current_term = current_term n, hs_voted_for = Some k\<rparr>"
      "hs st = hs (storage n) \<or> hs st = \<lparr>hs_current_term = current_term n, hs_voted_for = Some k\<rparr>"
    by blast
  show ?thesis
    using n1 h assms(3) no_membership_subset [OF _ sub]
    by (auto simp: vote_step_def vote_le_def vote_mono_def node_ok_def durable_vote_def)
qed

lemma handle_request_vote_step:
  assumes "env_storage env = S" and "handle_request_vote env now args n = Some (r, n')"
  shows "vote_step n n' \<and> log n' = log n \<and>
    (rvr_vote_granted r \<longrightarrow> current_term n' = rv_term args \<and>
       voted_for n' = Some (rv_candidate_id args) \<and> log_up_to_date args (last (log n')))"
proof (cases "is_learner n")
  case True
  with assms(2) show ?thesis by (auto simp: handle_request_vote_def vote_step_refl)
next
  case False
  obtain b n1 where a: "vote_adopt_term env (rv_term args) n = (b, n1)" by (rule prod.exhaust)
  note adopt = vote_adopt_step [OF assms(1) a]
  show ?thesis
  proof (cases "b \<and> (voted_for n1 = None \<or> voted_for n1 = Some (rv_candidate_id args)) \<and>
      rv_term args = current_term n1 \<and> log_up_to_date args (last (log n1))")
    case can: True
    obtain b2 n2 where g: "save_hs env (current_term n1) (Some (rv_candidate_id args)) n1 = (b2, n2)"
      by (rule prod.exhaust)
    have log: "log n2 = log n1" "current_term n2 = current_term n1"
      by (rule save_hs_cases [OF assms(1) g], simp)+
    from assms(2) False a g can
    have n': "n' = (if b2 then n2\<lparr>voted_for := Some (rv_candidate_id args), last_heartbeat_received := now\<rparr>
                   else n2)" and r: "rvr_vote_granted r = b2"
      by (cases b2; auto simp: handle_request_vote_def Let_def split: if_splits)+
    from grant_vote_step [OF assms(1) g] can n' have "vote_step n1 n'" by simp
    with adopt have "vote_step n n'" by (blast intro: vote_step_trans)
    with n' r log can adopt show ?thesis by simp
  next
    case cannot: False
    with assms(2) False a have "n' = n1" and "\<not> rvr_vote_granted r"
      by (cases b; auto simp: handle_request_vote_def Let_def split: if_splits)+
    with adopt show ?thesis by simp
  qed
qed

lemma save_pg_quiet:
  assumes "env_storage env = S"
  shows "quiet n (save_pg env k a n)"
proof -
  let ?p = "\<lparr>pg_commit_index = k, pg_last_applied = a, pg_snapshot_index = 0, pg_snapshot_term = 0\<rparr>"
  have "hs (snd (save_progress S (storage n) ?p)) = hs (storage n)"
    and "set (lg (snd (save_progress S (storage n) ?p))) \<subseteq> set (lg (storage n))"
    by (rule frame_hs grow_lg)+
  then show ?thesis
    using assms by (auto simp: save_pg_def quiet_def same_core_def split: prod.splits sum.splits)
qed

lemma quiet_refl [simp]: "quiet n n"
  by (simp add: quiet_def)

lemma quiet_trans: "quiet a b \<Longrightarrow> quiet b c \<Longrightarrow> quiet a c"
  unfolding quiet_def using same_core_trans [of a b c] by auto

lemma quiet_pending: "quiet n n' \<Longrightarrow> quiet n (n'\<lparr>pending := pp\<rparr>)"
  by (simp add: quiet_def same_core_def)

lemma apply_committed_entries_quiet:
  assumes "env_storage env = S" and "no_membership l"
    and "apply_committed_entries env l k n = Some n'"
  shows "quiet n n'"
proof -
  obtain n1 a cs fs where loop: "apply_loop env (topology_epoch n) l k (last_applied n) n [] [] =
      Some (n1, a, cs, fs)"
    using assms(3) by (auto simp: apply_committed_entries_def split: option.splits)
  from apply_frame_core [OF apply_loop_frame [OF loop assms(2)]] have "quiet n n1"
    by (simp add: quiet_def)
  then have q: "quiet n (save_pg env k a n1)"
    using save_pg_quiet [OF assms(1)] by (rule quiet_trans)
  from assms(3) loop obtain pp where "n' = (save_pg env k a n1)\<lparr>pending := pp\<rparr>"
    by (auto simp: apply_committed_entries_def Let_def split: option.splits)
  with quiet_pending [OF q] show ?thesis by simp
qed

lemma commit_index_quiet: "quiet (n\<lparr>commit_index := k\<rparr>) n' \<Longrightarrow> vote_step n n' \<and> log n' = log n"
proof -
  assume q: "quiet (n\<lparr>commit_index := k\<rparr>) n'"
  have "vote_step n (n\<lparr>commit_index := k\<rparr>)"
    by (simp add: vote_step_def vote_le_def vote_mono_def node_ok_def durable_vote_def)
  with quiet_vote_step [OF q] have "vote_step n n'" by (blast intro: vote_step_trans)
  with q show ?thesis by (simp add: quiet_def same_core_def)
qed

lemma advance_commit_step:
  assumes "env_storage env = S" and "no_membership (log n)"
    and "advance_commit env k m n = Some n'"
  shows "vote_step n n' \<and> log n' = log n"
proof (cases "commit_index n < k")
  case True
  with assms(3) have "apply_committed_entries env (log n) (min k m) (n\<lparr>commit_index := min k m\<rparr>) = Some n'"
    by (simp add: advance_commit_def Let_def)
  from apply_committed_entries_quiet [OF assms(1,2) this] show ?thesis by (rule commit_index_quiet)
next
  case False
  with assms(3) show ?thesis by (simp add: advance_commit_def vote_step_refl)
qed

lemma append_loop_frame:
  assumes "append_loop S es idx l st = (b, l', st')"
    and "no_membership es" and "no_membership l" and "no_membership (lg st)"
  shows "hs st' = hs st \<and> no_membership l' \<and> no_membership (lg st')"
  using assms
proof (induction es arbitrary: idx l st)
  case (Cons e es)
  note app = frame_hs(2) grow_lg(3) and tru = frame_hs(3) grow_lg(4)
  obtain r1 st1 where t: "truncate_suffix S st idx = (r1, st1)" by (rule prod.exhaust)
  with tru [of st idx] have st1: "hs st1 = hs st" "no_membership (lg st1)"
    using Cons.prems(4) by (auto intro: no_membership_subset)
  obtain r2 st2 where a1: "append_entries S st1 [e] = (r2, st2)" by (rule prod.exhaust)
  with app(1) [of st1 "[e]"] app(2) [of st1 "[e]"] st1 Cons.prems(2)
  have st2: "hs st2 = hs st" "no_membership (lg st2)"
    by (auto simp: no_membership_def)
  obtain r3 st3 where a2: "append_entries S st [e] = (r3, st3)" by (rule prod.exhaust)
  with app(1) [of st "[e]"] app(2) [of st "[e]"] Cons.prems(2,4)
  have st3: "hs st3 = hs st" "no_membership (lg st3)"
    by (auto simp: no_membership_def)
  have tk: "no_membership (take idx l @ [e])" "no_membership (l @ [e])"
    using Cons.prems(2,3) by (auto simp: no_membership_take)
  consider "idx < length l" "le_term (l ! idx) \<noteq> le_term e" "is_ok r1" "is_ok r2"
    | "idx < length l" "le_term (l ! idx) \<noteq> le_term e" "\<not> is_ok r1 \<or> \<not> is_ok r2"
    | "idx < length l" "le_term (l ! idx) = le_term e" | "\<not> idx < length l" "is_ok r3"
    | "\<not> idx < length l" "\<not> is_ok r3" by blast
  then show ?case
  proof cases
    case 1
    with Cons.prems(1) t a1 have "append_loop S es (idx + 1) (take idx l @ [e]) st2 = (b, l', st')"
      by (auto simp: is_ok_iff)
    from Cons.IH [OF this] Cons.prems(2) tk st2 show ?thesis by simp
  next
    case 2
    with Cons.prems(1) t a1 have "l' = l \<and> (st' = st1 \<or> st' = st2)"
      by (auto simp: is_ok_iff split: sum.splits)
    with Cons.prems(3) st1 st2 show ?thesis by auto
  next
    case 3
    with Cons.prems(1) have "append_loop S es (idx + 1) l st = (b, l', st')" by simp
    from Cons.IH [OF this] Cons.prems show ?thesis by simp
  next
    case 4
    with Cons.prems(1) a2 have "append_loop S es (idx + 1) (l @ [e]) st3 = (b, l', st')"
      by (auto simp: is_ok_iff)
    from Cons.IH [OF this] Cons.prems(2) tk st3 show ?thesis by simp
  next
    case 5
    with Cons.prems(1) a2 have "l' = l \<and> st' = st3"
      by (auto simp: is_ok_iff split: sum.splits)
    with Cons.prems(3) st3 show ?thesis by simp
  qed
qed simp

lemma follow_step: "vote_step n (follow l now n)"
  by (auto simp: follow_def vote_step_def vote_le_def vote_mono_def role_le_def node_ok_def
      durable_vote_def)

lemma append_accepted_step:
  assumes env: "env_storage env = S" and ok: "node_ok n" and nm: "no_membership (ae_entries args)"
    and h: "append_accepted env args n = Some (r, n')"
  shows "vote_step n n'"
proof -
  obtain b l st where loop: "append_loop S (ae_entries args) (ae_prev_log_index args + 1) (log n)
      (storage n) = (b, l, st)" by (metis prod_cases3)
  define n3 where "n3 = n\<lparr>log := l, storage := st\<rparr>"
  have frame: "hs st = hs (storage n) \<and> no_membership l \<and> no_membership (lg st)"
    using append_loop_frame [OF loop nm] ok by (simp add: node_ok_def)
  then have s3: "vote_step n n3" using ok
    by (simp add: n3_def vote_step_def vote_le_def vote_mono_def node_ok_def durable_vote_def)
  consider "n' = n" | "n' = n3"
    | k where "advance_commit env (ae_leader_commit args) k n = Some n'"
    | k where "advance_commit env (ae_leader_commit args) k n3 = Some n'"
  proof (cases "prev_matches args (log n)")
    case False
    with h that(1) show ?thesis by (simp add: append_accepted_def Let_def split: if_splits)
  next
    case True
    show ?thesis
    proof (cases "ae_is_heartbeat args \<and> ae_entries args = []")
      case hb: True
      with True h have "advance_commit env (ae_leader_commit args) (length (log n) - 1) n = Some n'"
        by (simp add: append_accepted_def Let_def bind_eq_Some_conv)
      then show ?thesis by (rule that(3))
    next
      case False
      with True h loop env that(2) have "b \<Longrightarrow> advance_commit env (ae_leader_commit args) (length l - 1) n3 = Some n'"
        and "\<not> b \<Longrightarrow> n' = n3"
        by (simp_all add: append_accepted_def Let_def bind_eq_Some_conv n3_def)
      with that(2,4) show ?thesis by blast
    qed
  qed
  then show ?thesis
  proof cases
    case 3
    show ?thesis using advance_commit_step [OF env _ 3] ok by (simp add: node_ok_def)
  next
    case 4
    have "vote_step n3 n'" using advance_commit_step [OF env _ 4] frame by (simp add: n3_def)
    with s3 show ?thesis by (rule vote_step_trans)
  qed (use s3 in \<open>simp_all add: vote_step_refl\<close>)
qed

lemma handle_append_entries_step:
  assumes env: "env_storage env = S" and ok: "node_ok n" and nm: "no_membership (ae_entries args)"
    and h: "handle_append_entries env now args n = Some (r, n')"
  shows "vote_step n n'"
proof -
  obtain b n1 where a: "append_adopt_term env (ae_term args) n = (b, n1)" by (rule prod.exhaust)
  have s1: "vote_step n n1" using append_adopt_step [OF env a] by simp
  let ?n2 = "follow (ae_leader_id args) now n1"
  have s2: "vote_step n ?n2" by (rule vote_step_trans [OF s1 follow_step])
  consider "n' = n1" | "append_accepted env args ?n2 = Some (r, n')"
    using h a by (cases b; auto simp: handle_append_entries_def split: if_splits)
  then show ?thesis
  proof cases
    case 2
    have "node_ok ?n2" using s2 ok by (simp add: vote_step_def)
    from append_accepted_step [OF env this nm 2] s2 show ?thesis by (blast intro: vote_step_trans)
  qed (use s1 in simp)
qed

lemma propose_batch_step:
  assumes env: "env_storage env = S" and nm: "\<forall>c \<in> set cs. \<forall>mm. c \<noteq> Membership mm"
    and h: "propose_batch env cs n = Some (r, n')"
  shows "vote_step n n'"
proof (cases "is_leader n")
  case True
  define es where "es = number_entries (current_term n) (length (log n)) cs"
  have es: "no_membership es" using nm by (simp add: es_def no_membership_number)
  obtain q st where a: "append_entries S (storage n) es = (q, st)" by (rule prod.exhaust)
  have "hs st = hs (storage n)" and "set (lg st) \<subseteq> set (lg (storage n)) \<union> set es"
    using frame_hs(2) [of "storage n" es] grow_lg(3) [of "storage n" es] a by simp_all
  moreover have "no_membership (lg st)" if "no_membership (lg (storage n))"
    using calculation(2) that es by (auto simp: no_membership_def)
  moreover obtain pt d m where "n' = n\<lparr>pipeline_telemetry := pt, durability := d, storage := st\<rparr> \<or>
      n' = n\<lparr>pipeline_telemetry := pt, durability := d, storage := st, log := log n @ es, match_index := m\<rparr>"
    using h a env True es_def
    by (cases q; auto simp: propose_batch_def Let_def split: if_splits)
  ultimately show ?thesis
    using es by (auto simp: vote_step_def vote_le_def vote_mono_def node_ok_def durable_vote_def)
next
  case False
  with h show ?thesis by (simp add: propose_batch_def vote_step_refl)
qed

lemma propose_step:
  assumes "env_storage env = S" and "\<forall>mm. cmd \<noteq> Membership mm" and "propose env cmd n = Some (r, n')"
  shows "vote_step n n'"
proof -
  from assms(3) obtain q where "propose_batch env [cmd] n = Some (q, n')"
    by (auto simp: propose_def split: option.splits sum.splits list.splits)
  with assms(1,2) show ?thesis by (intro propose_batch_step [of env "[cmd]"]) auto
qed

lemma pending_step_quiet: "vote_step n (n\<lparr>pending := pp\<rparr>)"
  by (rule quiet_vote_step) (simp add: quiet_def same_core_def)

lemma propose_data_mutation_step:
  assumes "env_storage env = S" and "propose_data_mutation env now m n = Some (r, n')"
  shows "vote_step n n'"
proof (cases "is_leader n")
  case True
  then obtain q n1 where p: "propose env (Data m) n = Some (q, n1)" and "n' = n1 \<or> (\<exists>pp. n' = n1\<lparr>pending := pp\<rparr>)"
    using assms(2) by (auto simp: propose_data_mutation_def split: option.splits sum.splits prod.splits)
  moreover from propose_step [OF assms(1) _ p] have "vote_step n n1" by simp
  ultimately show ?thesis using pending_step_quiet vote_step_trans by blast
next
  case False
  with assms(2) show ?thesis by (simp add: propose_data_mutation_def vote_step_refl)
qed

lemma check_quorum_commit_step:
  assumes env: "env_storage env = S" and ok: "node_ok n"
    and h: "check_quorum_commit env n = Some (b, n')"
  shows "vote_step n n'"
proof -
  consider "n' = n" | k where "apply_committed_entries env (log n) k
      (save_pg env k (last_applied n) (n\<lparr>commit_index := k\<rparr>)) = Some n'"
    using h by (auto simp: check_quorum_commit_def split: if_splits option.splits bind_splits)
  then show ?thesis
  proof cases
    case 1
    then show ?thesis by (simp add: vote_step_refl)
  next
    case 2
    have "no_membership (log n)" using ok by (simp add: node_ok_def)
    from apply_committed_entries_quiet [OF env this 2] save_pg_quiet [OF env]
    have "quiet (n\<lparr>commit_index := k\<rparr>) n'" by (blast intro: quiet_trans)
    from commit_index_quiet [OF this] show ?thesis by simp
  qed
qed

end

end
