(* ===== verification/Raft_Election.thy ===== *)
theory Raft_Election
  imports Raft_Votes
begin

text \<open>
  Runs of the whole cluster, and election safety: at most one leader per term. Runs may
  contain storage faults, restarts from storage, and votes and entries delivered from
  anywhere; the set of voters does not change during a run.
\<close>

section \<open>Actions\<close>

text \<open>Everything that can happen to a cluster between two observations.\<close>

datatype ('m, 'st, 'sm) action =
    Elect int nat
  | Heartbeat int nat
  | Transfer int nat
  | ClientPropose int 'm
  | ProposeBatch nat "'m raft_command list"
  | DeliverVote int nat request_vote_args
  | DeliverAppend int nat "'m append_entries_args"
  | ClusterRead int read_context_id "nat \<Rightarrow> nat \<times> int" linearizable_read_mode
  | NodeRead int nat read_context_id "nat \<Rightarrow> nat \<times> int" linearizable_read_mode
  | PruneTimeouts int int nat
  | Restart int nat "nat list"
  | RecoverState nat 'sm
  | InstallStateMachine nat 'sm
  | AddLearner int nat 'st
  | StorageFault nat 'st

definition on_node ::
  "nat \<Rightarrow> (('m, 'st, 'sm) raft_node \<Rightarrow> ('m, 'st, 'sm) raft_node option) \<Rightarrow>
     ('m, 'st, 'sm) raft_cluster \<Rightarrow> ('m, 'st, 'sm) raft_cluster option" where
  "on_node i f c = do { n \<leftarrow> nodes c i; n' \<leftarrow> f n; Some (put i n' c) }"

fun perform ::
  "('m, 'st, 'sm) raft_env \<Rightarrow> ('m, 'st, 'sm) action \<Rightarrow> ('m, 'st, 'sm) raft_cluster \<Rightarrow>
     ('m, 'st, 'sm) raft_cluster option" where
  "perform env (Elect now i) c = map_option snd (trigger_election env now i c)"
| "perform env (Heartbeat now i) c = broadcast_heartbeats env now i c"
| "perform env (Transfer now i) c = map_option snd (transfer_leadership_to_healthiest env now i c)"
| "perform env (ClientPropose now m) c = map_option snd (cluster_propose env now m c)"
| "perform env (ProposeBatch i cs) c = on_node i (\<lambda>n. map_option snd (propose_batch env cs n)) c"
| "perform env (DeliverVote now i args) c =
     on_node i (\<lambda>n. map_option snd (handle_request_vote env now args n)) c"
| "perform env (DeliverAppend now i args) c =
     on_node i (\<lambda>n. map_option snd (handle_append_entries env now args n)) c"
| "perform env (ClusterRead now ctx poll mode) c =
     map_option snd (cluster_linearizable_read env now ctx poll mode c)"
| "perform env (NodeRead now i ctx poll mode) c =
     on_node i (\<lambda>n. map_option snd (node_linearizable_read now ctx poll mode n)) c"
| "perform env (PruneTimeouts now limit i) c =
     on_node i (\<lambda>n. Some (n\<lparr>pending := snd (prune_timeouts now limit (pending n))\<rparr>)) c"
| "perform env (RecoverState i sm) c =
     on_node i (\<lambda>n. Some (fst (snd (recover_node_state env n sm)))) c"
| "perform env (Restart now i peers) c =
     on_node i (\<lambda>n. case try_with_storage env now i peers (storage n) of
                      Inl e \<Rightarrow> None | Inr n' \<Rightarrow> Some n') c"
| "perform env (InstallStateMachine i sm) c = on_node i (\<lambda>n. Some (set_replicated_sm sm n)) c"
| "perform env (AddLearner now i st) c = add_learner env now i st c"
| "perform env (StorageFault i st) c = on_node i (\<lambda>n. Some (n\<lparr>storage := st\<rparr>)) c"

text \<open>
  The runs considered: the voters are \<open>P\<close> throughout. \<open>flt\<close> says which changes of a
  storage between two calls count as faults, \<open>fresh\<close> which storages a new learner may
  start from.
\<close>

fun static_voters ::
  "('st \<Rightarrow> 'st \<Rightarrow> bool) \<Rightarrow> ('st \<Rightarrow> bool) \<Rightarrow> nat list \<Rightarrow> ('m, 'st, 'sm) action \<Rightarrow>
     ('m, 'st, 'sm) raft_cluster \<Rightarrow> bool" where
  "static_voters flt fresh P (ProposeBatch i cs) c \<longleftrightarrow> (\<forall>x \<in> set cs. \<forall>mm. x \<noteq> Membership mm)"
| "static_voters flt fresh P (DeliverAppend now i args) c \<longleftrightarrow> no_membership (ae_entries args)"
| "static_voters flt fresh P (Restart now i peers) c \<longleftrightarrow> i \<in> set P \<and> insert i (set peers) = set P"
| "static_voters flt fresh P (AddLearner now i st) c \<longleftrightarrow>
     i \<notin> set P \<and> nodes c i = None \<and> fresh st"
| "static_voters flt fresh P (StorageFault i st) c \<longleftrightarrow>
     (case nodes c i of None \<Rightarrow> False | Some n \<Rightarrow> flt (storage n) st)"
| "static_voters flt fresh P _ c \<longleftrightarrow> True"

section \<open>Sequences of node updates\<close>

text \<open>The clusters reached by updates of single nodes, each allowed by \<open>R\<close>.\<close>

inductive moves ::
  "(nat \<Rightarrow> ('m, 'st, 'sm) raft_node \<Rightarrow> ('m, 'st, 'sm) raft_node \<Rightarrow> ('m, 'st, 'sm) raft_cluster \<Rightarrow> bool) \<Rightarrow>
     ('m, 'st, 'sm) raft_cluster \<Rightarrow> ('m, 'st, 'sm) raft_cluster \<Rightarrow> bool"
  for R and c where
    moves_refl: "moves R c c"
  | moves_put: "moves R c c1 \<Longrightarrow> nodes c1 i = Some n \<Longrightarrow> R i n n' c1 \<Longrightarrow> moves R c (put i n' c1)"

lemma moves_single: "nodes c i = Some n \<Longrightarrow> R i n n' c \<Longrightarrow> moves R c (put i n' c)"
  by (rule moves_put [OF moves_refl])

lemma moves_trans: "moves R b c \<Longrightarrow> moves R a b \<Longrightarrow> moves R a c"
  by (induction rule: moves.induct) (auto intro: moves.intros)

lemma nodes_put [simp]: "nodes (put i n c) = (nodes c)(i \<mapsto> n)"
  by (simp add: put_def)

lemma keys_put [simp]: "keys (put i n c) = keys c"
  by (simp add: put_def)

lemma moves_invariant:
  assumes "moves R c c'" and "I c"
    and "\<And>c i n n'. I c \<Longrightarrow> nodes c i = Some n \<Longrightarrow> R i n n' c \<Longrightarrow> I (put i n' c)"
  shows "I c'"
  using assms(1,2) by (induction rule: moves.induct) (auto intro: assms(3))

definition note_match ::
  "nat \<Rightarrow> nat \<Rightarrow> ('m, 'st, 'sm) raft_node \<Rightarrow> ('m, 'st, 'sm) raft_node" where
  "note_match p k n =
     n\<lparr>next_index := (next_index n)(p \<mapsto> k + 1), match_index := (match_index n)(p \<mapsto> k)\<rparr>"

lemma heartbeat_peer_cases:
  assumes "heartbeat_peer env now lid t lc l p (r, c) = Some (r', c')"
    and "nodes c p = Some n" and "nodes c lid = Some leader" and "p \<noteq> lid"
  shows "\<exists>reply n'. handle_append_entries env now (append_args t lid lc l (peer_next leader p)) n =
      Some (reply, n') \<and> l \<noteq> [] \<and> peer_next leader p \<noteq> 0 \<and>
    (if aer_success reply
     then r' = r + 1 \<and> c' = put lid (note_match p (aer_match_index reply) leader) (put p n' c)
     else r' = r \<and> c' = put p n' c)"
  using assms
  by (auto simp: heartbeat_peer_def note_match_def Let_def split: if_splits bind_splits)

section \<open>Election safety\<close>

text \<open>The node has voted for \<open>l\<close> in term \<open>t\<close>, or has left the term behind.\<close>

definition backs :: "nat \<Rightarrow> nat \<Rightarrow> ('m, 'st, 'sm) raft_node \<Rightarrow> bool" where
  "backs l t m \<longleftrightarrow> t < current_term m \<or> current_term m = t \<and> voted_for m = Some l"

lemma backs_mono: "backs l t m \<Longrightarrow> vote_le m m' \<Longrightarrow> backs l t m'"
  by (auto simp: backs_def vote_le_def vote_mono_def)

definition backed ::
  "nat list \<Rightarrow> ('m, 'st, 'sm) raft_cluster \<Rightarrow> nat \<Rightarrow> nat \<Rightarrow> bool" where
  "backed P c l t \<longleftrightarrow>
     (\<exists>Q. majority P Q \<and> (\<forall>x \<in> Q. \<exists>m. nodes c x = Some m \<and> backs l t m))"

lemma backed_put:
  assumes "backed P c l t" and "nodes c i = Some n" and "vote_le n n'"
  shows "backed P (put i n' c) l t"
proof -
  obtain Q where Q: "majority P Q" "\<forall>x \<in> Q. \<exists>m. nodes c x = Some m \<and> backs l t m"
    using assms(1) by (auto simp: backed_def)
  have "\<exists>m. nodes (put i n' c) x = Some m \<and> backs l t m" if "x \<in> Q" for x
    using Q(2) that assms(2) backs_mono [OF _ assms(3)] by (cases "x = i") auto
  with Q(1) show ?thesis unfolding backed_def by blast
qed

text \<open>Two candidates backed by a majority whose members are still in the term agree.\<close>

lemma backed_unique:
  assumes "backed P c l t" and "majority P Q"
    and "\<And>x. x \<in> Q \<Longrightarrow> \<exists>m. nodes c x = Some m \<and> current_term m = t \<and> voted_for m = Some i"
  shows "l = i"
proof -
  obtain R where R: "majority P R" "\<forall>x \<in> R. \<exists>m. nodes c x = Some m \<and> backs l t m"
    using assms(1) by (auto simp: backed_def)
  obtain x where "x \<in> Q" "x \<in> R" using maj.quorum_meet [OF assms(2) R(1)] by blast
  with R(2) assms(3) show ?thesis by (force simp: backs_def)
qed

definition voters_ok :: "nat list \<Rightarrow> nat \<Rightarrow> ('m, 'st, 'sm) raft_node \<Rightarrow> bool" where
  "voters_ok P i n \<longleftrightarrow> node_id n = i \<and>
     (if i \<in> set P
      then set (voting_peers n) = set P \<and> distinct (voting_peers n) \<and> role n \<noteq> Learner
      else role n = Learner)"

lemma voters_ok_le: "voters_ok P i n \<Longrightarrow> vote_le n n' \<Longrightarrow> voters_ok P i n'"
  by (auto simp: voters_ok_def vote_le_def role_le_def split: if_splits)

definition leaders_ok :: "nat list \<Rightarrow> ('m, 'st, 'sm) raft_cluster \<Rightarrow> bool" where
  "leaders_ok P c \<longleftrightarrow>
     (\<forall>i n. nodes c i = Some n \<longrightarrow> role n = Leader \<longrightarrow>
        backed P c i (current_term n) \<and>
        (\<forall>j m. nodes c j = Some m \<longrightarrow> role m = Leader \<longrightarrow>
           current_term m = current_term n \<longrightarrow> j = i))"

lemma leaders_okD:
  assumes "leaders_ok P c" and "nodes c i = Some n" and "role n = Leader"
  shows "backed P c i (current_term n)"
    and "nodes c j = Some m \<Longrightarrow> role m = Leader \<Longrightarrow> current_term m = current_term n \<Longrightarrow> j = i"
  using assms unfolding leaders_ok_def by blast+

lemma leaders_ok_le:
  assumes "leaders_ok P c" and "nodes c i = Some n" and "vote_le n n'"
  shows "leaders_ok P (put i n' c)"
proof -
  have old: "\<exists>k. nodes c j = Some k \<and> role k = Leader \<and> current_term k = current_term m"
    if "nodes (put i n' c) j = Some m" and "role m = Leader" for j m
    using that assms(2,3) by (auto simp: vote_le_def role_le_def split: if_splits)
  show ?thesis
    unfolding leaders_ok_def
  proof (intro allI impI conjI)
    fix j m assume m: "nodes (put i n' c) j = Some m" "role m = Leader"
    from old [OF m] obtain k where k: "nodes c j = Some k" "role k = Leader"
      "current_term k = current_term m" by blast
    show "backed P (put i n' c) j (current_term m)"
      using backed_put [OF leaders_okD(1) [OF assms(1) k(1,2)] assms(2,3)] k(3) by simp
    fix j' m' assume m': "nodes (put i n' c) j' = Some m'" "role m' = Leader"
      "current_term m' = current_term m"
    from old [OF m'(1,2)] obtain k' where "nodes c j' = Some k'" "role k' = Leader"
      "current_term k' = current_term m'" by blast
    with leaders_okD(2) [OF assms(1) k(1,2)] k(3) m'(3) show "j' = j" by simp
  qed
qed

lemma leaders_ok_win:
  assumes "leaders_ok P c" and n: "nodes c i = Some n" and "majority P Q"
    and votes: "\<And>x. x \<in> Q \<Longrightarrow>
      \<exists>m. nodes c x = Some m \<and> current_term m = current_term n \<and> voted_for m = Some i"
    and n': "current_term n' = current_term n" "voted_for n' = voted_for n"
  shows "leaders_ok P (put i n' c)"
proof -
  let ?c = "put i n' c"
  have votes': "\<exists>m. nodes ?c x = Some m \<and> current_term m = current_term n \<and> voted_for m = Some i"
    if "x \<in> Q" for x
    using votes [OF that] n n' by (cases "x = i") auto
  have keep: "backed P ?c l t" if b: "backed P c l t" for l t
  proof -
    obtain R where R: "majority P R" "\<forall>x \<in> R. \<exists>m. nodes c x = Some m \<and> backs l t m"
      using b by (auto simp: backed_def)
    have "\<exists>m. nodes ?c x = Some m \<and> backs l t m" if "x \<in> R" for x
      using R(2) that n n' by (cases "x = i") (auto simp: backs_def)
    with R(1) show ?thesis unfolding backed_def by blast
  qed
  have own: "backed P ?c i (current_term n)"
    using assms(3) votes' unfolding backed_def backs_def by blast
  have other: "j = i" if "nodes c j = Some m" "role m = Leader" "current_term m = current_term n" for j m
    using backed_unique [OF leaders_okD(1) [OF assms(1) that(1,2)] assms(3)] votes that(3) by simp
  show ?thesis
    unfolding leaders_ok_def
  proof (intro allI impI conjI)
    fix j m assume m: "nodes ?c j = Some m" "role m = Leader"
    show "backed P ?c j (current_term m)"
      using m n' own keep leaders_okD(1) [OF assms(1)] by (cases "j = i") auto
    fix k m' assume m': "nodes ?c k = Some m'" "role m' = Leader" "current_term m' = current_term m"
    show "k = j"
      using m m' n' other leaders_okD(2) [OF assms(1)] by (auto split: if_splits)
  qed
qed

text \<open>A vote that counts, as it stands in the cluster after the round.\<close>

definition counted :: "request_vote_args \<Rightarrow> ('m, 'st, 'sm) raft_cluster \<Rightarrow> nat \<Rightarrow> bool" where
  "counted args c p \<longleftrightarrow> p \<noteq> rv_candidate_id args \<and>
     (\<exists>m. nodes c p = Some m \<and> current_term m = rv_term args \<and>
        voted_for m = Some (rv_candidate_id args) \<and> log_up_to_date args (last (log m)))"

lemma same_set_length: "distinct a \<Longrightarrow> distinct b \<Longrightarrow> set a = set b \<Longrightarrow> length a = length b"
  by (metis distinct_card)

text \<open>Enough counted votes make a majority, the candidate's own vote included.\<close>

lemma counted_majority:
  assumes P: "distinct P" and vp: "distinct vp" "set vp = set P" and i: "i \<in> set P"
    and cand: "rv_candidate_id args = i"
    and q: "quorum_size vp \<le> 1 + card {p \<in> set vp. counted args c p}"
  shows "majority P (insert i {p \<in> set P. counted args c p})"
proof -
  have "i \<notin> {p \<in> set P. counted args c p}" using cand by (simp add: counted_def)
  then have "card (insert i {p \<in> set P. counted args c p}) = 1 + card {p \<in> set vp. counted args c p}"
    using vp(2) by simp
  moreover have "quorum_size P = quorum_size vp"
    using same_set_length [OF P vp(1)] vp(2) by (simp add: quorum_size_def)
  ultimately show ?thesis using P i q by (auto simp: majority_def)
qed

locale faulty_storage =
  raft_storage_contract S hs pg lg healthy
  for S :: "('st, 'm) raft_storage" and hs pg lg healthy +
  fixes flt :: "'st \<Rightarrow> 'st \<Rightarrow> bool" and fresh :: "'st \<Rightarrow> bool"
  assumes flt_hs: "flt st st' \<Longrightarrow> hs st' = hs st"
    and flt_lg: "flt st st' \<Longrightarrow> no_membership (lg st) \<Longrightarrow> no_membership (lg st')"
    and fresh_lg: "fresh st \<Longrightarrow> no_membership (lg st)"
begin

definition vote_move ::
  "nat \<Rightarrow> ('m, 'st, 'sm) raft_node \<Rightarrow> ('m, 'st, 'sm) raft_node \<Rightarrow> ('m, 'st, 'sm) raft_cluster \<Rightarrow> bool"
  where "vote_move i n n' c \<longleftrightarrow> vote_step n n'"

definition nodes_ok :: "('m, 'st, 'sm) raft_cluster \<Rightarrow> bool" where
  "nodes_ok c \<longleftrightarrow> (\<forall>i n. nodes c i = Some n \<longrightarrow> node_ok n)"

definition votes_inv :: "nat list \<Rightarrow> ('m, 'st, 'sm) raft_cluster \<Rightarrow> bool" where
  "votes_inv P c \<longleftrightarrow>
     nodes_ok c \<and> (\<forall>i n. nodes c i = Some n \<longrightarrow> voters_ok P i n) \<and> leaders_ok P c"

lemma nodes_ok_put: "nodes_ok c \<Longrightarrow> node_ok n \<Longrightarrow> nodes_ok (put i n c)"
  by (simp add: nodes_ok_def)

lemma nodes_ok_moves:
  assumes "moves vote_move c c'" and "nodes_ok c"
  shows "nodes_ok c'"
  using assms
proof (rule moves_invariant)
  fix c i n n'
  assume "nodes_ok c" "nodes c i = Some n" "vote_move i n n' c"
  then show "nodes_ok (put i n' c)"
    by (auto simp: nodes_ok_def vote_move_def vote_step_def)
qed

lemma votes_inv_moves:
  assumes "moves vote_move c c'" and "votes_inv P c"
  shows "votes_inv P c'"
  using assms
proof (rule moves_invariant)
  fix c i n n'
  assume inv: "votes_inv P c" and n: "nodes c i = Some n" and "vote_move i n n' c"
  then have "vote_le n n'" "node_ok n'"
    by (auto simp: votes_inv_def nodes_ok_def vote_move_def vote_step_def)
  moreover from this inv n have "leaders_ok P (put i n' c)"
    by (intro leaders_ok_le) (auto simp: votes_inv_def)
  ultimately show "votes_inv P (put i n' c)"
    using inv n voters_ok_le [of P i n n'] by (auto simp: votes_inv_def nodes_ok_def)
qed

lemma note_match_step: "vote_step n (note_match p k n)"
  by (simp add: note_match_def vote_step_def vote_le_def vote_mono_def node_ok_def durable_vote_def)

lemma engine_step: "vote_step n (n\<lparr>read_engine := eng\<rparr>)"
  by (rule quiet_vote_step) (simp add: quiet_def same_core_def)

lemma no_membership_append_args: "no_membership l \<Longrightarrow> no_membership (ae_entries (append_args t i k l x))"
  by (simp add: append_args_def Let_def no_membership_drop)

lemma heartbeat_peer_moves:
  assumes env: "env_storage env = S" and ok: "nodes_ok c" and nm: "no_membership l"
    and h: "heartbeat_peer env now lid t lc l p (r, c) = Some (r', c')"
  shows "moves vote_move c c'"
proof (cases "p = lid \<or> nodes c p = None \<or> nodes c lid = None")
  case True
  with h show ?thesis by (auto simp: heartbeat_peer_def moves_refl split: option.splits)
next
  case False
  then obtain n leader where n: "nodes c p = Some n" and l: "nodes c lid = Some leader"
    and "p \<noteq> lid" by auto
  let ?a = "append_args t lid lc l (peer_next leader p)"
  from heartbeat_peer_cases [OF h n l \<open>p \<noteq> lid\<close>] obtain reply n'
    where a: "handle_append_entries env now ?a n = Some (reply, n')"
      and c': "c' = put p n' c \<or> (\<exists>k. c' = put lid (note_match p k leader) (put p n' c))"
    by (auto split: if_splits)
  have "node_ok n" using ok n by (simp add: nodes_ok_def)
  from handle_append_entries_step [OF env this _ a] nm have "vote_step n n'"
    by (simp add: no_membership_append_args)
  with n have m: "moves vote_move c (put p n' c)"
    by (intro moves_single) (auto simp: vote_move_def)
  have "moves vote_move c (put lid (note_match p k leader) (put p n' c))" for k
    using l \<open>p \<noteq> lid\<close> by (intro moves_put [OF m]) (auto simp: vote_move_def note_match_step)
  with m c' show ?thesis by blast
qed

lemma heartbeat_peers_moves:
  assumes env: "env_storage env = S" and nm: "no_membership l"
    and "nodes_ok (snd s)" and "heartbeat_peers env now lid t lc l ps s = Some s'"
  shows "moves vote_move (snd s) (snd s')"
  using assms(3,4)
proof (induction ps arbitrary: s)
  case (Cons p ps)
  then obtain s1 where s1: "heartbeat_peer env now lid t lc l p s = Some s1"
    and rest: "heartbeat_peers env now lid t lc l ps s1 = Some s'"
    by (auto split: bind_splits)
  have m: "moves vote_move (snd s) (snd s1)"
    using heartbeat_peer_moves [OF env _ nm, of "snd s" now lid t lc p "fst s" "fst s1" "snd s1"]
      s1 Cons.prems(1) by simp
  with Cons.prems(1) have "nodes_ok (snd s1)" by (rule nodes_ok_moves [rotated])
  from moves_trans [OF Cons.IH [OF this rest] m] show ?case .
qed (simp add: moves_refl)

lemma finish_heartbeats_moves:
  assumes env: "env_storage env = S" and ok: "nodes_ok (snd s)"
    and h: "finish_heartbeats env now lid t s = Some c'"
  shows "moves vote_move (snd s) c'"
proof (cases "nodes (snd s) lid")
  case None
  with h show ?thesis by (auto simp: finish_heartbeats_def moves_refl split: prod.splits)
next
  case (Some leader)
  define l1 where "l1 = (if quorum_size (voting_peers leader) \<le> fst s
      then leader\<lparr>read_engine := record_quorum_success now t (read_engine leader)\<rparr> else leader)"
  have s1: "vote_step leader l1" by (simp add: l1_def engine_step vote_step_refl)
  from h Some obtain b l2 where q: "check_quorum_commit env l1 = Some (b, l2)"
    and c': "c' = put lid l2 (snd s)"
    by (cases s) (auto simp: finish_heartbeats_def Let_def l1_def split: bind_splits)
  have "node_ok l1" using s1 ok Some by (auto simp: vote_step_def nodes_ok_def)
  from check_quorum_commit_step [OF env this q] s1 have "vote_step leader l2"
    by (blast intro: vote_step_trans)
  with Some c' show ?thesis by (auto intro: moves_single simp: vote_move_def)
qed

lemma broadcast_heartbeats_moves:
  assumes env: "env_storage env = S" and ok: "nodes_ok c"
    and h: "broadcast_heartbeats env now lid c = Some c'"
  shows "moves vote_move c c'"
proof (cases "\<exists>n. nodes c lid = Some n \<and> is_leader n")
  case True
  then obtain n where n: "nodes c lid = Some n" "is_leader n" by blast
  with h obtain s where s: "heartbeat_peers env now lid (current_term n) (commit_index n) (log n)
      (keys c) (1, c) = Some s" and f: "finish_heartbeats env now lid (current_term n) s = Some c'"
    by (auto simp: broadcast_heartbeats_def split: bind_splits)
  have "no_membership (log n)" using ok n by (auto simp: nodes_ok_def node_ok_def)
  from heartbeat_peers_moves [OF env this _ s] ok have m: "moves vote_move c (snd s)" by simp
  from finish_heartbeats_moves [OF env nodes_ok_moves [OF m ok] f] m show ?thesis
    by (blast intro: moves_trans)
next
  case False
  with h show ?thesis by (auto simp: broadcast_heartbeats_def moves_refl split: option.splits)
qed

lemma request_vote_from_spec:
  assumes env: "env_storage env = S"
    and h: "request_vote_from env now args p (v, c) = Some (v', c')"
  shows "moves vote_move c c' \<and> v' \<le> v + (if counted args c' p then 1 else 0) \<and>
    (\<forall>x. x \<noteq> p \<or> x = rv_candidate_id args \<longrightarrow> nodes c' x = nodes c x) \<and> keys c' = keys c"
proof (cases "p = rv_candidate_id args \<or> nodes c p = None")
  case True
  with h show ?thesis by (auto simp: request_vote_from_def moves_refl split: option.splits)
next
  case False
  then obtain n where n: "nodes c p = Some n" and p: "p \<noteq> rv_candidate_id args" by auto
  with h obtain r n' where a: "handle_request_vote env now args n = Some (r, n')"
    and c': "c' = put p n' c" and v': "v' \<le> (if rvr_vote_granted r then v + 1 else v)"
    by (auto simp: request_vote_from_def split: if_splits bind_splits)
  note st = handle_request_vote_step [OF env a]
  then have "moves vote_move c c'"
    using n c' by (auto intro!: moves_single simp: vote_move_def)
  moreover have "v' \<le> v + (if counted args c' p then 1 else 0)"
    using v' st c' p by (auto simp: counted_def split: if_splits)
  ultimately show ?thesis using c' p by simp
qed

lemma request_votes_spec:
  assumes env: "env_storage env = S" and "distinct ps"
    and "request_votes env now args ps (v, c) = Some (v', c')"
  shows "moves vote_move c c' \<and> v' \<le> v + card {p \<in> set ps. counted args c' p} \<and>
    (\<forall>x. x \<notin> set ps \<or> x = rv_candidate_id args \<longrightarrow> nodes c' x = nodes c x) \<and> keys c' = keys c"
  using assms(2,3)
proof (induction ps arbitrary: v c)
  case (Cons p ps)
  then obtain v1 c1 where one: "request_vote_from env now args p (v, c) = Some (v1, c1)"
    and rest: "request_votes env now args ps (v1, c1) = Some (v', c')"
    by (auto split: bind_splits)
  note s1 = request_vote_from_spec [OF env one]
  have s2: "moves vote_move c1 c'" "v' \<le> v1 + card {p \<in> set ps. counted args c' p}"
    "\<forall>x. x \<notin> set ps \<or> x = rv_candidate_id args \<longrightarrow> nodes c' x = nodes c1 x" "keys c' = keys c1"
    using Cons.IH [OF _ rest] Cons.prems(1) by simp_all
  have "counted args c' p = counted args c1 p"
    using s2(3) Cons.prems(1) by (simp add: counted_def)
  moreover have "{q \<in> set (p # ps). counted args c' q} =
      (if counted args c' p then {p} else {}) \<union> {q \<in> set ps. counted args c' q}" by auto
  then have "card {q \<in> set (p # ps). counted args c' q} =
      (if counted args c' p then 1 else 0) + card {q \<in> set ps. counted args c' q}"
    using Cons.prems(1) by simp
  ultimately have "v' \<le> v + card {q \<in> set (p # ps). counted args c' q}"
    using s1 s2(2) by simp
  moreover have "moves vote_move c c'" using s1 s2(1) by (blast intro: moves_trans)
  moreover have "\<forall>x. x \<notin> set (p # ps) \<or> x = rv_candidate_id args \<longrightarrow> nodes c' x = nodes c x"
    using s1 s2(3) by auto
  ultimately show ?case using s1 s2(4) by simp
qed (simp add: moves_refl)

lemma start_candidacy_spec:
  assumes env: "env_storage env = S" and h: "start_candidacy env i n = (b, n')"
    and role: "role n \<noteq> Learner"
  shows "vote_step n n' \<and> log n' = log n \<and> voting_peers n' = voting_peers n \<and>
    (b \<longrightarrow> current_term n' = current_term n + 1 \<and> voted_for n' = Some i \<and> role n' = Candidate)"
proof -
  obtain b1 n1 where s: "save_hs env (current_term n + 1) (Some i) n = (b1, n1)" by (rule prod.exhaust)
  from save_hs_cases [OF env s] obtain st where n1: "n1 = n\<lparr>storage := st\<rparr>"
    and sub: "set (lg st) \<subseteq> set (lg (storage n))"
    and hst: "b1 \<Longrightarrow> hs st = \<lparr>hs_current_term = current_term n + 1, hs_voted_for = Some i\<rparr>"
      "hs st = hs (storage n) \<or> hs st = \<lparr>hs_current_term = current_term n + 1, hs_voted_for = Some i\<rparr>"
    by blast
  have b: "b = b1" and n': "n' = (if b1 then n1\<lparr>current_term := current_term n + 1, role := Candidate,
      voted_for := Some i\<rparr> else n1)"
    using h s by (cases b1; simp add: start_candidacy_def)+
  have "vote_le n n'"
    using n1 n' role by (auto simp: vote_le_def vote_mono_def role_le_def)
  moreover have "node_ok n'" if "node_ok n"
    using that n1 hst n' no_membership_subset [OF _ sub]
    by (auto simp: node_ok_def durable_vote_def vote_mono_def)
  ultimately show ?thesis using n1 n' b by (auto simp: vote_step_def)
qed

lemma become_leader_step:
  assumes env: "env_storage env = S" and "propose env NoOp (become_leader now ks n) = Some (r, n')"
  shows "role n' \<noteq> Learner \<and> current_term n' = current_term n \<and> voted_for n' = voted_for n \<and>
    node_id n' = node_id n \<and>
    set (voting_peers n') = set (voting_peers n) \<and>
    (distinct (voting_peers n) \<longrightarrow> distinct (voting_peers n')) \<and> (node_ok n \<longrightarrow> node_ok n')"
proof -
  from assms(2) obtain q where p: "propose_batch env [NoOp] (become_leader now ks n) = Some (q, n')"
    by (auto simp: propose_def split: option.splits sum.splits list.splits)
  have "node_ok (become_leader now ks n) = node_ok n"
    by (simp add: become_leader_def node_ok_def durable_vote_def)
  moreover have "vote_step (become_leader now ks n) n'"
    by (rule propose_step [OF env _ assms(2)]) simp
  moreover have "current_term n' = current_term n \<and> voted_for n' = voted_for n"
    using p by (auto simp: propose_batch_def become_leader_def is_leader_def Let_def
        split: prod.splits sum.splits if_splits)
  ultimately show ?thesis by (auto simp: vote_step_def vote_le_def role_le_def become_leader_def)
qed

lemma conclude_election_inv:
  assumes env: "env_storage env = S" and inv: "votes_inv P c" and n: "nodes c i = Some n"
    and cand: "role n \<noteq> Learner" "voted_for n = Some i"
    and maj: "q \<le> v \<Longrightarrow> majority P (insert i {p \<in> set P. counted (vote_request i n) c p})"
    and h: "conclude_election env now i q (v, c) = Some (b, c')"
  shows "votes_inv P c'"
proof (cases "q \<le> v")
  case True
  then obtain r n2 where p: "propose env NoOp (become_leader now (keys c) n) = Some (r, n2)"
    and bc: "broadcast_heartbeats env now i (put i n2 c) = Some c'"
    using h n by (auto simp: conclude_election_def split: bind_splits)
  note bl = become_leader_step [OF env p]
  have "leaders_ok P (put i n2 c)"
    using inv n bl cand
    by (intro leaders_ok_win [OF _ n maj [OF True]])
      (auto simp: votes_inv_def counted_def vote_request_def)
  moreover have "i \<in> set P" using inv n cand by (auto simp: votes_inv_def voters_ok_def split: if_splits)
  ultimately have inv2: "votes_inv P (put i n2 c)"
    using inv n bl by (auto simp: votes_inv_def nodes_ok_def voters_ok_def)
  then have "moves vote_move (put i n2 c) c'"
    by (intro broadcast_heartbeats_moves [OF env _ bc]) (simp add: votes_inv_def)
  then show ?thesis using inv2 by (rule votes_inv_moves)
next
  case False
  have "vote_step n (n\<lparr>role := Follower\<rparr>)"
    using cand by (auto simp: vote_step_def vote_le_def vote_mono_def role_le_def node_ok_def durable_vote_def)
  with False h n have "moves vote_move c c'"
    by (auto simp: conclude_election_def vote_move_def intro!: moves_single)
  then show ?thesis using inv by (rule votes_inv_moves)
qed

lemma trigger_election_inv:
  assumes env: "env_storage env = S" and inv: "votes_inv P c" and P: "distinct P"
    and h: "trigger_election env now i c = Some (b, c')"
  shows "votes_inv P c'"
proof (cases "\<exists>n. nodes c i = Some n \<and> \<not> is_learner n")
  case False
  with h inv show ?thesis by (auto simp: trigger_election_def split: option.splits)
next
  case True
  then obtain n where n: "nodes c i = Some n" "role n \<noteq> Learner" by (auto simp: is_learner_def)
  obtain b1 n1 where sc: "start_candidacy env i n = (b1, n1)" by (rule prod.exhaust)
  note cand = start_candidacy_spec [OF env sc n(2)]
  have inv1: "votes_inv P (put i n1 c)"
    using cand n(1) by (intro votes_inv_moves [OF _ inv] moves_single) (auto simp: vote_move_def)
  show ?thesis
  proof (cases b1)
    case False
    with h n sc inv1 show ?thesis by (simp add: trigger_election_def is_learner_def)
  next
    case True
    let ?args = "vote_request i n1"
    obtain v c1 where rv: "request_votes env now ?args (voting_peers n1) (1, put i n1 c) = Some (v, c1)"
      and con: "conclude_election env now i (quorum_size (voting_peers n1)) (v, c1) = Some (b, c')"
      using h n sc True by (auto simp: trigger_election_def is_learner_def split: if_splits bind_splits)
    have i: "i \<in> set P" and vp: "set (voting_peers n1) = set P" "distinct (voting_peers n1)"
      using inv n cand by (auto simp: votes_inv_def voters_ok_def split: if_splits)
    note votes = request_votes_spec [OF env vp(2) rv]
    have "votes_inv P c1" using votes inv1 by (blast intro: votes_inv_moves)
    moreover have "nodes c1 i = Some n1" using votes by (simp add: vote_request_def)
    moreover have "majority P (insert i {p \<in> set P. counted ?args c1 p})"
      if "quorum_size (voting_peers n1) \<le> v"
      using that votes by (intro counted_majority [OF P vp(2,1) i]) (auto simp: vote_request_def)
    ultimately show ?thesis
      using cand True by (intro conclude_election_inv [where n = n1, OF env _ _ _ _ _ con]) auto
  qed
qed

lemma transfer_inv:
  assumes env: "env_storage env = S" and inv: "votes_inv P c" and P: "distinct P"
    and h: "transfer_leadership_to_healthiest env now i c = Some (r, c')"
  shows "votes_inv P c'"
proof -
  consider "c' = c" | t c1 won c2 where "broadcast_heartbeats env now i c = Some c1"
      "trigger_election env now t c1 = Some (won, c2)"
      "c' = c2 \<or> c' = c2\<lparr>nodes := (nodes c2)(i := map_option count_transfer (nodes c2 i))\<rparr>"
    using h by (auto simp: transfer_leadership_to_healthiest_def split: option.splits if_splits bind_splits)
  then show ?thesis
  proof cases
    case 2
    have "votes_inv P c1"
      using votes_inv_moves [OF broadcast_heartbeats_moves [OF env _ 2(1)] inv] inv
      by (simp add: votes_inv_def)
    from trigger_election_inv [OF env this P 2(2)] have inv2: "votes_inv P c2" .
    have "c2\<lparr>nodes := (nodes c2)(i := map_option count_transfer (nodes c2 i))\<rparr> =
        (case nodes c2 i of None \<Rightarrow> c2 | Some n \<Rightarrow> put i (count_transfer n) c2)"
      by (auto simp: put_def fun_upd_idem split: option.splits)
    moreover have "quiet n (count_transfer n)" for n :: "('m, 'st, 'sm) raft_node"
      by (simp add: quiet_def same_core_def count_transfer_def)
    then have "moves vote_move c2 (case nodes c2 i of None \<Rightarrow> c2 | Some n \<Rightarrow> put i (count_transfer n) c2)"
      by (auto simp: moves_refl vote_move_def intro!: moves_single quiet_vote_step split: option.splits)
    ultimately show ?thesis using 2(3) inv2 votes_inv_moves by metis
  qed (use inv in simp)
qed

lemma single_inv:
  "votes_inv P c \<Longrightarrow> nodes c i = Some n \<Longrightarrow> vote_step n n' \<Longrightarrow> votes_inv P (put i n' c)"
  by (rule votes_inv_moves [OF moves_single]) (auto simp: vote_move_def)

lemma broadcast_inv:
  "env_storage env = S \<Longrightarrow> votes_inv P c \<Longrightarrow> broadcast_heartbeats env now i c = Some c' \<Longrightarrow>
     votes_inv P c'"
  by (rule votes_inv_moves [OF broadcast_heartbeats_moves]) (auto simp: votes_inv_def)

lemma cluster_propose_inv:
  assumes env: "env_storage env = S" and inv: "votes_inv P c" and P: "distinct P"
    and h: "cluster_propose env now m c = Some (r, c')"
  shows "votes_inv P c'"
proof -
  obtain l c1 leader leader' q where
    start: "c1 = c \<or> (\<exists>b. trigger_election env now l c = Some (b, c1))"
    and l: "nodes c1 l = Some leader" "propose_data_mutation env now m leader = Some (q, leader')"
    and c': "c' = put l leader' c1 \<or> broadcast_heartbeats env now l (put l leader' c1) = Some c'"
    using h
    by (auto simp: cluster_propose_def split: option.splits list.splits sum.splits bind_splits) blast+
  have "votes_inv P c1" using start inv trigger_election_inv [OF env inv P] by blast
  from single_inv [OF this l(1) propose_data_mutation_step [OF env l(2)]] c' show ?thesis
    using broadcast_inv [OF env] by blast
qed

lemma engine_put: "nodes c i = Some n \<Longrightarrow> moves vote_move c (put i (n\<lparr>read_engine := eng\<rparr>) c)"
  by (rule moves_single) (auto simp: vote_move_def engine_step)

lemma confirm_peers_moves:
  "confirm_peers now lid t q req ps reached c = (r, c') \<Longrightarrow> moves vote_move c c'"
proof (induction ps arbitrary: reached c)
  case (Cons p ps)
  show ?case
  proof (cases "p = lid \<or> nodes c p = None \<or> nodes c lid = None")
    case True
    with Cons show ?thesis by (auto split: option.splits)
  next
    case False
    then obtain n leader where n: "nodes c p = Some n" and l: "nodes c lid = Some leader"
      and ne: "p \<noteq> lid" by auto
    obtain conf n' where hr: "handle_read_index_request now req n = (conf, n')" by (rule prod.exhaust)
    obtain res eng where hc: "handle_confirmation now conf t q (read_engine leader) = (res, eng)"
      by (rule prod.exhaust)
    define c1 where "c1 = put lid (leader\<lparr>read_engine := eng\<rparr>) (put p n' c)"
    have "quiet n n'"
      using hr by (auto simp: handle_read_index_request_def quiet_def same_core_def split: if_splits)
    then have m: "moves vote_move c (put p n' c)"
      using n by (intro moves_single) (auto simp: vote_move_def quiet_vote_step)
    have "moves vote_move (put p n' c) c1"
      using l ne unfolding c1_def by (intro engine_put) simp
    with m have m1: "moves vote_move c c1" by (blast intro: moves_trans)
    show ?thesis
    proof (cases res)
      case (Inl e)
      with Cons.prems n l ne hr hc c1_def m1 show ?thesis by simp
    next
      case (Inr b)
      with Cons.prems n l ne hr hc
      have "confirm_peers now lid t q req ps (reached \<or> b) c1 = (r, c')" by (simp add: c1_def)
      from moves_trans [OF Cons.IH [OF this] m1] show ?thesis .
    qed
  qed
qed (simp add: moves_refl)

lemma cluster_read_index_moves:
  assumes "nodes c lid = Some leader"
    and h: "cluster_read_index now ctx poll lid leader c = Some (r, c')"
  shows "moves vote_move c c'"
proof -
  obtain req eng where st: "start_read_index_round now ctx (current_term leader) lid (read_engine leader) = (req, eng)"
    by (rule prod.exhaust)
  let ?c1 = "put lid (leader\<lparr>read_engine := eng\<rparr>) c"
  let ?q = "quorum_size (voting_peers leader)"
  obtain res c2 where cp: "confirm_peers now lid (current_term leader) ?q req (voting_peers leader)
      (?q \<le> 1) ?c1 = (res, c2)" by (rule prod.exhaust)
  have m: "moves vote_move c c2"
    using moves_trans [OF confirm_peers_moves [OF cp] engine_put [OF assms(1)]] .
  have "c' = c2 \<or> (\<exists>n e. nodes c2 lid = Some n \<and> c' = put lid (n\<lparr>read_engine := e\<rparr>) c2)"
    using h st cp
    by (cases res; auto simp: cluster_read_index_def read_on_leader_def Let_def split: if_splits bind_splits)
  then show ?thesis using m engine_put moves_trans by blast
qed

lemma cluster_linearizable_read_inv:
  assumes env: "env_storage env = S" and inv: "votes_inv P c"
    and h: "cluster_linearizable_read env now ctx poll mode c = Some (r, c')"
  shows "votes_inv P c'"
proof (cases "get_leader c")
  case None
  with h inv show ?thesis by (simp add: cluster_linearizable_read_def)
next
  case (Some lid)
  with h obtain leader where l: "nodes c lid = Some leader"
    by (auto simp: cluster_linearizable_read_def split: bind_splits)
  show ?thesis
  proof (cases mode)
    case ReadIndex
    with h Some l have "cluster_read_index now ctx poll lid leader c = Some (r, c')"
      by (simp add: cluster_linearizable_read_def)
    from votes_inv_moves [OF cluster_read_index_moves [OF l this] inv] show ?thesis .
  next
    case (LeaseRead lease drift)
    with h Some l have "cluster_lease_read env now poll lid lease drift c = Some (r, c')"
      by (simp add: cluster_linearizable_read_def)
    then consider "c' = c" | c1 n e where "broadcast_heartbeats env now lid c = Some c1"
        "nodes c1 lid = Some n" "c' = put lid (n\<lparr>read_engine := e\<rparr>) c1"
      by (auto simp: cluster_lease_read_def read_on_leader_def
          split: sum.splits prod.splits bind_splits)
    then show ?thesis
    proof cases
      case 2
      from votes_inv_moves [OF engine_put [OF 2(2)] broadcast_inv [OF env inv 2(1)]] 2(3)
      show ?thesis by simp
    qed (use inv in simp)
  qed
qed

lemma node_linearizable_read_step:
  assumes "node_linearizable_read now ctx poll mode n = Some (r, n')"
  shows "vote_step n n'"
proof -
  have "n' = n \<or> (\<exists>e. n' = n\<lparr>read_engine := e\<rparr>)"
    using assms by (auto simp: node_linearizable_read_def Let_def
        split: if_splits linearizable_read_mode.splits sum.splits prod.splits bind_splits)
  then show ?thesis by (auto simp: engine_step vote_step_refl)
qed

lemma try_with_storage_spec:
  assumes env: "env_storage env = S" and h: "try_with_storage env now i peers st = Inr n"
  shows "node_id n = i \<and> role n = Follower \<and> voting_peers n = List.insert i (remdups peers) \<and>
    current_term n = hs_current_term (hs st) \<and> voted_for n = hs_voted_for (hs st) \<and>
    hs (storage n) = hs st \<and> set (log n) \<subseteq> insert sentinel (set (lg st)) \<and>
    set (lg (storage n)) \<subseteq> insert sentinel (set (lg st))"
proof -
  obtain es where ld: "load_log_entries S st 0 = Inr es"
    using h env by (auto simp: try_with_storage_def Let_def split: sum.splits)
  obtain r st' where ap: "append_entries S st [sentinel] = (r, st')" by (rule prod.exhaust)
  have st': "hs st' = hs st" "set (lg st') \<subseteq> insert sentinel (set (lg st))"
    using ap frame_hs(2) [of st "[sentinel]"] grow_lg(3) [of st "[sentinel]"] by auto
  define st1 where "st1 = (if es \<noteq> [] then st else st')"
  define l1 where "l1 = (if es \<noteq> [] then es else [sentinel])"
  obtain h1 where h1: "load_hard_state S st1 = Inr h1" and n: "node_id n = i" "role n = Follower"
    "voting_peers n = List.insert i (remdups peers)" "current_term n = hs_current_term h1"
    "voted_for n = hs_voted_for h1" "storage n = st1" "log n = l1"
    using h env ld ap
    by (cases "es = []"; cases r; auto simp: try_with_storage_def Let_def st1_def l1_def split: sum.splits)
  have "h1 = hs st1" by (rule load_hs [OF h1])
  moreover have "hs st1 = hs st" "set (lg st1) \<subseteq> insert sentinel (set (lg st))"
    using st' by (auto simp: st1_def)
  moreover have "set l1 \<subseteq> insert sentinel (set (lg st))"
    using grow_lg(5) [OF ld] by (auto simp: l1_def)
  ultimately show ?thesis using n by simp
qed

lemma no_membership_sentinel:
  "no_membership l \<Longrightarrow> set l' \<subseteq> insert sentinel (set l) \<Longrightarrow> no_membership l'"
  unfolding no_membership_def by (auto simp: sentinel_def dest!: subsetD)

lemma restart_step:
  assumes env: "env_storage env = S" and h: "try_with_storage env now i peers (storage n) = Inr n'"
    and n: "node_id n = i" "node_ok n" "role n \<noteq> Learner" "insert i (set peers) = set (voting_peers n)"
  shows "vote_step n n'"
proof -
  note spec = try_with_storage_spec [OF env h]
  have "vote_le n n'"
    using spec n by (auto simp: vote_le_def role_le_def node_ok_def durable_vote_def)
  moreover have "node_ok n'"
    using spec n(2) no_membership_sentinel [of "lg (storage n)"]
    by (auto simp: node_ok_def durable_vote_def vote_mono_def)
  ultimately show ?thesis by (simp add: vote_step_def)
qed

lemma new_node_ok:
  assumes "env_storage env = S" and "no_membership (lg st)"
    and "try_with_storage env now i peers st = Inr n"
  shows "node_ok n"
  using try_with_storage_spec [OF assms(1,3)] no_membership_sentinel [OF assms(2)]
  by (simp add: node_ok_def durable_vote_def vote_mono_def)

lemma with_storageD: "with_storage env now i peers st = Some n \<Longrightarrow> try_with_storage env now i peers st = Inr n"
  by (simp add: with_storage_def split: sum.splits)

lemma leaders_ok_insert:
  assumes "leaders_ok P c" and "nodes c i = None" and "role n \<noteq> Leader"
  shows "leaders_ok P (cluster_insert i n c)"
proof -
  have "backed P (cluster_insert i n c) l t" if "backed P c l t" for l t
  proof -
    from that obtain Q where Q: "majority P Q" "\<forall>x \<in> Q. \<exists>m. nodes c x = Some m \<and> backs l t m"
      by (auto simp: backed_def)
    with assms(2) have "\<forall>x \<in> Q. \<exists>m. nodes (cluster_insert i n c) x = Some m \<and> backs l t m"
      by (auto simp: cluster_insert_def)
    with Q(1) show ?thesis unfolding backed_def by blast
  qed
  with assms show ?thesis
    by (auto simp: leaders_ok_def cluster_insert_def split: if_splits)
qed

lemma add_learner_inv:
  assumes env: "env_storage env = S" and inv: "votes_inv P c" and g: "i \<notin> set P" "nodes c i = None" "fresh st"
    and h: "add_learner env now i st c = Some c'"
  shows "votes_inv P c'"
proof -
  obtain n where w: "try_with_storage env now i [] st = Inr n"
    and c': "c' = cluster_insert i (n\<lparr>role := Learner\<rparr>) c"
    using h by (auto simp: add_learner_def new_learner_def dest: with_storageD split: bind_splits)
  have "node_ok n" by (rule new_node_ok [OF env fresh_lg [OF g(3)] w])
  moreover have "node_id n = i" using try_with_storage_spec [OF env w] by simp
  moreover have "leaders_ok P c'"
    unfolding c' by (rule leaders_ok_insert) (use inv g in \<open>auto simp: votes_inv_def\<close>)
  ultimately show ?thesis
    using inv g c'
    by (auto simp: votes_inv_def nodes_ok_def voters_ok_def cluster_insert_def node_ok_def
        durable_vote_def)
qed

lemma insert_nodes_inv:
  assumes env: "env_storage env = S" and "insert_nodes env now P xs c = Some c'"
    and "votes_inv P c" and "distinct (map fst xs)" and "\<forall>(i, st) \<in> set xs. i \<in> set P \<and> fresh st \<and> nodes c i = None"
  shows "votes_inv P c'"
  using assms(2-5)
proof (induction xs arbitrary: c)
  case (Cons x xs)
  obtain i st where x: "x = (i, st)" by (rule prod.exhaust)
  with Cons.prems(1) obtain n where w: "try_with_storage env now i P st = Inr n"
    and rest: "insert_nodes env now P xs (cluster_insert i n c) = Some c'"
    by (auto dest: with_storageD split: bind_splits)
  note spec = try_with_storage_spec [OF env w]
  have i: "i \<in> set P" "fresh st" "nodes c i = None" using Cons.prems(4) x by auto
  have "leaders_ok P (cluster_insert i n c)"
    by (rule leaders_ok_insert) (use Cons.prems(2) i spec in \<open>auto simp: votes_inv_def\<close>)
  moreover have "node_ok n" by (rule new_node_ok [OF env fresh_lg [OF i(2)] w])
  ultimately have "votes_inv P (cluster_insert i n c)"
    using Cons.prems(2) spec i
    by (auto simp: votes_inv_def nodes_ok_def voters_ok_def cluster_insert_def insert_absorb)
  then show ?case
    using Cons.IH [OF rest] Cons.prems(3,4) x by (force simp: cluster_insert_def)
qed simp

lemma on_node_inv:
  assumes "on_node i f c = Some c'" and "votes_inv P c"
    and "\<And>n n'. nodes c i = Some n \<Longrightarrow> f n = Some n' \<Longrightarrow> vote_step n n'"
  shows "votes_inv P c'"
  using assms by (auto simp: on_node_def single_inv split: bind_splits)

lemma recover_step: "vote_step n (fst (snd (recover_node_state env n sm)))"
  by (auto simp: recover_node_state_def vote_step_refl split: sum.splits prod.splits)
    (simp add: vote_step_def vote_le_def vote_mono_def node_ok_def durable_vote_def)

lemma fault_step: "flt (storage n) st \<Longrightarrow> vote_step n (n\<lparr>storage := st\<rparr>)"
  using flt_hs [of "storage n" st] flt_lg [of "storage n" st]
  by (simp add: vote_step_def vote_le_def vote_mono_def role_le_def node_ok_def durable_vote_def)

lemma perform_inv:
  assumes env: "env_storage env = S" and P: "distinct P" and inv: "votes_inv P c"
    and g: "static_voters flt fresh P a c" and h: "perform env a c = Some c'"
  shows "votes_inv P c'"
proof (cases a)
  case (Restart now i peers)
  show ?thesis
  proof (rule on_node_inv [OF h [unfolded Restart perform.simps] inv])
    fix n n' assume "nodes c i = Some n"
      and "(case try_with_storage env now i peers (storage n) of Inl e \<Rightarrow> None | Inr m \<Rightarrow> Some m) = Some n'"
    then show "vote_step n n'"
      using g inv Restart
      by (intro restart_step [OF env]) (auto simp: votes_inv_def voters_ok_def nodes_ok_def split: sum.splits)
  qed
next
  case (DeliverAppend now i args)
  show ?thesis
    by (rule on_node_inv [OF h [unfolded DeliverAppend perform.simps] inv])
      (use g inv DeliverAppend in \<open>auto simp: votes_inv_def nodes_ok_def intro: handle_append_entries_step [OF env]\<close>)
next
  case (ProposeBatch i cs)
  show ?thesis
    by (rule on_node_inv [OF h [unfolded ProposeBatch perform.simps] inv])
      (use g ProposeBatch in \<open>auto intro!: propose_batch_step [OF env]\<close>)
next
  case (DeliverVote now i args)
  show ?thesis
    by (rule on_node_inv [OF h [unfolded DeliverVote perform.simps] inv])
      (auto dest: handle_request_vote_step [OF env])
next
  case (NodeRead now i ctx poll mode)
  show ?thesis
    by (rule on_node_inv [OF h [unfolded NodeRead perform.simps] inv])
      (auto intro: node_linearizable_read_step)
next
  case (StorageFault i st)
  show ?thesis
    by (rule on_node_inv [OF h [unfolded StorageFault perform.simps] inv])
      (use g StorageFault in \<open>auto intro: fault_step\<close>)
next
  case (InstallStateMachine i sm)
  show ?thesis
    by (rule on_node_inv [OF h [unfolded InstallStateMachine perform.simps] inv])
      (auto intro!: quiet_vote_step simp: set_replicated_sm_def quiet_def same_core_def)
next
  case (PruneTimeouts now limit i)
  show ?thesis
    by (rule on_node_inv [OF h [unfolded PruneTimeouts perform.simps] inv])
      (auto intro: pending_step_quiet)
next
  case (RecoverState i sm)
  show ?thesis
    by (rule on_node_inv [OF h [unfolded RecoverState perform.simps] inv]) (auto intro: recover_step)
qed (use h g in \<open>auto intro: broadcast_inv [OF env inv] trigger_election_inv [OF env inv P]
      transfer_inv [OF env inv P] cluster_propose_inv [OF env inv P] add_learner_inv [OF env inv]
      cluster_linearizable_read_inv [OF env inv]\<close>)

lemma run_votes_inv:
  assumes env: "env_storage env = S" and P: "distinct P" and "votes_inv P c0"
    and "run_ops (guarded (static_voters flt fresh P) (perform env)) acts c0 = Some c"
  shows "votes_inv P c"
  using assms(4,3)
  by (rule run_ops_invariant) (auto simp: guarded_def intro: perform_inv [OF env P] split: if_splits)

end

text \<open>
  Memory storage: a fault switches the injection flags, and a learner starts from an empty
  store.
\<close>

definition mem_fault :: "'m memory_raft_storage \<Rightarrow> 'm memory_raft_storage \<Rightarrow> bool" where
  "mem_fault st st' \<longleftrightarrow>
     ms_hard_state st' = ms_hard_state st \<and> ms_progress st' = ms_progress st \<and>
     ms_snapshot_meta st' = ms_snapshot_meta st \<and> ms_log st' = ms_log st"

definition mem_fresh :: "'m memory_raft_storage \<Rightarrow> bool" where
  "mem_fresh st \<longleftrightarrow> st = mem_new"

interpretation mf: faulty_storage mem_ops ms_hard_state ms_progress ms_log mem_healthy mem_fault mem_fresh
  by unfold_locales (auto simp: mem_fault_def mem_fresh_def mem_new_def no_membership_def sentinel_def)

lemma cluster_new_votes_inv:
  assumes "env_storage env = mem_ops" and "distinct P" and "cluster_new env now P = Some c"
  shows "mf.votes_inv P c"
proof -
  have "mf.votes_inv P (empty_cluster :: ('m, 'm memory_raft_storage, 'sm) raft_cluster)"
    by (simp add: mf.votes_inv_def mf.nodes_ok_def leaders_ok_def empty_cluster_def)
  with assms show ?thesis
    unfolding cluster_new_def
    by (intro mf.insert_nodes_inv [OF assms(1) assms(3) [unfolded cluster_new_def]])
      (auto simp: mem_fresh_def empty_cluster_def comp_def)
qed


definition faulty_run :: "(nat, nat memory_raft_storage, nat list) action list" where
  "faulty_run =
     [StorageFault 3 (mem_new\<lparr>fail_before_vote_persist := True\<rparr>),
      Elect 0 1, Restart 0 1 [2, 3], Elect 0 2]"


end
