(* ===== verification/Raft_Logs.thy ===== *)
theory Raft_Logs
  imports Raft_Election "HOL-Library.Sublist"
begin

text \<open>
  What the handlers do to the log of one node while its storage works: the persisted term,
  vote, log and commit index follow the ones in memory, and a follower that accepts the
  entries of a leader ends with the leader's log.
\<close>

section \<open>Steps that keep the log\<close>

definition cand_le :: "raft_role \<Rightarrow> nat \<Rightarrow> raft_role \<Rightarrow> nat \<Rightarrow> bool" where
  "cand_le r t r' t' \<longleftrightarrow> (r' = Candidate \<longrightarrow> t < t' \<or> r = Candidate \<and> t' = t)"

lemma cand_le_refl [simp]: "cand_le r t r t"
  by (simp add: cand_le_def)

lemma cand_le_trans:
  "cand_le r t r' t' \<Longrightarrow> cand_le r' t' r'' t'' \<Longrightarrow> t \<le> t' \<Longrightarrow> t' \<le> t'' \<Longrightarrow> cand_le r t r'' t''"
  by (auto simp: cand_le_def)

definition index_le :: "('m, 'st, 'sm) raft_node \<Rightarrow> ('m, 'st, 'sm) raft_node \<Rightarrow> bool" where
  "index_le n n' \<longleftrightarrow> match_index n' = match_index n \<or> role n' \<noteq> Leader \<and> match_index n' = Map.empty"

lemma vote_le_term: "vote_le n n' \<Longrightarrow> current_term n \<le> current_term n'"
  by (auto simp: vote_le_def vote_mono_def)

lemma vote_le_leader: "vote_le n n' \<Longrightarrow> role n' = Leader \<Longrightarrow> role n = Leader \<and> current_term n' = current_term n"
  by (auto simp: vote_le_def role_le_def)

text \<open>Equal terms at a position mean equal prefixes: the log matching property for two logs.\<close>

definition agree :: "'m raft_log_entry list \<Rightarrow> 'm raft_log_entry list \<Rightarrow> bool" where
  "agree l l' \<longleftrightarrow> (\<forall>a. a < length l \<longrightarrow> a < length l' \<longrightarrow> le_term (l ! a) = le_term (l' ! a) \<longrightarrow>
     take (Suc a) l = take (Suc a) l')"

lemma agree_take: "agree (take k l) l"
  by (auto simp: agree_def min_def)

text \<open>The commit index of a follower that has taken over a log of length \<open>k\<close>.\<close>

definition follower_commit :: "nat \<Rightarrow> nat \<Rightarrow> nat \<Rightarrow> nat" where
  "follower_commit lc k own = (if own < lc then min lc (k - 1) else own)"

lemma length_number_entries [simp]: "length (number_entries t i cs) = length cs"
  by (induction cs arbitrary: i) simp_all

lemma nth_number_entries:
  "k < length cs \<Longrightarrow> number_entries t i cs ! k = \<lparr>le_term = t, le_index = i + k, le_command = cs ! k\<rparr>"
  by (induction cs arbitrary: i k) (auto simp: nth_Cons split: nat.splits)

lemma terms_number_entries: "e \<in> set (number_entries t i cs) \<Longrightarrow> le_term e = t"
  by (induction cs arbitrary: i) auto

lemma indexed_number_entries:
  "indexed l \<Longrightarrow> indexed (l @ number_entries t (length l) cs)"
  by (auto simp: indexed_def nth_append nth_number_entries)

context raft_storage_contract
begin

definition synced :: "('m, 'st, 'sm) raft_node \<Rightarrow> bool" where
  "synced n \<longleftrightarrow>
     healthy (storage n) \<and> lg (storage n) = log n \<and>
     hs (storage n) = \<lparr>hs_current_term = current_term n, hs_voted_for = voted_for n\<rparr> \<and>
     pg_commit_index (pg (storage n)) = commit_index n"

text \<open>A step that leaves the log and the commit index alone.\<close>

definition log_quiet :: "('m, 'st, 'sm) raft_node \<Rightarrow> ('m, 'st, 'sm) raft_node \<Rightarrow> bool" where
  "log_quiet n n' \<longleftrightarrow>
     vote_le n n' \<and> log n' = log n \<and> commit_index n' = commit_index n \<and> synced n' \<and>
     cand_le (role n) (current_term n) (role n') (current_term n') \<and> index_le n n'"

lemma log_quiet_refl: "synced n \<Longrightarrow> log_quiet n n"
  by (simp add: log_quiet_def index_le_def)

lemma log_quiet_trans:
  assumes "log_quiet a b" and "log_quiet b c"
  shows "log_quiet a c"
proof -
  have "vote_le a c" using assms vote_le_trans unfolding log_quiet_def by blast
  moreover have "cand_le (role a) (current_term a) (role c) (current_term c)"
    by (rule cand_le_trans [of _ _ "role b" "current_term b"])
      (use assms vote_le_term in \<open>auto simp: log_quiet_def\<close>)
  moreover have "index_le a c"
    using assms vote_le_leader unfolding log_quiet_def index_le_def by metis
  ultimately show ?thesis using assms unfolding log_quiet_def by simp
qed

text \<open>The step touches none of the fields that matter for consensus, nor the storage.\<close>

lemma same_core_log_quiet:
  assumes "same_core n n'" and "storage n' = storage n" and "synced n"
  shows "log_quiet n n'"
proof -
  have "synced n'" using assms by (simp add: synced_def same_core_def)
  moreover have "cand_le (role n) (current_term n) (role n') (current_term n')"
    using assms(1) by (simp add: same_core_def)
  moreover have "index_le n n'" using assms(1) by (simp add: index_le_def same_core_def)
  ultimately show ?thesis
    using assms(1) same_core_vote_le [OF assms(1)] by (simp add: log_quiet_def same_core_def)
qed

lemma save_hs_healthy:
  assumes "env_storage env = S" and "healthy (storage n)" and "save_hs env t v n = (b, n')"
  obtains st where "b" "n' = n\<lparr>storage := st\<rparr>" "healthy st" "lg st = lg (storage n)"
    "pg st = pg (storage n)" "hs st = \<lparr>hs_current_term = t, hs_voted_for = v\<rparr>"
proof -
  let ?h = "\<lparr>hs_current_term = t, hs_voted_for = v\<rparr>"
  obtain r st where r: "save_hard_state S (storage n) ?h = (r, st)" by (rule prod.exhaust)
  from healthy_save_hs [OF assms(2) r] have ok: "r = Inr ()" "healthy st" "lg st = lg (storage n)"
    "pg st = pg (storage n)" by simp_all
  from save_hs [of "storage n" ?h st] r ok(1) have "hs st = ?h" by simp
  moreover have "b" "n' = n\<lparr>storage := st\<rparr>" using assms(1,3) r ok(1) by (auto simp: save_hs_def)
  ultimately show thesis using ok that by blast
qed

lemma adopt_quiet:
  assumes env: "env_storage env = S" and sy: "synced n" and lt: "current_term n < t"
    and s: "save_hs env t None n = (b, n1)"
  shows "b \<and> log_quiet n (n1\<lparr>current_term := t, role := (if role n1 \<noteq> Learner then Follower else role n1),
                 voted_for := None, leader_id := l, pending := pp\<rparr>)"
proof -
  have "healthy (storage n)" using sy by (simp add: synced_def)
  from save_hs_healthy [OF env this s] obtain st where "b" and n1: "n1 = n\<lparr>storage := st\<rparr>" and
    st: "healthy st" "lg st = lg (storage n)" "pg st = pg (storage n)"
    "hs st = \<lparr>hs_current_term = t, hs_voted_for = None\<rparr>" by blast
  then show ?thesis
    using sy lt
    by (simp add: log_quiet_def synced_def vote_le_def vote_mono_def role_le_def cand_le_def index_le_def)
qed

lemma vote_adopt_quiet:
  assumes "env_storage env = S" and "synced n" and "vote_adopt_term env t n = (b, n')"
  shows "b \<and> log_quiet n n' \<and> t \<le> current_term n' \<and> (current_term n < t \<longrightarrow> current_term n' = t)"
proof (cases "current_term n < t")
  case True
  obtain b1 n1 where s: "save_hs env t None n = (b1, n1)" by (rule prod.exhaust)
  from adopt_quiet [OF assms(1,2) True s] assms(3) True s show ?thesis
    by (auto simp: vote_adopt_term_def)
next
  case False
  with assms(2,3) show ?thesis by (simp add: vote_adopt_term_def log_quiet_refl)
qed

lemma append_adopt_quiet:
  assumes "env_storage env = S" and "synced n" and "append_adopt_term env t n = (b, n')"
  shows "b \<and> log_quiet n n' \<and> t \<le> current_term n' \<and> (current_term n < t \<longrightarrow> current_term n' = t)"
proof (cases "current_term n < t")
  case True
  obtain b1 n1 where s: "save_hs env t None n = (b1, n1)" by (rule prod.exhaust)
  from adopt_quiet [OF assms(1,2) True s, where l = "leader_id n1"] assms(3) True s show ?thesis
    by (auto simp: append_adopt_term_def)
next
  case False
  with assms(2,3) show ?thesis by (simp add: append_adopt_term_def log_quiet_refl)
qed

lemma grant_quiet:
  assumes "env_storage env = S" and "synced n" and "save_hs env (current_term n) (Some k) n = (b, n1)"
    and "voted_for n = None \<or> voted_for n = Some k"
  shows "b \<and> log_quiet n (n1\<lparr>voted_for := Some k, last_heartbeat_received := now\<rparr>)"
proof -
  have "healthy (storage n)" using assms(2) by (simp add: synced_def)
  from save_hs_healthy [OF assms(1) this assms(3)] obtain st where "b" and n1: "n1 = n\<lparr>storage := st\<rparr>" and
    st: "healthy st" "lg st = lg (storage n)" "pg st = pg (storage n)"
    "hs st = \<lparr>hs_current_term = current_term n, hs_voted_for = Some k\<rparr>" by blast
  then show ?thesis
    using assms(2,4)
    by (auto simp: log_quiet_def synced_def vote_le_def vote_mono_def role_le_def cand_le_def index_le_def)
qed

text \<open>A healthy voter also reaches the term of the request.\<close>

lemma handle_request_vote_quiet:
  assumes env: "env_storage env = S" and sy: "synced n"
    and h: "handle_request_vote env now args n = Some (r, n')"
  shows "log_quiet n n' \<and> (role n \<noteq> Learner \<longrightarrow> rv_term args \<le> current_term n')"
proof (cases "is_learner n")
  case True
  with h sy show ?thesis by (auto simp: handle_request_vote_def is_learner_def log_quiet_refl)
next
  case False
  obtain b n1 where a: "vote_adopt_term env (rv_term args) n = (b, n1)" by (rule prod.exhaust)
  note adopt = vote_adopt_quiet [OF env sy a]
  then have sy1: "synced n1" by (simp add: log_quiet_def)
  obtain b2 n2 where g: "save_hs env (current_term n1) (Some (rv_candidate_id args)) n1 = (b2, n2)"
    by (rule prod.exhaust)
  have healthy1: "healthy (storage n1)" using sy1 by (simp add: synced_def)
  have b2: "b2" using save_hs_healthy [OF env healthy1 g] by blast
  show ?thesis
  proof (cases "(voted_for n1 = None \<or> voted_for n1 = Some (rv_candidate_id args)) \<and>
      rv_term args = current_term n1 \<and> log_up_to_date args (last (log n1))")
    case can: True
    from h False a g can adopt b2
    have n': "n' = n2\<lparr>voted_for := Some (rv_candidate_id args), last_heartbeat_received := now\<rparr>"
      by (auto simp: handle_request_vote_def Let_def split: if_splits)
    from grant_quiet [OF env sy1 g] can n' have q: "log_quiet n1 n'" by simp
    then have "current_term n1 \<le> current_term n'" by (simp add: log_quiet_def vote_le_term)
    with q adopt show ?thesis by (auto intro: log_quiet_trans)
  next
    case cannot: False
    with h False a adopt have "n' = n1"
      by (auto simp: handle_request_vote_def Let_def split: if_splits)
    with adopt show ?thesis by simp
  qed
qed

lemma start_candidacy_quiet:
  assumes env: "env_storage env = S" and sy: "synced n" and role: "role n \<noteq> Learner"
    and h: "start_candidacy env i n = (b, n')"
  shows "b \<and> log_quiet n n'"
proof -
  obtain b1 n1 where s: "save_hs env (current_term n + 1) (Some i) n = (b1, n1)" by (rule prod.exhaust)
  have "healthy (storage n)" using sy by (simp add: synced_def)
  from save_hs_healthy [OF env this s] obtain st where "b1" and n1: "n1 = n\<lparr>storage := st\<rparr>" and
    st: "healthy st" "lg st = lg (storage n)" "pg st = pg (storage n)"
    "hs st = \<lparr>hs_current_term = current_term n + 1, hs_voted_for = Some i\<rparr>" by blast
  with h s sy role show ?thesis
    by (auto simp: start_candidacy_def log_quiet_def synced_def vote_le_def vote_mono_def role_le_def
        cand_le_def index_le_def)
qed

lemma restart_quiet:
  assumes env: "env_storage env = S" and sy: "synced n" and h: "try_with_storage env now i peers (storage n) = Inr n'"
    and n: "node_id n = i" "role n \<noteq> Learner" "insert i (set peers) = set (voting_peers n)" "log n \<noteq> []"
  shows "log_quiet n n'"
proof -
  have "healthy (storage n)" using sy by (simp add: synced_def)
  note ld = healthy_load [OF this]
  have "node_id n' = i" "role n' = Follower" "voting_peers n' = List.insert i (remdups peers)"
    "current_term n' = current_term n" "voted_for n' = voted_for n" "log n' = log n"
    "commit_index n' = commit_index n" "match_index n' = Map.empty" "storage n' = storage n"
    using h env ld(1,2) ld(3) [of 0] sy n(4)
    by (auto simp: try_with_storage_def Let_def synced_def)
  then show ?thesis
    using sy n by (auto simp: log_quiet_def synced_def vote_le_def vote_mono_def role_le_def cand_le_def index_le_def)
qed

section \<open>Commitment\<close>

text \<open>The storage follows the node except for the commit index.\<close>

definition presynced :: "('m, 'st, 'sm) raft_node \<Rightarrow> bool" where
  "presynced n \<longleftrightarrow>
     healthy (storage n) \<and> lg (storage n) = log n \<and>
     hs (storage n) = \<lparr>hs_current_term = current_term n, hs_voted_for = voted_for n\<rparr>"

lemma synced_presynced: "synced n \<Longrightarrow> presynced n"
  by (simp add: synced_def presynced_def)

lemma save_pg_sync:
  assumes "env_storage env = S" and "presynced n" and "commit_index n = k"
  shows "same_core n (save_pg env k a n) \<and> synced (save_pg env k a n)"
proof -
  let ?p = "\<lparr>pg_commit_index = k, pg_last_applied = a, pg_snapshot_index = 0, pg_snapshot_term = 0\<rparr>"
  obtain r st where r: "save_progress S (storage n) ?p = (r, st)" by (rule prod.exhaust)
  have "r = Inr ()" "healthy st" "pg st = ?p" "lg st = lg (storage n)"
    using healthy_save_pg [OF _ r] assms(2) by (simp_all add: presynced_def)
  moreover have "hs st = hs (storage n)" using frame_hs(1) [of "storage n" ?p] r by simp
  ultimately show ?thesis
    using assms r by (simp add: save_pg_def synced_def presynced_def same_core_def)
qed

lemma apply_committed_entries_sync:
  assumes env: "env_storage env = S" and "no_membership l" and pre: "presynced n" "commit_index n = k"
    and h: "apply_committed_entries env l k n = Some n'"
  shows "same_core n n' \<and> synced n'"
proof -
  obtain n1 a cs fs where loop: "apply_loop env (topology_epoch n) l k (last_applied n) n [] [] =
      Some (n1, a, cs, fs)"
    using h by (auto simp: apply_committed_entries_def split: option.splits)
  note fr = apply_frame_core [OF apply_loop_frame [OF loop assms(2)]]
  then have "presynced n1" "commit_index n1 = k" using pre by (auto simp: presynced_def same_core_def)
  note sp = save_pg_sync [OF env this, of a]
  from h loop obtain pp where n': "n' = (save_pg env k a n1)\<lparr>pending := pp\<rparr>"
    by (auto simp: apply_committed_entries_def Let_def split: option.splits)
  have "same_core n (save_pg env k a n1)" using fr sp same_core_trans by fastforce
  then show ?thesis using sp n' by (simp add: same_core_def synced_def)
qed

lemma advance_commit_sync:
  assumes env: "env_storage env = S" and "no_membership (log n)" and "presynced n"
    and "commit_index n < k \<or> synced n" and h: "advance_commit env k m n = Some n'"
  shows "same_core (n\<lparr>commit_index := (if commit_index n < k then min k m else commit_index n)\<rparr>) n' \<and> synced n'"
proof (cases "commit_index n < k")
  case True
  let ?n = "n\<lparr>commit_index := min k m\<rparr>"
  have "presynced ?n" using assms(3) by (simp add: presynced_def)
  moreover from True h have "apply_committed_entries env (log n) (min k m) ?n = Some n'"
    by (simp add: advance_commit_def Let_def)
  ultimately show ?thesis
    using apply_committed_entries_sync [OF env assms(2), of ?n "min k m" n'] True by simp
next
  case False
  with assms show ?thesis by (simp add: advance_commit_def same_core_def)
qed

lemma check_quorum_commit_sync:
  assumes env: "env_storage env = S" and "no_membership (log n)" and sy: "synced n"
    and h: "check_quorum_commit env n = Some (b, n')"
  shows "n' = n \<or> role n = Leader \<and>
    (\<exists>k. commit_target n = Some k \<and> same_core (n\<lparr>commit_index := k\<rparr>) n' \<and> synced n')"
proof (cases "n' = n")
  case False
  with h obtain k where L: "role n = Leader" and k: "commit_target n = Some k"
    and ap: "apply_committed_entries env (log n) k
      (save_pg env k (last_applied n) (n\<lparr>commit_index := k\<rparr>)) = Some n'"
    by (auto simp: check_quorum_commit_def is_leader_def split: if_splits option.splits bind_splits)
  let ?n = "n\<lparr>commit_index := k\<rparr>"
  have "presynced ?n" using sy by (simp add: synced_def presynced_def)
  note sp = save_pg_sync [OF env this, of k "last_applied n"]
  then have "presynced (save_pg env k (last_applied n) ?n)" "commit_index (save_pg env k (last_applied n) ?n) = k"
    by (simp_all add: synced_presynced same_core_def)
  from apply_committed_entries_sync [OF env assms(2) this ap] sp have "same_core ?n n' \<and> synced n'"
    using same_core_trans by (simp, blast)
  with L k show ?thesis by blast
qed simp

section \<open>Replication of a leader's log\<close>

lemma append_loop_step:
  assumes "healthy st" and "lg st = l" and "indexed L" and "idx < length L"
    and "idx \<le> length l" and "take idx l = take idx L" and "agree l L"
  shows "\<exists>l1 st1. append_loop S (L ! idx # es) idx l st = append_loop S es (Suc idx) l1 st1 \<and>
    healthy st1 \<and> lg st1 = l1 \<and> pg st1 = pg st \<and> hs st1 = hs st \<and>
    (l1 = l \<and> idx < length l \<or> l1 = take (Suc idx) L) \<and> take (Suc idx) l1 = take (Suc idx) L"
proof -
  let ?e = "L ! idx"
  have e: "le_index ?e = idx" using assms(3,4) by (simp add: indexed_def)
  have next_eq: "take idx l @ [?e] = take (Suc idx) L"
    using assms(4,6) by (simp add: take_Suc_conv_app_nth)
  consider (keep) "idx < length l" "le_term (l ! idx) = le_term ?e"
    | (conflict) "idx < length l" "le_term (l ! idx) \<noteq> le_term ?e"
    | (extend) "idx = length l" using assms(5) by linarith
  then show ?thesis
  proof cases
    case keep
    then have "take (Suc idx) l = take (Suc idx) L" using assms(4,7) by (simp add: agree_def)
    with keep assms(1,2) show ?thesis by (intro exI [of _ l] exI [of _ st]) simp
  next
    case conflict
    obtain r1 st1 where t: "truncate_suffix S st idx = (r1, st1)" by (rule prod.exhaust)
    with healthy_truncate [OF assms(1) t] assms(2) frame_hs(3) [of st idx]
    have st1: "r1 = Inr ()" "healthy st1" "lg st1 = take idx l" "pg st1 = pg st" "hs st1 = hs st"
      by simp_all
    obtain r2 st2 where a: "append_entries S st1 [?e] = (r2, st2)" by (rule prod.exhaust)
    have "put_entries (take idx l) [?e] = take idx l @ [?e]"
      using conflict(1) e by (simp add: put_entries_def put_entry_def)
    with healthy_append [OF st1(2) a] st1 frame_hs(2) [of st1 "[?e]"] a next_eq
    have "r2 = Inr ()" "healthy st2" "lg st2 = take (Suc idx) L" "pg st2 = pg st" "hs st2 = hs st"
      by simp_all
    then show ?thesis
      using conflict t st1(1) a next_eq by (intro exI [of _ "take (Suc idx) L"] exI [of _ st2]) simp
  next
    case extend
    obtain r2 st2 where a: "append_entries S st [?e] = (r2, st2)" by (rule prod.exhaust)
    have "put_entries l [?e] = l @ [?e]" using extend e by (simp add: put_entries_def put_entry_def)
    with healthy_append [OF assms(1) a] assms(2) frame_hs(2) [of st "[?e]"] a next_eq extend
    have "r2 = Inr ()" "healthy st2" "lg st2 = take (Suc idx) L" "pg st2 = pg st" "hs st2 = hs st"
      by simp_all
    then show ?thesis
      using extend a next_eq by (intro exI [of _ "take (Suc idx) L"] exI [of _ st2]) simp
  qed
qed

lemma append_loop_leader:
  assumes "indexed L" and "idx \<le> length L" and "healthy st" and "lg st = l"
    and "idx \<le> length l" and "take idx l = take idx L" and "agree l L"
  shows "\<exists>l' st'. append_loop S (drop idx L) idx l st = (True, l', st') \<and>
    healthy st' \<and> lg st' = l' \<and> pg st' = pg st \<and> hs st' = hs st \<and> (l' = L \<or> l' = l \<and> prefix L l)"
  using assms(2-)
proof (induction "length L - idx" arbitrary: idx l st)
  case 0
  then have "drop idx L = []" "idx = length L" by simp_all
  with 0 have "prefix L l" by (metis take_all order_refl take_is_prefix)
  with 0 \<open>drop idx L = []\<close> show ?case by simp
next
  case (Suc x)
  then have lt: "idx < length L" by simp
  from append_loop_step [OF Suc.prems(2,3) assms(1) lt Suc.prems(4-6), of "drop (Suc idx) L"]
  obtain l1 st1 where step: "append_loop S (drop idx L) idx l st = append_loop S (drop (Suc idx) L) (Suc idx) l1 st1"
    and st1: "healthy st1" "lg st1 = l1" "pg st1 = pg st" "hs st1 = hs st"
    and l1: "l1 = l \<and> idx < length l \<or> l1 = take (Suc idx) L" "take (Suc idx) l1 = take (Suc idx) L"
    using lt by (auto simp: Cons_nth_drop_Suc)
  have "Suc idx \<le> length l1" "agree l1 L"
    using l1(1) lt Suc.prems(6) agree_take by (auto simp: min_def)
  moreover have "x = length L - Suc idx" "Suc idx \<le> length L" using Suc.hyps(2) lt by simp_all
  ultimately obtain l' st' where "append_loop S (drop (Suc idx) L) (Suc idx) l1 st1 = (True, l', st')"
    and st': "healthy st'" "lg st' = l'" "pg st' = pg st1" "hs st' = hs st1"
    and l': "l' = L \<or> l' = l1 \<and> prefix L l1"
    using Suc.hyps(1) [of "Suc idx" st1 l1] st1(1,2) l1(2) by blast
  moreover have "l' = L \<or> l' = l \<and> prefix L l"
    using l' l1(1) by (metis prefix_order.antisym take_is_prefix)
  ultimately show ?case using step st1 by simp
qed

lemma append_accepted_leader:
  assumes env: "env_storage env = S" and sy: "synced n" and nm: "no_membership (log n)" "no_membership L"
    and L: "indexed L" "L \<noteq> []" and nx: "0 < nx" and ag: "agree (log n) L"
    and cov: "prefix L (log n) \<Longrightarrow> log n = L"
    and h: "append_accepted env (append_args t lid lc L nx) n = Some (r, n')"
  shows "if aer_success r
    then aer_match_index r = length L - 1 \<and> synced n' \<and>
      same_core (n\<lparr>log := L, commit_index := follower_commit lc (length L) (commit_index n)\<rparr>) n'
    else n' = n"
proof (cases "prev_matches (append_args t lid lc L nx) (log n)")
  case False
  with h show ?thesis
    by (auto simp: append_accepted_def append_reply_def Let_def split: if_splits)
next
  case True
  let ?a = "append_args t lid lc L nx"
  let ?prev = "ae_prev_log_index ?a"
  have prev: "?prev < length (log n)" "?prev < length L" "le_term (log n ! ?prev) = le_term (L ! ?prev)"
    using True L(2) by (auto simp: prev_matches_def append_args_def Let_def min_less_iff_disj)
  then have tk: "take (Suc ?prev) (log n) = take (Suc ?prev) L" using ag by (simp add: agree_def)
  show ?thesis
  proof (cases "nx < length L")
    case True
    then have p: "Suc ?prev = nx" and es: "ae_entries ?a = drop nx L"
      using nx by (auto simp: append_args_def Let_def)
    have st: "healthy (storage n)" "lg (storage n) = log n" using sy by (simp_all add: synced_def)
    from append_loop_leader [OF L(1) _ st _ _ ag, of nx] True p prev(1) tk
    obtain l' st' where loop: "append_loop S (drop nx L) nx (log n) (storage n) = (True, l', st')"
      and st': "healthy st'" "lg st' = l'" "pg st' = pg (storage n)" "hs st' = hs (storage n)"
      and l': "l' = L \<or> l' = log n \<and> prefix L (log n)" by auto
    from l' cov have "l' = L" by auto
    let ?n3 = "n\<lparr>log := L, storage := st'\<rparr>"
    have sy3: "synced ?n3" using sy st' \<open>l' = L\<close> by (simp add: synced_def)
    from h loop p es env True \<open>prev_matches ?a (log n)\<close> \<open>l' = L\<close>
    have r: "aer_success r" "aer_match_index r = length L - 1"
      and adv: "advance_commit env lc (length L - 1) ?n3 = Some n'"
      by (auto simp: append_accepted_def append_args_def append_reply_def Let_def bind_eq_Some_conv)
    from advance_commit_sync [OF env _ synced_presynced [OF sy3] _ adv] sy3 nm(2) r
    show ?thesis by (simp add: follower_commit_def same_core_def)
  next
    case False
    then have "Suc ?prev = length L" and es: "ae_entries ?a = []" "ae_is_heartbeat ?a"
      using L(2) by (auto simp: append_args_def Let_def)
    with tk have "prefix L (log n)" by (metis order_refl take_all take_is_prefix)
    then have eq: "log n = L" by (rule cov)
    from h es True eq have r: "aer_success r" "aer_match_index r = length L - 1"
      and adv: "advance_commit env lc (length L - 1) n = Some n'"
      by (auto simp: append_accepted_def append_args_def append_reply_def Let_def bind_eq_Some_conv)
    from advance_commit_sync [OF env nm(1) synced_presynced [OF sy] _ adv] sy r eq
    show ?thesis by (simp add: follower_commit_def same_core_def)
  qed
qed

lemma follow_quiet: "synced n \<Longrightarrow> log_quiet n (follow l now n)"
  by (simp add: follow_def log_quiet_def synced_def vote_le_def vote_mono_def role_le_def cand_le_def
      index_le_def)

lemma handle_append_leader:
  assumes env: "env_storage env = S" and sy: "synced n" and nm: "no_membership (log n)" "no_membership L"
    and L: "indexed L" "L \<noteq> []" and nx: "0 < nx" and ag: "agree (log n) L"
    and cov: "current_term n \<le> t \<Longrightarrow> prefix L (log n) \<Longrightarrow> log n = L"
    and h: "handle_append_entries env now (append_args t lid lc L nx) n = Some (r, n')"
  shows "if aer_success r
    then aer_match_index r = length L - 1 \<and> synced n' \<and>
      (\<exists>n2. log_quiet n n2 \<and> current_term n2 = t \<and> (role n2 = Follower \<or> role n2 = Learner) \<and>
        same_core (n2\<lparr>log := L, commit_index := follower_commit lc (length L) (commit_index n)\<rparr>) n')
    else log_quiet n n'"
proof -
  let ?a = "append_args t lid lc L nx"
  have t: "ae_term ?a = t" "ae_leader_id ?a = lid" by (simp_all add: append_args_def Let_def)
  obtain b n1 where a: "append_adopt_term env t n = (b, n1)" by (rule prod.exhaust)
  note adopt = append_adopt_quiet [OF env sy a]
  show ?thesis
  proof (cases "t < current_term n1")
    case True
    with h a t adopt have "n' = n1" "\<not> aer_success r"
      by (auto simp: handle_append_entries_def append_reply_def)
    with adopt show ?thesis by simp
  next
    case False
    let ?n2 = "follow lid now n1"
    from False h a t adopt have acc: "append_accepted env ?a ?n2 = Some (r, n')"
      by (auto simp: handle_append_entries_def)
    have q: "log_quiet n ?n2"
      using adopt follow_quiet [of n1] log_quiet_trans [of n n1] by (auto simp: log_quiet_def)
    then have n2: "synced ?n2" "log ?n2 = log n" "commit_index ?n2 = commit_index n"
      by (simp_all add: log_quiet_def)
    have t2: "current_term ?n2 = t" "role ?n2 = Follower \<or> role ?n2 = Learner"
      using False adopt by (auto simp: follow_def)
    then have "current_term n \<le> t" using q vote_le_term unfolding log_quiet_def by metis
    with append_accepted_leader [OF env n2(1) _ nm(2) L nx _ _ acc] nm(1) ag cov n2
    have "if aer_success r then aer_match_index r = length L - 1 \<and> synced n' \<and>
        same_core (?n2\<lparr>log := L, commit_index := follower_commit lc (length L) (commit_index n)\<rparr>) n'
      else n' = ?n2" by (auto split: if_splits)
    with q t2 show ?thesis by (auto split: if_splits)
  qed
qed

section \<open>Proposals\<close>

lemma propose_batch_healthy:
  assumes env: "env_storage env = S" and sy: "synced n" and ix: "indexed (log n)" and L: "role n = Leader"
    and h: "propose_batch env cs n = Some (r, n')"
  shows "cs \<noteq> [] \<and> synced n' \<and>
    same_core (n\<lparr>log := log n @ number_entries (current_term n) (length (log n)) cs,
      match_index := (match_index n)(node_id n \<mapsto> length (log n) + length cs - 1)\<rparr>) n' \<and>
    r = Inr (map le_index (number_entries (current_term n) (length (log n)) cs))"
proof -
  define es where "es = number_entries (current_term n) (length (log n)) cs"
  obtain q st where a: "append_entries S (storage n) es = (q, st)" by (rule prod.exhaust)
  have "healthy (storage n)" "lg (storage n) = log n" using sy by (simp_all add: synced_def)
  with healthy_append [OF _ a] put_entries_next [OF indexed_number_entries [OF ix]]
    frame_hs(2) [of "storage n" es] a
  have st: "q = Inr ()" "healthy st" "lg st = log n @ es" "pg st = pg (storage n)" "hs st = hs (storage n)"
    by (simp_all add: es_def)
  have ne: "cs \<noteq> []"
    using h L a st(1) env by (auto simp: propose_batch_def is_leader_def Let_def es_def)
  then have "es \<noteq> []" by (metis es_def length_0_conv length_number_entries)
  then have last: "last (map le_index es) = length (log n) + length cs - 1"
    using ne length_greater_0_conv [of cs]
    by (simp add: es_def last_map last_conv_nth nth_number_entries del: length_greater_0_conv)
  obtain pt d where "n' = n\<lparr>pipeline_telemetry := pt, durability := d, storage := st,
      log := log n @ es, match_index := (match_index n)(node_id n \<mapsto> last (map le_index es))\<rparr>"
    and r: "r = Inr (map le_index es)"
    using h L a st(1) env \<open>es \<noteq> []\<close>
    by (auto simp: propose_batch_def is_leader_def Let_def es_def)
  then show ?thesis using ne st sy last r by (simp add: es_def synced_def same_core_def)
qed

lemma propose_healthy:
  assumes env: "env_storage env = S" and sy: "synced n" and ix: "indexed (log n)" and L: "role n = Leader"
    and h: "propose env cmd n = Some (r, n')"
  shows "synced n' \<and>
    same_core (n\<lparr>log := log n @ [\<lparr>le_term = current_term n, le_index = length (log n), le_command = cmd\<rparr>],
      match_index := (match_index n)(node_id n \<mapsto> length (log n))\<rparr>) n' \<and> r = Inr (length (log n))"
proof -
  from h obtain q where p: "propose_batch env [cmd] n = Some (q, n')"
    and r: "\<And>i. q = Inr [i] \<Longrightarrow> r = Inr i"
    by (auto simp: propose_def split: option.splits sum.splits list.splits)
  from propose_batch_healthy [OF env sy ix L p] r show ?thesis by simp
qed

lemma propose_data_mutation_healthy:
  assumes env: "env_storage env = S" and sy: "synced n" and ix: "indexed (log n)" and L: "role n = Leader"
    and h: "propose_data_mutation env now m n = Some (r, n')"
  shows "synced n' \<and>
    same_core (n\<lparr>log := log n @ [\<lparr>le_term = current_term n, le_index = length (log n), le_command = Data m\<rparr>],
      match_index := (match_index n)(node_id n \<mapsto> length (log n))\<rparr>) n'"
proof -
  from h L obtain q n1 where p: "propose env (Data m) n = Some (q, n1)"
    and n': "n' = n1 \<or> (\<exists>pp. n' = n1\<lparr>pending := pp\<rparr>)"
    by (auto simp: propose_data_mutation_def is_leader_def split: option.splits sum.splits prod.splits)
  from propose_healthy [OF env sy ix L p] n' show ?thesis
    by (auto simp: synced_def same_core_def)
qed

end

end
