(* ===== verification/Log_Family.thy ===== *)
theory Log_Family
  imports Raft_Logs
begin

text \<open>
  Families of logs, one per node: when they match, which prefixes are safe, and how both
  survive the two ways a log grows, by a leader appending to its own log and by a follower
  taking over a leader's. No messages and no storage occur here; the cluster theory
  instantiates the lemmas with the logs of its nodes.
\<close>

type_synonym 'm logs = "nat \<rightharpoonup> 'm raft_log_entry list"

definition wf_log :: "'m raft_log_entry list \<Rightarrow> bool" where
  "wf_log l \<longleftrightarrow> l \<noteq> [] \<and> l ! 0 = sentinel \<and> indexed l \<and> sorted (map le_term l)"

definition wf_logs :: "'m logs \<Rightarrow> bool" where
  "wf_logs f \<longleftrightarrow> (\<forall>i l. f i = Some l \<longrightarrow> wf_log l)"

abbreviation last_term :: "'m raft_log_entry list \<Rightarrow> nat" where
  "last_term l \<equiv> le_term (last l)"

lemma wf_log_term_le: "wf_log l \<Longrightarrow> a \<le> b \<Longrightarrow> b < length l \<Longrightarrow> le_term (l ! a) \<le> le_term (l ! b)"
  using sorted_nth_mono [of "map le_term l" a b] by (simp add: wf_log_def)

lemma wf_log_term_last: "wf_log l \<Longrightarrow> a < length l \<Longrightarrow> le_term (l ! a) \<le> last_term l"
  using wf_log_term_le [of l a "length l - 1"] by (auto simp: last_conv_nth wf_log_def)

lemma wf_log_last_index: "wf_log l \<Longrightarrow> le_index (last l) = length l - 1"
  by (simp add: wf_log_def indexed_def last_conv_nth)

lemma wf_log_snoc:
  assumes "wf_log l" and "\<And>e. e \<in> set es \<Longrightarrow> le_term e = t" and "last_term l \<le> t" and "indexed (l @ es)"
  shows "wf_log (l @ es)"
proof -
  have "sorted (map le_term es)"
    using assms(2) by (simp add: sorted_wrt_map sorted_wrt_iff_nth_less)
  moreover have "\<forall>x \<in> set l. \<forall>y \<in> set es. le_term x \<le> le_term y"
    using assms wf_log_term_last [OF assms(1)] by (metis in_set_conv_nth le_trans)
  ultimately show ?thesis
    using assms(1,4) by (auto simp: wf_log_def sorted_append nth_append)
qed

lemma prefix_take_iff: "k \<le> length w \<Longrightarrow> prefix w l \<Longrightarrow> prefix (take k w) l"
  using take_is_prefix prefix_order.trans by blast

lemma prefix_nth: "prefix w l \<Longrightarrow> a < length w \<Longrightarrow> l ! a = w ! a"
  by (auto simp: prefix_def nth_append)

lemma prefix_last_nth: "prefix w l \<Longrightarrow> w \<noteq> [] \<Longrightarrow> last w = l ! (length w - 1) \<and> length w - 1 < length l"
  using prefix_nth [of w l "length w - 1"] prefix_length_le [of w l] by (cases w) (auto simp: last_conv_nth)

lemma prefix_eq_take: "prefix w l \<Longrightarrow> w = take (length w) l"
  by (auto simp: prefix_def)

section \<open>Log matching\<close>

text \<open>
  An entry of a term that two logs share fixes everything before it. The entry of the
  longer log may even sit further back.
\<close>

definition matching :: "'m logs \<Rightarrow> bool" where
  "matching f \<longleftrightarrow>
     (\<forall>i j m n a b. f i = Some m \<longrightarrow> f j = Some n \<longrightarrow> a \<le> b \<longrightarrow> a < length m \<longrightarrow> b < length n \<longrightarrow>
        le_term (m ! a) = le_term (n ! b) \<longrightarrow> prefix (take (Suc a) m) n)"

lemma matchingD:
  "matching f \<Longrightarrow> f i = Some m \<Longrightarrow> f j = Some n \<Longrightarrow> a \<le> b \<Longrightarrow> a < length m \<Longrightarrow> b < length n \<Longrightarrow>
     le_term (m ! a) = le_term (n ! b) \<Longrightarrow> prefix (take (Suc a) m) n"
  unfolding matching_def by blast

lemma matching_agree:
  assumes "matching f" and "f i = Some m" and "f j = Some n"
  shows "agree m n"
  unfolding agree_def
proof (intro allI impI)
  fix a assume a: "a < length m" "a < length n" "le_term (m ! a) = le_term (n ! a)"
  from matchingD [OF assms order_refl a] show "take (Suc a) m = take (Suc a) n"
    using a by (simp add: prefix_def) (metis Suc_leI append_eq_conv_conj length_take min.absorb2)
qed

text \<open>\<open>l\<close> contains every entry of term \<open>t\<close>, and no log is beyond term \<open>t\<close>.\<close>

definition owns :: "'m logs \<Rightarrow> nat \<Rightarrow> 'm raft_log_entry list \<Rightarrow> bool" where
  "owns f t l \<longleftrightarrow>
     (\<forall>j m a. f j = Some m \<longrightarrow> a < length m \<longrightarrow> le_term (m ! a) = t \<longrightarrow> prefix (take (Suc a) m) l)"

definition tops :: "'m logs \<Rightarrow> nat \<Rightarrow> bool" where
  "tops f t \<longleftrightarrow> (\<forall>j m. f j = Some m \<longrightarrow> last_term m \<le> t)"

lemma ownsD: "owns f t l \<Longrightarrow> f j = Some m \<Longrightarrow> a < length m \<Longrightarrow> le_term (m ! a) = t \<Longrightarrow> prefix (take (Suc a) m) l"
  unfolding owns_def by blast

lemma matching_extend:
  assumes mt: "matching f" and l: "f i = Some l" and own: "owns f t l"
    and es: "\<And>e. e \<in> set es \<Longrightarrow> le_term e = t"
  shows "matching (f(i \<mapsto> l @ es))"
  unfolding matching_def
proof (intro allI impI)
  fix j k m n a b
  assume m: "(f(i \<mapsto> l @ es)) j = Some m" and n: "(f(i \<mapsto> l @ es)) k = Some n"
    and ab: "a \<le> b" "a < length m" "b < length n" "le_term (m ! a) = le_term (n ! b)"
  have new: "le_term ((l @ es) ! x) = t" if "length l \<le> x" "x < length (l @ es)" for x
    using that es by (simp add: nth_append)
  consider "j = i" "k = i" | "j = i" "k \<noteq> i" | "j \<noteq> i" "k = i" | "j \<noteq> i" "k \<noteq> i" by blast
  then show "prefix (take (Suc a) m) n"
  proof cases
    case 1
    with m n show ?thesis by (simp add: take_is_prefix)
  next
    case 2
    then have ms: "m = l @ es" and ns: "f k = Some n" using m n by auto
    show ?thesis
    proof (cases "a < length l")
      case True
      with matchingD [OF mt l ns ab(1) True ab(3)] ab(4) ms show ?thesis by (simp add: nth_append)
    next
      case False
      then have "le_term (n ! b) = t" using new ab ms by simp
      from prefix_length_le [OF ownsD [OF own ns ab(3) this]] ab False show ?thesis by simp
    qed
  next
    case 3
    then have ms: "f j = Some m" and ns: "n = l @ es" using m n by auto
    show ?thesis
    proof (cases "b < length l")
      case True
      with matchingD [OF mt ms l ab(1,2) True] ab(4) ns have "prefix (take (Suc a) m) l"
        by (simp add: nth_append)
      with ns show ?thesis by simp
    next
      case False
      then have "le_term (m ! a) = t" using new ab ns by simp
      from ownsD [OF own ms ab(2) this] ns show ?thesis by simp
    qed
  next
    case 4
    with m n matchingD [OF mt _ _ ab] show ?thesis by simp
  qed
qed

lemma matching_copy: "matching f \<Longrightarrow> f j = Some l \<Longrightarrow> matching (f(i \<mapsto> l))"
  unfolding matching_def by (metis (no_types, opaque_lifting) fun_upd_apply)

lemma owns_copy: "owns f t l \<Longrightarrow> f j = Some l' \<Longrightarrow> owns (f(i \<mapsto> l')) t l"
  unfolding owns_def by (metis (no_types, opaque_lifting) fun_upd_apply)

lemma tops_copy: "tops f t \<Longrightarrow> f j = Some l' \<Longrightarrow> tops (f(i \<mapsto> l')) t"
  unfolding tops_def by (metis (no_types, opaque_lifting) fun_upd_apply)

lemma owns_extend:
  assumes "owns f t l"
  shows "owns (f(i \<mapsto> l @ es)) t (l @ es)"
  using assms by (auto simp: owns_def take_is_prefix simp del: take_append)

lemma tops_extend:
  "tops f t \<Longrightarrow> last_term l \<le> t \<Longrightarrow> (\<And>e. e \<in> set es \<Longrightarrow> le_term e = t) \<Longrightarrow> tops (f(i \<mapsto> l @ es)) t"
  by (auto simp: tops_def last_append)

text \<open>A log that extends a leader's log, without entries of a later term, is the leader's.\<close>

lemma owns_cover:
  assumes "owns f t l" and "f j = Some m" and "wf_log m" and "wf_log l"
    and "last_term l = t" and "last_term m \<le> t" and "prefix l m"
  shows "m = l"
proof -
  have "last_term m = t"
  proof (rule antisym [OF assms(6)])
    have "last l = m ! (length l - 1)" "length l - 1 < length m"
      using prefix_last_nth [OF assms(7)] assms(4) by (auto simp: wf_log_def)
    with wf_log_term_last [OF assms(3)] assms(5) show "t \<le> last_term m" by metis
  qed
  then have "le_term (m ! (length m - 1)) = t" using assms(3) by (simp add: wf_log_def last_conv_nth)
  with ownsD [OF assms(1,2), of "length m - 1"] assms(3) have "prefix m l"
    by (auto simp: wf_log_def)
  with assms(7) show ?thesis by (simp add: prefix_order.antisym)
qed

section \<open>Safe prefixes\<close>

text \<open>
  A prefix that a majority stores and that every log with a later last term contains.
\<close>

definition stored :: "nat list \<Rightarrow> 'm logs \<Rightarrow> 'm raft_log_entry list \<Rightarrow> bool" where
  "stored P f w \<longleftrightarrow> (\<exists>Q. majority P Q \<and> (\<forall>x \<in> Q. \<exists>m. f x = Some m \<and> prefix w m))"

definition safe :: "nat list \<Rightarrow> 'm logs \<Rightarrow> 'm raft_log_entry list \<Rightarrow> bool" where
  "safe P f w \<longleftrightarrow> w \<noteq> [] \<and> stored P f w \<and>
     (\<forall>i m. f i = Some m \<longrightarrow> last_term w < last_term m \<longrightarrow> prefix w m)"

definition committed :: "nat list \<Rightarrow> 'm logs \<Rightarrow> 'm raft_log_entry list \<Rightarrow> bool" where
  "committed P f u \<longleftrightarrow> (\<exists>w. safe P f w \<and> prefix u w)"

lemma storedE:
  assumes "stored P f w" and "majority P R"
  obtains x m where "x \<in> R" "f x = Some m" "prefix w m"
proof -
  obtain Q where Q: "majority P Q" "\<forall>x \<in> Q. \<exists>m. f x = Some m \<and> prefix w m"
    using assms(1) by (auto simp: stored_def)
  from maj.quorum_meet [OF assms(2) Q(1)] Q(2) that show thesis by blast
qed

lemma stored_upd:
  assumes "stored P f w" and "\<And>l. f i = Some l \<Longrightarrow> prefix w l \<Longrightarrow> prefix w l'"
  shows "stored P (f(i \<mapsto> l')) w"
proof -
  obtain Q where Q: "majority P Q" "\<forall>x \<in> Q. \<exists>m. f x = Some m \<and> prefix w m"
    using assms(1) by (auto simp: stored_def)
  have "\<exists>m. (f(i \<mapsto> l')) x = Some m \<and> prefix w m" if "x \<in> Q" for x
    using Q(2) that assms(2) by (cases "x = i") auto
  with Q(1) show ?thesis unfolding stored_def by blast
qed

lemma safe_upd:
  assumes "safe P f w" and "\<And>l. f i = Some l \<Longrightarrow> prefix w l \<Longrightarrow> prefix w l'"
    and "last_term w < last_term l' \<Longrightarrow> prefix w l'"
  shows "safe P (f(i \<mapsto> l')) w"
  using assms stored_upd [OF _ assms(2), of P] unfolding safe_def by auto

text \<open>Leader completeness: the log of a leader contains every safe prefix.\<close>

lemma safe_leader:
  assumes sf: "safe P f w" and wf: "wf_logs f" and l: "f j = Some l"
    and own: "owns f t l" and top: "tops f t" and lt: "last_term l = t"
  shows "prefix w l"
proof -
  have "w \<noteq> []" and st: "stored P f w" using sf by (auto simp: safe_def)
  obtain Q where "majority P Q" using st by (auto simp: stored_def)
  with storedE [OF st] obtain x m where m: "f x = Some m" "prefix w m" by blast
  have wm: "wf_log m" using wf m(1) by (simp add: wf_logs_def)
  let ?a = "length w - 1"
  have w: "last w = m ! ?a" "?a < length m" using prefix_last_nth [OF m(2) \<open>w \<noteq> []\<close>] by auto
  have "last_term w \<le> t"
    using wf_log_term_last [OF wm w(2)] w(1) top m(1) by (force simp: tops_def)
  show ?thesis
  proof (cases "last_term w = t")
    case True
    with w ownsD [OF own m(1) w(2)] have "prefix (take (Suc ?a) m) l" by simp
    moreover have "take (Suc ?a) m = w"
      using prefix_eq_take [OF m(2)] \<open>w \<noteq> []\<close> by (simp add: Suc_diff_1)
    ultimately show ?thesis by simp
  next
    case False
    with \<open>last_term w \<le> t\<close> sf l lt show ?thesis by (auto simp: safe_def)
  qed
qed

text \<open>The rule by which votes are granted, on whole logs.\<close>

definition up_to_date :: "'m raft_log_entry list \<Rightarrow> 'm raft_log_entry list \<Rightarrow> bool" where
  "up_to_date l m \<longleftrightarrow>
     last_term m < last_term l \<or> last_term l = last_term m \<and> le_index (last m) \<le> le_index (last l)"

text \<open>A candidate that a majority finds up to date has every safe prefix.\<close>

lemma safe_candidate:
  assumes sf: "safe P f w" and wf: "wf_logs f" and mt: "matching f" and l: "f i = Some l"
    and maj: "majority P R" and up: "\<And>x. x \<in> R \<Longrightarrow> \<exists>m. f x = Some m \<and> up_to_date l m"
  shows "prefix w l"
proof -
  have "w \<noteq> []" and st: "stored P f w" using sf by (auto simp: safe_def)
  from storedE [OF st maj] obtain x m where x: "x \<in> R" "f x = Some m" "prefix w m" by blast
  with up have u: "up_to_date l m" by force
  have wm: "wf_log m" and wl: "wf_log l" using wf x(2) l by (auto simp: wf_logs_def)
  have w: "last w = m ! (length w - 1)" "length w - 1 < length m"
    using prefix_last_nth [OF x(3) \<open>w \<noteq> []\<close>] by auto
  then have le: "last_term w \<le> last_term m" using wf_log_term_last [OF wm w(2)] by simp
  show ?thesis
  proof (cases "last_term w < last_term l")
    case True
    with sf l show ?thesis by (auto simp: safe_def)
  next
    case False
    with u le have eq: "last_term l = last_term m" "length m \<le> length l"
      using wm wl wf_log_last_index [OF wm] wf_log_last_index [OF wl]
      by (auto simp: up_to_date_def wf_log_def Suc_le_eq le_diff_conv2 simp flip: length_greater_0_conv)
    have "prefix (take (Suc (length m - 1)) m) l"
      using wm wl eq by (intro matchingD [OF mt x(2) l, of _ "length l - 1"])
        (auto simp: wf_log_def last_conv_nth)
    then have "prefix m l" using wm by (simp add: wf_log_def)
    with x(3) show ?thesis by (rule prefix_order.trans)
  qed
qed

lemma safe_new: "w \<noteq> [] \<Longrightarrow> stored P f w \<Longrightarrow> tops f t \<Longrightarrow> last_term w = t \<Longrightarrow> safe P f w"
  unfolding safe_def tops_def by (metis not_less)

lemma committed_leader:
  assumes "committed P f u" and "wf_logs f" and "f j = Some l" and "owns f t l" and "tops f t"
    and "last_term l = t"
  shows "prefix u l"
  using assms(1) safe_leader [OF _ assms(2-)] unfolding committed_def by (blast intro: prefix_order.trans)

lemma committed_prefix: "committed P f u \<Longrightarrow> prefix v u \<Longrightarrow> committed P f v"
  unfolding committed_def by (blast intro: prefix_order.trans)

text \<open>Any two committed prefixes are prefixes of one another.\<close>

lemma committed_agree:
  assumes "committed P f u" and "committed P f v"
  shows "prefix u v \<or> prefix v u"
proof -
  obtain w z where w: "safe P f w" "prefix u w" and z: "safe P f z" "prefix v z"
    using assms by (auto simp: committed_def)
  obtain Q where Q: "majority P Q" "\<forall>x \<in> Q. \<exists>m. f x = Some m \<and> prefix w m"
    using w(1) by (auto simp: safe_def stored_def)
  have "stored P f z" using z(1) by (simp add: safe_def)
  from storedE [OF this Q(1)] obtain x m where x: "x \<in> Q" "f x = Some m" "prefix z m" by blast
  with Q(2) have "prefix w m" by force
  with x w z have "prefix u m" "prefix v m" by (blast intro: prefix_order.trans)+
  then show ?thesis by (rule prefix_same_cases)
qed

end
