(* ===== verification/Raft_Replication.thy ===== *)
theory Raft_Replication
  imports Log_Family
begin

text \<open>
  The invariant behind log safety and the moves that keep it. \<open>log_move\<close> lists what one
  update of one node can be: a step that leaves its log alone, a candidate that wins, a
  leader that appends, a follower that takes over the leader's log, the leader noting a
  reply, and the leader committing. \<open>logs_inv\<close> holds after each of them.
\<close>

lemma prefix_full: "prefix v u \<Longrightarrow> length u \<le> length v \<Longrightarrow> prefix u v"
  by (auto simp: prefix_def)

section \<open>Elected terms\<close>

definition node_logs :: "('m, 'st, 'sm) raft_cluster \<Rightarrow> 'm logs" where
  "node_logs c i = map_option log (nodes c i)"

lemma node_logs_put: "node_logs (put i n c) = (node_logs c)(i \<mapsto> log n)"
  by (auto simp: node_logs_def)

lemma node_logs_same: "nodes c i = Some n \<Longrightarrow> log n' = log n \<Longrightarrow> node_logs (put i n' c) = node_logs c"
  by (auto simp: node_logs_def)

lemma node_logsI: "nodes c i = Some n \<Longrightarrow> node_logs c i = Some (log n)"
  by (simp add: node_logs_def)

text \<open>
  \<open>l\<close> has won the election of term \<open>t\<close>: a majority backs it, and it is no longer a
  candidate of that term.
\<close>

definition elected :: "nat list \<Rightarrow> ('m, 'st, 'sm) raft_cluster \<Rightarrow> nat \<Rightarrow> nat \<Rightarrow> bool" where
  "elected P c l t \<longleftrightarrow> backed P c l t \<and>
     (\<exists>m. nodes c l = Some m \<and> (t < current_term m \<or> current_term m = t \<and> role m \<noteq> Candidate))"

lemma backed_mono:
  assumes "backed P c l t" and "nodes c i = Some n"
    and "vote_mono (current_term n) (voted_for n) (current_term n') (voted_for n')"
  shows "backed P (put i n' c) l t"
proof -
  obtain Q where Q: "majority P Q" "\<forall>x \<in> Q. \<exists>m. nodes c x = Some m \<and> backs l t m"
    using assms(1) by (auto simp: backed_def)
  have "\<exists>m. nodes (put i n' c) x = Some m \<and> backs l t m" if "x \<in> Q" for x
    using Q(2) that assms(2,3) by (cases "x = i") (auto simp: backs_def vote_mono_def)
  with Q(1) show ?thesis unfolding backed_def by blast
qed

lemma elected_put:
  assumes "elected P c l t" and "nodes c i = Some n"
    and "vote_mono (current_term n) (voted_for n) (current_term n') (voted_for n')"
    and "cand_le (role n) (current_term n) (role n') (current_term n')"
  shows "elected P (put i n' c) l t"
proof -
  have "backed P (put i n' c) l t" using assms backed_mono unfolding elected_def by blast
  moreover have "\<exists>m. nodes (put i n' c) l = Some m \<and>
      (t < current_term m \<or> current_term m = t \<and> role m \<noteq> Candidate)"
    using assms by (auto simp: elected_def vote_mono_def cand_le_def)
  ultimately show ?thesis by (simp add: elected_def)
qed

definition elect_ok :: "nat list \<Rightarrow> ('m, 'st, 'sm) raft_cluster \<Rightarrow> bool" where
  "elect_ok P c \<longleftrightarrow>
     (\<forall>i l a. node_logs c i = Some l \<longrightarrow> 0 < a \<longrightarrow> a < length l \<longrightarrow> (\<exists>x. elected P c x (le_term (l ! a))))"

lemma elect_okD:
  "elect_ok P c \<Longrightarrow> node_logs c i = Some l \<Longrightarrow> 0 < a \<Longrightarrow> a < length l \<Longrightarrow> \<exists>x. elected P c x (le_term (l ! a))"
  unfolding elect_ok_def by blast

lemma elect_ok_put:
  assumes ok: "elect_ok P c" and n: "nodes c i = Some n"
    and v: "vote_mono (current_term n) (voted_for n) (current_term n') (voted_for n')"
    and cl: "cand_le (role n) (current_term n) (role n') (current_term n')"
    and new: "\<And>a. 0 < a \<Longrightarrow> a < length (log n') \<Longrightarrow>
      (\<exists>j l b. node_logs c j = Some l \<and> 0 < b \<and> b < length l \<and> le_term (log n' ! a) = le_term (l ! b)) \<or>
      (\<exists>x. elected P (put i n' c) x (le_term (log n' ! a)))"
  shows "elect_ok P (put i n' c)"
  unfolding elect_ok_def
proof (intro allI impI)
  fix j l a assume l: "node_logs (put i n' c) j = Some l" and a: "0 < a" "a < length l"
  have old: "\<exists>x. elected P (put i n' c) x t" if "\<exists>x. elected P c x t" for t
    using that elected_put [OF _ n v cl] by blast
  show "\<exists>x. elected P (put i n' c) x (le_term (l ! a))"
  proof (cases "j = i")
    case True
    with l have "l = log n'" by (simp add: node_logs_put)
    with new [of a] a old elect_okD [OF ok] show ?thesis by metis
  next
    case False
    with l have "node_logs c j = Some l" by (simp add: node_logs_put)
    from old [OF elect_okD [OF ok this a]] show ?thesis .
  qed
qed

text \<open>While a majority still votes for \<open>i\<close> in term \<open>t\<close>, nobody else has won \<open>t\<close> or later.\<close>

lemma elected_conflict:
  assumes e: "elected P c l T" and R: "majority P R"
    and votes: "\<And>x. x \<in> R \<Longrightarrow> \<exists>m. nodes c x = Some m \<and> current_term m = t \<and> voted_for m = Some i"
    and n: "nodes c i = Some n" "current_term n = t" "role n = Candidate"
  shows "T < t"
proof (rule ccontr)
  assume "\<not> T < t"
  obtain Q where Q: "majority P Q" "\<forall>x \<in> Q. \<exists>m. nodes c x = Some m \<and> backs l T m"
    using e by (auto simp: elected_def backed_def)
  obtain x where "x \<in> Q" "x \<in> R" using maj.quorum_meet [OF Q(1) R] by blast
  with Q(2) votes \<open>\<not> T < t\<close> have "T = t" "l = i" by (force simp: backs_def)+
  with e n show False by (auto simp: elected_def)
qed

section \<open>Leaders\<close>

definition accurate :: "'m logs \<Rightarrow> 'm raft_log_entry list \<Rightarrow> (nat \<rightharpoonup> nat) \<Rightarrow> bool" where
  "accurate f l mi \<longleftrightarrow> (\<forall>p k. mi p = Some k \<longrightarrow>
     k = 0 \<or> k < length l \<and> (\<exists>m. f p = Some m \<and> prefix (take (Suc k) l) m))"

definition leads :: "'m logs \<Rightarrow> nat \<Rightarrow> 'm raft_log_entry list \<Rightarrow> (nat \<rightharpoonup> nat) \<Rightarrow> bool" where
  "leads f t l mi \<longleftrightarrow> 0 < t \<and> last_term l = t \<and> owns f t l \<and> tops f t \<and> accurate f l mi"

definition lead_ok :: "('m, 'st, 'sm) raft_cluster \<Rightarrow> bool" where
  "lead_ok c \<longleftrightarrow> (\<forall>i n. nodes c i = Some n \<longrightarrow> role n = Leader \<longrightarrow>
     leads (node_logs c) (current_term n) (log n) (match_index n) \<and>
     (\<forall>j m. nodes c j = Some m \<longrightarrow> role m = Leader \<longrightarrow> j = i))"

lemma lead_okD:
  assumes "lead_ok c" and "nodes c i = Some n" and "role n = Leader"
  shows "leads (node_logs c) (current_term n) (log n) (match_index n)"
    and "nodes c j = Some m \<Longrightarrow> role m = Leader \<Longrightarrow> j = i"
  using assms unfolding lead_ok_def by blast+

lemma lead_okI:
  assumes "\<And>j m. nodes c j = Some m \<Longrightarrow> role m = Leader \<Longrightarrow>
      j = i \<and> leads (node_logs c) (current_term m) (log m) (match_index m)"
  shows "lead_ok c"
  using assms unfolding lead_ok_def by metis

lemma lead_ok_single:
  assumes "leads (node_logs (put i n' c)) (current_term n') (log n') (match_index n')"
    and "\<And>j m. nodes c j = Some m \<Longrightarrow> j \<noteq> i \<Longrightarrow> role m \<noteq> Leader"
  shows "lead_ok (put i n' c)"
proof (rule lead_okI [of _ i])
  fix j m assume m: "nodes (put i n' c) j = Some m" "role m = Leader"
  with assms(2) have "j = i" by (cases "j = i") auto
  with m assms(1) show "j = i \<and> leads (node_logs (put i n' c)) (current_term m) (log m) (match_index m)"
    by simp
qed

lemma leads_extend:
  assumes "leads f t l mi" and "f i = Some l" and "es \<noteq> []" and "\<And>e. e \<in> set es \<Longrightarrow> le_term e = t"
  shows "leads (f(i \<mapsto> l @ es)) t (l @ es) (mi(i \<mapsto> length (l @ es) - 1))"
proof -
  have "accurate (f(i \<mapsto> l @ es)) (l @ es) (mi(i \<mapsto> length (l @ es) - 1))"
    unfolding accurate_def
  proof (intro allI impI)
    fix p k assume pk: "(mi(i \<mapsto> length (l @ es) - 1)) p = Some k"
    show "k = 0 \<or> k < length (l @ es) \<and>
        (\<exists>m. (f(i \<mapsto> l @ es)) p = Some m \<and> prefix (take (Suc k) (l @ es)) m)"
    proof (cases "p = i")
      case True
      with pk assms(3) show ?thesis by (auto simp: take_is_prefix simp del: take_append)
    next
      case False
      with pk assms(1) have "k = 0 \<or> k < length l \<and> (\<exists>m. f p = Some m \<and> prefix (take (Suc k) l) m)"
        by (simp add: leads_def accurate_def)
      with False show ?thesis by auto
    qed
  qed
  with assms show ?thesis
    by (auto simp: leads_def last_append intro: owns_extend tops_extend)
qed

lemma leads_copy:
  assumes "leads f t l mi" and "f j = Some l"
  shows "leads (f(i \<mapsto> l)) t l mi"
  using assms owns_copy [of f t l j l i] tops_copy [of f t j l i]
  by (auto simp: leads_def accurate_def take_is_prefix)

lemma leads_sentinel:
  assumes "leads f t l mi" and "f i = None"
  shows "leads (f(i \<mapsto> [sentinel])) t l mi"
proof -
  have "accurate (f(i \<mapsto> [sentinel])) l mi"
    using assms unfolding leads_def accurate_def by (metis fun_upd_apply option.distinct(1))
  moreover have "owns (f(i \<mapsto> [sentinel])) t l" "tops (f(i \<mapsto> [sentinel])) t"
    using assms(1) by (auto simp: leads_def owns_def tops_def sentinel_def)
  ultimately show ?thesis using assms(1) by (simp add: leads_def)
qed

lemma leads_start:
  assumes "0 < t" and "f i = Some l" and "e = \<lparr>le_term = t, le_index = x, le_command = y\<rparr>"
    and small: "\<And>j m a. f j = Some m \<Longrightarrow> a < length m \<Longrightarrow> le_term (m ! a) < t"
    and ne: "\<And>j m. f j = Some m \<Longrightarrow> m \<noteq> []"
    and mi: "\<And>p k. mi p = Some k \<Longrightarrow> k = 0 \<or> p = i \<and> k = length l"
  shows "leads (f(i \<mapsto> l @ [e])) t (l @ [e]) mi"
proof -
  have "owns f t l" using small unfolding owns_def by (metis less_irrefl)
  moreover have le: "last_term m < t" if "f j = Some m" for j m
    using small [OF that, of "length m - 1"] ne [OF that] by (simp add: last_conv_nth)
  then have "tops f t" unfolding tops_def by (meson less_imp_le)
  moreover have "accurate (f(i \<mapsto> l @ [e])) (l @ [e]) mi"
    using mi by (force simp: accurate_def)
  ultimately show ?thesis
    using assms(1,3) le [OF assms(2)] owns_extend [of f t l i "[e]"] tops_extend [of f t l "[e]" i]
    by (auto simp: leads_def)
qed

section \<open>The invariant and its moves\<close>

definition commit_ok :: "nat list \<Rightarrow> ('m, 'st, 'sm) raft_cluster \<Rightarrow> bool" where
  "commit_ok P c \<longleftrightarrow>
     (\<forall>i n. nodes c i = Some n \<longrightarrow> committed P (node_logs c) (take (Suc (commit_index n)) (log n)))"

text \<open>The replication indices mention members of the cluster only.\<close>

definition known :: "(nat \<rightharpoonup> nat) \<Rightarrow> nat set \<Rightarrow> bool" where
  "known mi K \<longleftrightarrow> dom mi \<subseteq> K"

lemma known_simps [simp]:
  "known Map.empty K" "known mi K \<Longrightarrow> p \<in> K \<Longrightarrow> known (mi(p \<mapsto> k)) K"
  by (auto simp: known_def)

locale live_storage =
  raft_storage_contract S hs pg lg healthy
  for S :: "('st, 'm) raft_storage" and hs pg lg healthy +
  fixes fresh :: "'st \<Rightarrow> bool"
  assumes fresh_new: "fresh st \<Longrightarrow> healthy st \<and> lg st = [sentinel] \<and> hs st = hard_state_default \<and>
    pg st = progress_default"

sublocale live_storage \<subseteq> faulty_storage S hs pg lg healthy "\<lambda>_ _. False" fresh
  by unfold_locales (auto simp: no_membership_def sentinel_def dest!: fresh_new)

context live_storage
begin

definition member_ok :: "nat list \<Rightarrow> ('m, 'st, 'sm) raft_cluster \<Rightarrow> nat \<Rightarrow> ('m, 'st, 'sm) raft_node \<Rightarrow> bool" where
  "member_ok P c i n \<longleftrightarrow>
     voters_ok P i n \<and> wf_log (log n) \<and> no_membership (log n) \<and> last_term (log n) \<le> current_term n \<and>
     commit_index n < length (log n) \<and> synced n \<and> known (match_index n) (set (keys c))"

definition logs_inv :: "nat list \<Rightarrow> ('m, 'st, 'sm) raft_cluster \<Rightarrow> bool" where
  "logs_inv P c \<longleftrightarrow>
     (\<forall>i n. nodes c i = Some n \<longrightarrow> member_ok P c i n) \<and>
     keys c \<noteq> [] \<and> dom (nodes c) = set (keys c) \<and> matching (node_logs c) \<and> elect_ok P c \<and> lead_ok c \<and> commit_ok P c"

text \<open>What one update of node \<open>i\<close> from \<open>n\<close> to \<open>n'\<close> can be in cluster \<open>c\<close>.\<close>

inductive log_move ::
  "nat list \<Rightarrow> nat \<Rightarrow> ('m, 'st, 'sm) raft_node \<Rightarrow> ('m, 'st, 'sm) raft_node \<Rightarrow>
     ('m, 'st, 'sm) raft_cluster \<Rightarrow> bool"
  for P i n n' c where
    quiet_move: "log_quiet n n' \<Longrightarrow> log_move P i n n' c"
  | win_move: "\<lbrakk>role n = Candidate; 0 < current_term n; majority P R;
      \<And>x. x \<in> R \<Longrightarrow> \<exists>m. nodes c x = Some m \<and> current_term m = current_term n \<and>
        voted_for m = Some i \<and> up_to_date (log n) (log m);
      \<And>x m. x \<in> set P \<Longrightarrow> nodes c x = Some m \<Longrightarrow> current_term n \<le> current_term m;
      same_core (n\<lparr>role := Leader, next_index := ni, match_index := mi,
        log := log n @ [\<lparr>le_term = current_term n, le_index = length (log n), le_command = NoOp\<rparr>]\<rparr>) n';
      \<And>p k. mi p = Some k \<Longrightarrow> nodes c p \<noteq> None \<and> (k = 0 \<or> p = i \<and> k = length (log n)); synced n'\<rbrakk>
      \<Longrightarrow> log_move P i n n' c"
  | append_move: "\<lbrakk>role n = Leader; es \<noteq> []; \<And>e. e \<in> set es \<Longrightarrow> le_term e = current_term n;
      indexed (log n @ es); no_membership es;
      same_core (n\<lparr>log := log n @ es, match_index := (match_index n)(i \<mapsto> length (log n @ es) - 1)\<rparr>) n';
      synced n'\<rbrakk> \<Longrightarrow> log_move P i n n' c"
  | copy_move: "\<lbrakk>nodes c l = Some ld; role ld = Leader; l \<noteq> i; log_quiet n n2;
      current_term n2 = current_term ld; role n2 = Follower \<or> role n2 = Learner;
      k = commit_index n \<or> k \<le> commit_index ld;
      same_core (n2\<lparr>log := log ld, commit_index := k\<rparr>) n'; synced n'\<rbrakk> \<Longrightarrow> log_move P i n n' c"
  | note_move: "\<lbrakk>role n = Leader; nodes c p = Some m; log m = log n; synced n;
      n' = note_match p (length (log n) - 1) n\<rbrakk> \<Longrightarrow> log_move P i n n' c"
  | commit_move: "\<lbrakk>role n = Leader; k < length (log n); le_term (log n ! k) = current_term n;
      stored P (node_logs c) (take (Suc k) (log n)); same_core (n\<lparr>commit_index := k\<rparr>) n'; synced n'\<rbrakk>
      \<Longrightarrow> log_move P i n n' c"

lemma logs_invD:
  assumes "logs_inv P c"
  shows "nodes c i = Some n \<Longrightarrow> member_ok P c i n" and "dom (nodes c) = set (keys c)"
    and "matching (node_logs c)" and "elect_ok P c" and "lead_ok c" and "commit_ok P c"
    and "wf_logs (node_logs c)"
proof -
  show "nodes c i = Some n \<Longrightarrow> member_ok P c i n" and "dom (nodes c) = set (keys c)"
    and "matching (node_logs c)" and "elect_ok P c" and "lead_ok c" and "commit_ok P c"
    using assms by (simp_all add: logs_inv_def)
  show "wf_logs (node_logs c)"
    using assms by (auto simp: logs_inv_def wf_logs_def node_logs_def member_ok_def)
qed

lemma in_keys: "logs_inv P c \<Longrightarrow> nodes c p = Some m \<Longrightarrow> p \<in> set (keys c)"
  using logs_invD(2) by blast

lemma logs_inv_put:
  assumes inv: "logs_inv P c" and n: "nodes c i = Some n"
    and "member_ok P c i n'" and "matching (node_logs (put i n' c))" and "elect_ok P (put i n' c)"
    and "lead_ok (put i n' c)" and "commit_ok P (put i n' c)"
  shows "logs_inv P (put i n' c)"
proof -
  have "member_ok P (put i n' c) j m" if "nodes (put i n' c) j = Some m" for j m
    using that inv n assms(3) logs_invD(1) [OF inv]
    by (cases "j = i") (auto simp: member_ok_def)
  moreover have "dom (nodes (put i n' c)) = set (keys (put i n' c))"
    using logs_invD(2) [OF inv] n by auto
  moreover have "keys c \<noteq> []" using inv by (simp add: logs_inv_def)
  ultimately show ?thesis using assms by (simp add: logs_inv_def)
qed

text \<open>Updates that leave every log alone.\<close>

lemma commit_ok_same:
  assumes inv: "logs_inv P c" and n: "nodes c i = Some n" and "log n' = log n"
    and "committed P (node_logs c) (take (Suc (commit_index n')) (log n))"
  shows "commit_ok P (put i n' c)"
  using logs_invD(6) [OF inv] assms(3,4) node_logs_same [OF n assms(3)]
  by (auto simp: commit_ok_def)

lemma lead_ok_same:
  assumes ok: "lead_ok c" and n: "nodes c i = Some n" and "log n' = log n"
    and "role n' = Leader \<Longrightarrow> role n = Leader \<and> current_term n' = current_term n \<and>
      accurate (node_logs c) (log n) (match_index n')"
  shows "lead_ok (put i n' c)"
proof -
  have f: "node_logs (put i n' c) = node_logs c" by (rule node_logs_same [OF n assms(3)])
  show ?thesis
    unfolding lead_ok_def f
  proof (intro allI impI conjI)
    fix j m assume m: "nodes (put i n' c) j = Some m" "role m = Leader"
    then obtain m0 where m0: "nodes c j = Some m0" "role m0 = Leader"
      using n assms(4) by (cases "j = i") auto
    show "leads (node_logs c) (current_term m) (log m) (match_index m)"
      using lead_okD(1) [OF ok m0] m m0 n assms(3,4) by (cases "j = i") (auto simp: leads_def)
    fix k m' assume m': "nodes (put i n' c) k = Some m'" "role m' = Leader"
    then obtain m1 where "nodes c k = Some m1" "role m1 = Leader"
      using n assms(4) by (cases "k = i") auto
    from lead_okD(2) [OF ok m0 this] show "k = j" .
  qed
qed

lemma same_log_inv:
  assumes inv: "logs_inv P c" and n: "nodes c i = Some n" and lg: "log n' = log n"
    and v: "vote_mono (current_term n) (voted_for n) (current_term n') (voted_for n')"
    and cl: "cand_le (role n) (current_term n) (role n') (current_term n')"
    and mem: "member_ok P c i n'"
    and lead: "role n' = Leader \<Longrightarrow> role n = Leader \<and> current_term n' = current_term n \<and>
      accurate (node_logs c) (log n) (match_index n')"
    and cm: "committed P (node_logs c) (take (Suc (commit_index n')) (log n))"
  shows "logs_inv P (put i n' c)"
proof (rule logs_inv_put [OF inv n mem])
  show "matching (node_logs (put i n' c))"
    using logs_invD(3) [OF inv] by (simp add: node_logs_same [OF n lg])
  show "elect_ok P (put i n' c)"
    by (rule elect_ok_put [OF logs_invD(4) [OF inv] n v cl]) (use node_logsI [OF n] lg in auto)
qed (use lead_ok_same [OF logs_invD(5) [OF inv] n lg lead] commit_ok_same [OF inv n lg cm] in auto)

lemma quiet_move_inv:
  assumes inv: "logs_inv P c" and n: "nodes c i = Some n" and q: "log_quiet n n'"
  shows "logs_inv P (put i n' c)"
proof -
  note mem = logs_invD(1) [OF inv n]
  have vl: "vote_le n n'" and lg: "log n' = log n" and ix: "index_le n n'"
    using q by (simp_all add: log_quiet_def)
  have "member_ok P c i n'"
    using mem q voters_ok_le [OF _ vl, of P i] vote_le_term [OF vl]
    by (auto simp: member_ok_def log_quiet_def index_le_def)
  moreover have "role n = Leader \<and> current_term n' = current_term n \<and>
      accurate (node_logs c) (log n) (match_index n')" if L: "role n' = Leader"
    using vote_le_leader [OF vl L] ix L lead_okD(1) [OF logs_invD(5) [OF inv] n]
    by (auto simp: index_le_def leads_def)
  moreover have "committed P (node_logs c) (take (Suc (commit_index n')) (log n))"
    using logs_invD(6) [OF inv] n q by (auto simp: commit_ok_def log_quiet_def)
  ultimately show ?thesis
    using vl q by (intro same_log_inv [OF inv n lg]) (auto simp: vote_le_def log_quiet_def)
qed

lemma note_move_inv:
  assumes inv: "logs_inv P c" and n: "nodes c i = Some n" "role n = Leader"
    and m: "nodes c p = Some m" "log m = log n"
  shows "logs_inv P (put i (note_match p (length (log n) - 1) n) c)"
proof -
  let ?n = "note_match p (length (log n) - 1) n"
  note mem = logs_invD(1) [OF inv n(1)]
  have "member_ok P c i ?n"
    using mem in_keys [OF inv m(1)]
    by (auto simp: member_ok_def voters_ok_def synced_def note_match_def)
  moreover have "accurate (node_logs c) (log n) (match_index n)"
    using lead_okD(1) [OF logs_invD(5) [OF inv] n] by (simp add: leads_def)
  then have "accurate (node_logs c) (log n) (match_index ?n)"
    using m mem node_logsI [OF m(1)]
    by (auto simp: accurate_def note_match_def take_is_prefix member_ok_def wf_log_def)
  moreover have "committed P (node_logs c) (take (Suc (commit_index ?n)) (log n))"
    using logs_invD(6) [OF inv] n(1) by (auto simp: commit_ok_def note_match_def)
  ultimately show ?thesis
    using n(2) by (intro same_log_inv [OF inv n(1)]) (auto simp: note_match_def vote_mono_def)
qed

lemma commit_move_inv:
  assumes inv: "logs_inv P c" and n: "nodes c i = Some n" "role n = Leader" and k: "k < length (log n)"
    and t: "le_term (log n ! k) = current_term n" and st: "stored P (node_logs c) (take (Suc k) (log n))"
    and sc: "same_core (n\<lparr>commit_index := k\<rparr>) n'" and sy: "synced n'"
  shows "logs_inv P (put i n' c)"
proof -
  note mem = logs_invD(1) [OF inv n(1)] and ld = lead_okD(1) [OF logs_invD(5) [OF inv] n]
  have "member_ok P c i n'"
    using mem sc sy k by (auto simp: member_ok_def voters_ok_def same_core_def)
  moreover have "last (take (Suc k) (log n)) = log n ! k"
    using k by (simp add: take_Suc_conv_app_nth)
  then have "safe P (node_logs c) (take (Suc k) (log n))"
    using st t ld k by (intro safe_new [of _ _ _ "current_term n"]) (auto simp: leads_def)
  then have "committed P (node_logs c) (take (Suc k) (log n))"
    unfolding committed_def by blast
  ultimately show ?thesis
    using sc n(2) ld
    by (intro same_log_inv [OF inv n(1)]) (auto simp: same_core_def vote_mono_def leads_def)
qed

lemma voters_ok_core:
  "voters_ok P i n \<Longrightarrow> node_id n' = node_id n \<Longrightarrow> voting_peers n' = voting_peers n \<Longrightarrow>
     role n' = role n \<Longrightarrow> voters_ok P i n'"
  by (simp add: voters_ok_def)

text \<open>A leader appends to its own log.\<close>

lemma commit_ok_upd:
  assumes inv: "logs_inv P c" and n: "nodes c i = Some n"
    and safe: "\<And>w. safe P (node_logs c) w \<Longrightarrow> safe P (node_logs (put i n' c)) w"
    and own: "committed P (node_logs c) (take (Suc (commit_index n')) (log n'))"
  shows "commit_ok P (put i n' c)"
proof -
  have "committed P (node_logs (put i n' c)) u" if "committed P (node_logs c) u" for u
    using that safe unfolding committed_def by blast
  then show ?thesis
    using own logs_invD(6) [OF inv] by (auto simp: commit_ok_def)
qed

lemma extend_inv:
  assumes inv: "logs_inv P c" and n: "nodes c i = Some n"
    and own: "owns (node_logs c) (current_term n) (log n)"
    and lg: "log n' = log n @ es" "es \<noteq> []" "\<And>e. e \<in> set es \<Longrightarrow> le_term e = current_term n"
      "indexed (log n @ es)" "no_membership es"
    and core: "current_term n' = current_term n" "voted_for n' = voted_for n" "commit_index n' = commit_index n"
    and cl: "cand_le (role n) (current_term n) (role n') (current_term n')"
    and mem: "voters_ok P i n'" "synced n'" "known (match_index n') (set (keys c))"
    and el: "elected P (put i n' c) x (current_term n)" and lead: "lead_ok (put i n' c)"
    and comp: "\<And>w. safe P (node_logs c) w \<Longrightarrow> prefix w (log n)"
  shows "logs_inv P (put i n' c)"
proof (rule logs_inv_put [OF inv n])
  note m = logs_invD(1) [OF inv n] and f = node_logsI [OF n]
  have "wf_log (log n')"
    unfolding lg(1) by (rule wf_log_snoc [OF _ lg(3)]) (use m lg(4) in \<open>auto simp: member_ok_def\<close>)
  then show "member_ok P c i n'"
    using m mem lg core by (auto simp: member_ok_def last_append)
  show "matching (node_logs (put i n' c))"
    unfolding node_logs_put lg(1) by (rule matching_extend [OF logs_invD(3) [OF inv] f own lg(3)])
  have new: "(\<exists>j l b. node_logs c j = Some l \<and> 0 < b \<and> b < length l \<and> le_term (log n' ! a) = le_term (l ! b)) \<or>
      (\<exists>x. elected P (put i n' c) x (le_term (log n' ! a)))" if "0 < a" "a < length (log n')" for a
  proof (cases "a < length (log n)")
    case True
    with f that lg(1) show ?thesis by (intro disjI1 exI [of _ i] exI [of _ "log n"] exI [of _ a]) (simp add: nth_append)
  next
    case False
    then have "le_term (log n' ! a) = current_term n" using that lg(1,3) by (simp add: nth_append)
    with el show ?thesis by auto
  qed
  show "elect_ok P (put i n' c)"
    by (rule elect_ok_put [OF logs_invD(4) [OF inv] n _ cl new]) (use core in \<open>auto simp: vote_mono_def\<close>)
  show "lead_ok (put i n' c)" by (rule lead)
  have "safe P (node_logs (put i n' c)) w" if w: "safe P (node_logs c) w" for w
    unfolding node_logs_put lg(1) by (rule safe_upd [OF w]) (use comp [OF w] in auto)
  moreover have "committed P (node_logs c) (take (Suc (commit_index n')) (log n'))"
    using logs_invD(6) [OF inv] n core m lg(1) by (auto simp: commit_ok_def member_ok_def)
  ultimately show "commit_ok P (put i n' c)" by (rule commit_ok_upd [OF inv n])
qed

lemma leader_term_elected:
  assumes inv: "logs_inv P c" and n: "nodes c i = Some n" "role n = Leader"
  shows "\<exists>x. elected P c x (current_term n)"
proof -
  have ld: "last_term (log n) = current_term n" "0 < current_term n"
    using lead_okD(1) [OF logs_invD(5) [OF inv] n] by (auto simp: leads_def)
  have wf: "wf_log (log n)" using logs_invD(1) [OF inv n(1)] by (simp add: member_ok_def)
  let ?a = "length (log n) - 1"
  have last: "le_term (log n ! ?a) = current_term n" "?a < length (log n)"
    using ld wf by (auto simp: wf_log_def last_conv_nth)
  then have "0 < ?a" using ld(2) wf by (cases ?a) (auto simp: wf_log_def sentinel_def)
  from elect_okD [OF logs_invD(4) [OF inv] node_logsI [OF n(1)] this last(2)] last(1) show ?thesis by simp
qed

lemma leader_complete:
  assumes inv: "logs_inv P c" and n: "nodes c i = Some n" "role n = Leader"
  shows "safe P (node_logs c) w \<Longrightarrow> prefix w (log n)" and "committed P (node_logs c) u \<Longrightarrow> prefix u (log n)"
proof -
  have ld: "leads (node_logs c) (current_term n) (log n) (match_index n)"
    by (rule lead_okD(1) [OF logs_invD(5) [OF inv] n])
  show "safe P (node_logs c) w \<Longrightarrow> prefix w (log n)"
    using safe_leader [OF _ logs_invD(7) [OF inv] node_logsI [OF n(1)]] ld by (auto simp: leads_def)
  show "committed P (node_logs c) u \<Longrightarrow> prefix u (log n)"
    using committed_leader [OF _ logs_invD(7) [OF inv] node_logsI [OF n(1)]] ld by (auto simp: leads_def)
qed

lemma append_move_inv:
  assumes inv: "logs_inv P c" and n: "nodes c i = Some n" "role n = Leader"
    and es: "es \<noteq> []" "\<And>e. e \<in> set es \<Longrightarrow> le_term e = current_term n" "indexed (log n @ es)" "no_membership es"
    and sc: "same_core (n\<lparr>log := log n @ es, match_index := (match_index n)(i \<mapsto> length (log n @ es) - 1)\<rparr>) n'"
    and sy: "synced n'"
  shows "logs_inv P (put i n' c)"
proof -
  note mem = logs_invD(1) [OF inv n(1)] and ld = lead_okD [OF logs_invD(5) [OF inv] n]
  have n': "log n' = log n @ es" "current_term n' = current_term n" "voted_for n' = voted_for n"
    "role n' = Leader" "commit_index n' = commit_index n" "node_id n' = node_id n"
    "voting_peers n' = voting_peers n" "match_index n' = (match_index n)(i \<mapsto> length (log n @ es) - 1)"
    using sc n(2) by (simp_all add: same_core_def)
  have "leads (node_logs (put i n' c)) (current_term n') (log n') (match_index n')"
    unfolding node_logs_put n' by (rule leads_extend [OF ld(1) node_logsI [OF n(1)] es(1,2)])
  then have lead: "lead_ok (put i n' c)"
    by (rule lead_ok_single) (use ld(2) in blast)
  obtain x where "elected P c x (current_term n)" using leader_term_elected [OF inv n] by blast
  then have el: "elected P (put i n' c) x (current_term n)"
    by (rule elected_put [OF _ n(1)]) (use n' n(2) in \<open>auto simp: vote_mono_def\<close>)
  show ?thesis
    by (rule extend_inv [OF inv n(1) _ n'(1) es _ _ _ _ _ sy _ el lead leader_complete(1) [OF inv n]])
      (use ld(1) n' n(2) mem in_keys [OF inv n(1)] in
        \<open>auto simp: leads_def member_ok_def voters_ok_def split: if_splits\<close>)
qed

text \<open>A candidate wins: no entry of its term or a later one exists yet.\<close>

lemma win_fresh:
  assumes inv: "logs_inv P c" and n: "nodes c i = Some n" "role n = Candidate" "0 < current_term n"
    and R: "majority P R"
    and votes: "\<And>x. x \<in> R \<Longrightarrow> \<exists>m. nodes c x = Some m \<and> current_term m = current_term n \<and> voted_for m = Some i"
    and l: "node_logs c j = Some l" "a < length l"
  shows "le_term (l ! a) < current_term n"
proof (cases "a = 0")
  case True
  have "wf_log l" using logs_invD(7) [OF inv] l(1) by (auto simp: wf_logs_def)
  with True n(3) show ?thesis by (simp add: wf_log_def sentinel_def)
next
  case False
  with elect_okD [OF logs_invD(4) [OF inv] l(1) _ l(2)] obtain x where "elected P c x (le_term (l ! a))"
    by auto
  from elected_conflict [OF this R votes n(1) refl n(2)] show ?thesis .
qed

lemma win_move_inv:
  assumes inv: "logs_inv P c" and n: "nodes c i = Some n" "role n = Candidate" "0 < current_term n"
    and R: "majority P R"
    and votes: "\<And>x. x \<in> R \<Longrightarrow> \<exists>m. nodes c x = Some m \<and> current_term m = current_term n \<and>
        voted_for m = Some i \<and> up_to_date (log n) (log m)"
    and polled: "\<And>x m. x \<in> set P \<Longrightarrow> nodes c x = Some m \<Longrightarrow> current_term n \<le> current_term m"
    and e: "e = \<lparr>le_term = current_term n, le_index = length (log n), le_command = NoOp\<rparr>"
    and sc: "same_core (n\<lparr>role := Leader, next_index := ni, match_index := mi, log := log n @ [e]\<rparr>) n'"
    and mi: "\<And>p k. mi p = Some k \<Longrightarrow> nodes c p \<noteq> None \<and> (k = 0 \<or> p = i \<and> k = length (log n))"
    and sy: "synced n'"
  shows "logs_inv P (put i n' c)"
proof -
  note mem = logs_invD(1) [OF inv n(1)]
  have n': "log n' = log n @ [e]" "current_term n' = current_term n" "voted_for n' = voted_for n"
    "role n' = Leader" "commit_index n' = commit_index n" "node_id n' = node_id n"
    "voting_peers n' = voting_peers n" "match_index n' = mi"
    using sc by (simp_all add: same_core_def)
  have votes1: "\<exists>m. nodes c x = Some m \<and> current_term m = current_term n \<and> voted_for m = Some i" if "x \<in> R" for x
    using votes [OF that] by blast
  have small: "le_term (l ! a) < current_term n" if "node_logs c j = Some l" "a < length l" for j l a
    by (rule win_fresh [OF inv n R votes1 that])
  have alone: "role m \<noteq> Leader" if m: "nodes c j = Some m" "j \<noteq> i" for j m
  proof
    assume L: "role m = Leader"
    have "j \<in> set P" using logs_invD(1) [OF inv m(1)] L by (auto simp: member_ok_def voters_ok_def split: if_splits)
    then have "current_term n \<le> current_term m" by (rule polled [OF _ m(1)])
    moreover obtain x where "elected P c x (current_term m)" using leader_term_elected [OF inv m(1) L] by blast
    from elected_conflict [OF this R votes1 n(1) refl n(2)] have "current_term m < current_term n" .
    ultimately show False by simp
  qed
  have "leads (node_logs (put i n' c)) (current_term n') (log n') (match_index n')"
    unfolding node_logs_put n'
    by (rule leads_start [where f = "node_logs c", OF n(3) node_logsI [OF n(1)] e])
      (use small mi logs_invD(7) [OF inv] in \<open>auto simp: wf_logs_def wf_log_def\<close>)
  then have lead: "lead_ok (put i n' c)" by (rule lead_ok_single) (rule alone)
  have "backed P c i (current_term n)"
    unfolding backed_def backs_def using R votes1 by blast
  then have el: "elected P (put i n' c) i (current_term n)"
    using backed_mono [OF _ n(1), of P i "current_term n" n'] n' by (auto simp: elected_def vote_mono_def)
  have comp: "prefix w (log n)" if "safe P (node_logs c) w" for w
    by (rule safe_candidate [OF that logs_invD(7,3) [OF inv] node_logsI [OF n(1)] R])
      (use votes node_logsI in blast)
  have "known mi (set (keys c))" using mi logs_invD(2) [OF inv] by (auto simp: known_def)
  moreover have "owns (node_logs c) (current_term n) (log n)"
    using small unfolding owns_def by (metis less_irrefl)
  moreover have "indexed (log n @ [e])" using mem e by (simp add: member_ok_def wf_log_def indexed_append_iff)
  ultimately show ?thesis
    using n' n(2) mem e
    by (intro extend_inv [OF inv n(1) _ n'(1) _ _ _ _ _ _ _ _ _ sy _ el lead comp])
      (auto simp: member_ok_def voters_ok_def cand_le_def split: if_splits)
qed

text \<open>A follower takes over the log of the leader.\<close>

lemma copy_move_inv:
  assumes inv: "logs_inv P c" and n: "nodes c i = Some n"
    and ld: "nodes c l = Some ld" "role ld = Leader" "l \<noteq> i"
    and q: "log_quiet n n2" and n2: "current_term n2 = current_term ld" "role n2 = Follower \<or> role n2 = Learner"
    and k: "k = commit_index n \<or> k \<le> commit_index ld"
    and sc: "same_core (n2\<lparr>log := log ld, commit_index := k\<rparr>) n'" and sy: "synced n'"
  shows "logs_inv P (put i n' c)"
proof (rule logs_inv_put [OF inv n])
  note mem = logs_invD(1) [OF inv n] and lmem = logs_invD(1) [OF inv ld(1)]
    and lead = lead_okD [OF logs_invD(5) [OF inv] ld(1,2)]
  have vl: "vote_le n n2" using q by (simp add: log_quiet_def)
  have n': "log n' = log ld" "current_term n' = current_term n2" "voted_for n' = voted_for n2"
    "role n' = role n2" "commit_index n' = k" "node_id n' = node_id n2"
    "voting_peers n' = voting_peers n2" "match_index n' = match_index n2"
    using sc by (simp_all add: same_core_def)
  have cm: "committed P (node_logs c) (take (Suc (commit_index n)) (log n))"
    and cl: "committed P (node_logs c) (take (Suc (commit_index ld)) (log ld))"
    using logs_invD(6) [OF inv] n ld(1) by (auto simp: commit_ok_def)
  from leader_complete(2) [OF inv ld(1,2) cm] have pre: "prefix (take (Suc (commit_index n)) (log n)) (log ld)" .
  have "committed P (node_logs c) (take (Suc k) (log ld)) \<and> k < length (log ld)"
    using k
  proof
    assume kn: "k = commit_index n"
    have len: "length (take (Suc k) (log n)) = Suc k" using mem kn by (auto simp: member_ok_def)
    then have "take (Suc k) (log n) = take (Suc k) (log ld)"
      using prefix_eq_take [OF pre] kn by simp
    moreover have "Suc k \<le> length (log ld)" using prefix_length_le [OF pre] len kn by metis
    moreover note cm kn
    ultimately show ?thesis by simp
  next
    assume "k \<le> commit_index ld"
    moreover have "prefix (take (Suc k) (log ld)) (take (Suc (commit_index ld)) (log ld))"
      using calculation by (metis Suc_le_mono min.absorb1 take_is_prefix take_take)
    ultimately show ?thesis using committed_prefix [OF cl] lmem by (auto simp: member_ok_def)
  qed
  note kk = this
  have "voters_ok P i n'"
    by (rule voters_ok_core [OF voters_ok_le [OF _ vl]]) (use mem n' in \<open>simp_all add: member_ok_def\<close>)
  moreover have "known (match_index n') (set (keys c))"
    using mem q n'(8) by (auto simp: member_ok_def log_quiet_def index_le_def)
  ultimately show "member_ok P c i n'"
    using n' lmem kk sy n2(1) by (simp add: member_ok_def)
  show "matching (node_logs (put i n' c))"
    unfolding node_logs_put n'(1) by (rule matching_copy [OF logs_invD(3) [OF inv] node_logsI [OF ld(1)]])
  show "elect_ok P (put i n' c)"
  proof (rule elect_ok_put [OF logs_invD(4) [OF inv] n])
    show "vote_mono (current_term n) (voted_for n) (current_term n') (voted_for n')"
      using vl n' by (simp add: vote_le_def)
    show "cand_le (role n) (current_term n) (role n') (current_term n')"
      using q n' by (simp add: log_quiet_def)
  qed (use n'(1) node_logsI [OF ld(1)] in metis)
  have lds: "leads (node_logs (put i n' c)) (current_term ld) (log ld) (match_index ld)"
    unfolding node_logs_put n'(1) by (rule leads_copy [OF lead(1) node_logsI [OF ld(1)]])
  show "lead_ok (put i n' c)"
  proof (rule lead_okI [of _ l])
    fix j m assume m: "nodes (put i n' c) j = Some m" "role m = Leader"
    then have "nodes c j = Some m" using n'(4) n2(2) by (cases "j = i") auto
    moreover from lead(2) [OF this m(2)] have "j = l" .
    ultimately show "j = l \<and> leads (node_logs (put i n' c)) (current_term m) (log m) (match_index m)"
      using lds ld(1) by simp
  qed
  have "safe P (node_logs (put i n' c)) w" if w: "safe P (node_logs c) w" for w
    unfolding node_logs_put n'(1)
    by (rule safe_upd [OF w]) (use leader_complete(1) [OF inv ld(1,2) w] in auto)
  then show "commit_ok P (put i n' c)"
    using kk n' by (intro commit_ok_upd [OF inv n]) auto
qed

lemma log_move_inv:
  assumes "log_move P i n n' c" and "logs_inv P c" and "nodes c i = Some n"
  shows "logs_inv P (put i n' c)"
  using assms(1)
proof cases
  case quiet_move
  then show ?thesis by (rule quiet_move_inv [OF assms(2,3)])
next
  case (win_move R ni mi)
  show ?thesis by (rule win_move_inv [OF assms(2,3) win_move(1-5) refl win_move(6-8)])
next
  case (append_move es)
  show ?thesis by (rule append_move_inv [OF assms(2,3) append_move])
next
  case (copy_move l ld n2 k)
  show ?thesis by (rule copy_move_inv [OF assms(2,3) copy_move])
next
  case (note_move p m)
  then show ?thesis using note_move_inv [OF assms(2,3)] by simp
next
  case (commit_move k)
  show ?thesis by (rule commit_move_inv [OF assms(2,3) commit_move])
qed

lemma logs_inv_moves:
  assumes "moves (log_move P) c c'" and "logs_inv P c"
  shows "logs_inv P c'"
  using assms by (rule moves_invariant) (auto intro: log_move_inv)

end

end
