(* ===== verification/Raft_Safety.thy ===== *)
theory Raft_Safety
  imports Raft_Replication
begin

text \<open>
  Every cluster operation is a sequence of the moves of \<open>Raft_Replication\<close> while storage
  works: heartbeats, elections, transfers, client proposals, reads, restarts and new
  learners. With the invariant this gives log matching, leader completeness and state
  machine safety for runs of a cluster over memory storage.
\<close>

context live_storage
begin

section \<open>Heartbeats as moves\<close>

text \<open>The leader as the heartbeat loop has captured it.\<close>

definition leading ::
  "('m, 'st, 'sm) raft_cluster \<Rightarrow> nat \<Rightarrow> nat \<Rightarrow> nat \<Rightarrow> 'm raft_log_entry list \<Rightarrow> bool" where
  "leading c lid t lc l \<longleftrightarrow> (\<exists>n. nodes c lid = Some n \<and> role n = Leader \<and> current_term n = t \<and>
     commit_index n = lc \<and> log n = l)"

lemma leader_cover:
  assumes inv: "logs_inv P c" and ld: "nodes c lid = Some ld" "role ld = Leader"
    and n: "nodes c p = Some n" "current_term n \<le> current_term ld" "prefix (log ld) (log n)"
  shows "log n = log ld"
proof -
  note mem = logs_invD(1) [OF inv n(1)] logs_invD(1) [OF inv ld(1)]
  have "leads (node_logs c) (current_term ld) (log ld) (match_index ld)"
    by (rule lead_okD(1) [OF logs_invD(5) [OF inv] ld])
  then show ?thesis
    using mem n(2) by (intro owns_cover [where f = "node_logs c", OF _ node_logsI [OF n(1)] _ _ _ _ n(3)])
      (auto simp: leads_def member_ok_def)
qed

lemma heartbeat_peer_sim:
  assumes env: "env_storage env = S" and inv: "logs_inv P c" and ld: "leading c lid t lc l"
    and h: "heartbeat_peer env now lid t lc l p (r, c) = Some (r', c')"
  shows "moves (log_move P) c c' \<and> leading c' lid t lc l"
proof (cases "p = lid \<or> nodes c p = None")
  case True
  with h ld show ?thesis by (auto simp: heartbeat_peer_def moves_refl split: option.splits)
next
  case False
  then obtain n where n: "nodes c p = Some n" and ne: "p \<noteq> lid" by auto
  from ld obtain d where d: "nodes c lid = Some d" "role d = Leader" "current_term d = t"
    "commit_index d = lc" "log d = l" by (auto simp: leading_def)
  from heartbeat_peer_cases [OF h n d(1) ne] obtain reply n' where
    a: "handle_append_entries env now (append_args t lid lc l (peer_next d p)) n = Some (reply, n')"
    and nx: "0 < peer_next d p" and
    c': "if aer_success reply then c' = put lid (note_match p (aer_match_index reply) d) (put p n' c)
         else c' = put p n' c" by (auto split: if_splits)
  have mem: "member_ok P c p n" "member_ok P c lid d" using logs_invD(1) [OF inv] n d(1) by blast+
  have "if aer_success reply
    then aer_match_index reply = length l - 1 \<and> synced n' \<and>
      (\<exists>n2. log_quiet n n2 \<and> current_term n2 = t \<and> (role n2 = Follower \<or> role n2 = Learner) \<and>
        same_core (n2\<lparr>log := l, commit_index := follower_commit lc (length l) (commit_index n)\<rparr>) n')
    else log_quiet n n'"
  proof (rule handle_append_leader [OF env _ _ _ _ _ nx _ _ a])
    show "agree (log n) l"
      using matching_agree [OF logs_invD(3) [OF inv] node_logsI [OF n] node_logsI [OF d(1)]] d(5) by simp
    show "current_term n \<le> t \<Longrightarrow> prefix l (log n) \<Longrightarrow> log n = l"
      using leader_cover [OF inv d(1,2) n] d(3,5) by simp
  qed (use mem d(5) in \<open>auto simp: member_ok_def wf_log_def\<close>)
  note res = this
  show ?thesis
  proof (cases "aer_success reply")
    case False
    with res have "log_quiet n n'" by simp
    then have "moves (log_move P) c c'"
      using c' False n by (auto intro!: moves_single log_move.quiet_move)
    moreover have "leading c' lid t lc l" using c' False d ne by (auto simp: leading_def)
    ultimately show ?thesis by simp
  next
    case True
    with res obtain n2 where n2: "log_quiet n n2" "current_term n2 = t" "role n2 = Follower \<or> role n2 = Learner"
      and sc: "same_core (n2\<lparr>log := l, commit_index := follower_commit lc (length l) (commit_index n)\<rparr>) n'"
      and sy: "synced n'" and mi: "aer_match_index reply = length l - 1" by auto
    have "log_move P p n n' c"
      by (rule log_move.copy_move [OF d(1,2) _ n2(1) _ n2(3) _ _ sy])
        (use ne n2 d sc in \<open>auto simp: follower_commit_def\<close>)
    then have m1: "moves (log_move P) c (put p n' c)" by (rule moves_single [of c p n, OF n])
    have d1: "nodes (put p n' c) lid = Some d" using d(1) ne by simp
    have "log_move P lid d (note_match p (length (log d) - 1) d) (put p n' c)"
      by (rule log_move.note_move [of _ _ p n'])
        (use d mem sc in \<open>auto simp: member_ok_def same_core_def\<close>)
    from moves_put [OF m1 d1 this] have "moves (log_move P) c c'" using c' True mi d(5) by simp
    moreover have "leading c' lid t lc l"
      using c' True d by (auto simp: leading_def note_match_def)
    ultimately show ?thesis by simp
  qed
qed

lemma heartbeat_peers_sim:
  assumes env: "env_storage env = S"
    and "logs_inv P (snd s)" and "leading (snd s) lid t lc l"
    and "heartbeat_peers env now lid t lc l ps s = Some s'"
  shows "moves (log_move P) (snd s) (snd s') \<and> leading (snd s') lid t lc l"
  using assms(2-)
proof (induction ps arbitrary: s)
  case (Cons p ps)
  then obtain s1 where s1: "heartbeat_peer env now lid t lc l p s = Some s1"
    and rest: "heartbeat_peers env now lid t lc l ps s1 = Some s'"
    by (auto split: bind_splits)
  have m: "moves (log_move P) (snd s) (snd s1) \<and> leading (snd s1) lid t lc l"
    using heartbeat_peer_sim [OF env Cons.prems(1,2), of now p "fst s" "fst s1" "snd s1"] s1 by simp
  with Cons.prems(1) have "logs_inv P (snd s1)" using logs_inv_moves by blast
  from Cons.IH [OF this _ rest] m show ?case by (blast intro: moves_trans)
qed (simp add: moves_refl)

text \<open>The highest index that a majority has confirmed.\<close>

lemma commit_target_stored:
  assumes inv: "logs_inv P c" and n: "nodes c i = Some n" "role n = Leader" and P: "distinct P"
    and k: "commit_target n = Some k"
  shows "k < length (log n) \<and> le_term (log n ! k) = current_term n \<and>
    stored P (node_logs c) (take (Suc k) (log n))"
proof -
  note mem = logs_invD(1) [OF inv n(1)]
  have k': "commit_index n + 1 \<le> k" "k < length (log n)" "le_term (log n ! k) = current_term n"
    "quorum_size (voting_peers n) \<le> match_count n k"
    using k by (auto simp: commit_target_def find_Some_iff rev_nth)
  let ?ok = "\<lambda>p. case match_index n p of Some matched \<Rightarrow> k \<le> matched | None \<Rightarrow> p = node_id n"
  have vp: "set (voting_peers n) = set P" "distinct (voting_peers n)" "node_id n = i"
    using mem n(2) by (auto simp: member_ok_def voters_ok_def split: if_splits)
  have "majority (voting_peers n) {x \<in> set (voting_peers n). ?ok x}"
    by (rule majority_count [OF vp(2)]) (use k'(4) in \<open>simp add: match_count_def\<close>)
  then have maj: "majority P {x \<in> set P. ?ok x}"
    using vp(1,2) P same_set_length [OF P vp(2)] by (auto simp: majority_def quorum_size_def)
  have acc: "accurate (node_logs c) (log n) (match_index n)"
    using lead_okD(1) [OF logs_invD(5) [OF inv] n] by (simp add: leads_def)
  have "\<exists>m. node_logs c x = Some m \<and> prefix (take (Suc k) (log n)) m" if x: "x \<in> {x \<in> set P. ?ok x}" for x
  proof (cases "match_index n x")
    case None
    with x vp(3) node_logsI [OF n(1)] show ?thesis by (auto simp: take_is_prefix)
  next
    case (Some j)
    with x k'(1) have "k \<le> j" "0 < j" by auto
    with acc Some obtain m where m: "node_logs c x = Some m" "prefix (take (Suc j) (log n)) m"
      unfolding accurate_def by (metis less_irrefl)
    have "prefix (take (Suc k) (log n)) (take (Suc j) (log n))"
      using \<open>k \<le> j\<close> by (metis Suc_le_mono min.absorb1 take_is_prefix take_take)
    with m show ?thesis by (blast intro: prefix_order.trans)
  qed
  with maj k' show ?thesis unfolding stored_def by blast
qed

lemma engine_quiet: "synced n \<Longrightarrow> log_quiet n (n\<lparr>read_engine := e\<rparr>)"
  by (rule same_core_log_quiet) (simp_all add: same_core_def)

lemma engine_put_log:
  assumes "logs_inv P c" and "nodes c i = Some n"
  shows "moves (log_move P) c (put i (n\<lparr>read_engine := e\<rparr>) c)"
  using logs_invD(1) [OF assms] assms(2)
  by (intro moves_single [of c i n]) (auto intro!: log_move.quiet_move engine_quiet simp: member_ok_def)

lemma check_quorum_commit_sim:
  assumes env: "env_storage env = S" and inv: "logs_inv P c" and P: "distinct P"
    and n: "nodes c i = Some n" and h: "check_quorum_commit env n = Some (b, n')"
  shows "moves (log_move P) c (put i n' c)"
proof -
  have mem: "synced n" "no_membership (log n)" using logs_invD(1) [OF inv n] by (simp_all add: member_ok_def)
  from check_quorum_commit_sync [OF env mem(2,1) h] show ?thesis
  proof
    assume "n' = n"
    with mem(1) show ?thesis using n by (auto intro!: moves_single log_move.quiet_move log_quiet_refl)
  next
    assume *: "role n = Leader \<and> (\<exists>k. commit_target n = Some k \<and> same_core (n\<lparr>commit_index := k\<rparr>) n' \<and> synced n')"
    then obtain k where k: "commit_target n = Some k" "same_core (n\<lparr>commit_index := k\<rparr>) n'" "synced n'"
      by blast
    from commit_target_stored [OF inv n _ P k(1)] * k show ?thesis
      by (intro moves_single [of c i n, OF n] log_move.commit_move [of _ k]) auto
  qed
qed

lemma finish_heartbeats_sim:
  assumes env: "env_storage env = S" and inv: "logs_inv P (snd s)" and P: "distinct P"
    and h: "finish_heartbeats env now lid t s = Some c'"
  shows "moves (log_move P) (snd s) c'"
proof (cases "nodes (snd s) lid")
  case None
  with h show ?thesis by (auto simp: finish_heartbeats_def moves_refl split: prod.splits)
next
  case (Some d)
  define d1 where "d1 = (if quorum_size (voting_peers d) \<le> fst s
      then d\<lparr>read_engine := record_quorum_success now t (read_engine d)\<rparr> else d)"
  from h Some obtain b d2 where q: "check_quorum_commit env d1 = Some (b, d2)"
    and c': "c' = put lid d2 (snd s)"
    by (cases s) (auto simp: finish_heartbeats_def Let_def d1_def split: bind_splits)
  have "log_quiet d d1"
    using logs_invD(1) [OF inv Some] by (auto simp: d1_def engine_quiet log_quiet_refl member_ok_def)
  then have m: "moves (log_move P) (snd s) (put lid d1 (snd s))"
    by (intro moves_single [of _ lid d, OF Some] log_move.quiet_move)
  from check_quorum_commit_sim [OF env logs_inv_moves [OF m inv] P _ q]
  have "moves (log_move P) (put lid d1 (snd s)) (put lid d2 (put lid d1 (snd s)))" by simp
  moreover have "put lid d2 (put lid d1 (snd s)) = c'" using c' by (simp add: put_def)
  ultimately show ?thesis using m by (auto intro: moves_trans)
qed

lemma broadcast_sim:
  assumes env: "env_storage env = S" and inv: "logs_inv P c" and P: "distinct P"
    and h: "broadcast_heartbeats env now lid c = Some c'"
  shows "logs_inv P c'"
proof (cases "\<exists>n. nodes c lid = Some n \<and> is_leader n")
  case True
  then obtain n where n: "nodes c lid = Some n" "is_leader n" by blast
  with h obtain s where s: "heartbeat_peers env now lid (current_term n) (commit_index n) (log n)
      (keys c) (1, c) = Some s" and f: "finish_heartbeats env now lid (current_term n) s = Some c'"
    by (auto simp: broadcast_heartbeats_def split: bind_splits)
  have "leading c lid (current_term n) (commit_index n) (log n)"
    using n by (simp add: leading_def is_leader_def)
  from heartbeat_peers_sim [OF env _ _ s] inv this have "moves (log_move P) c (snd s)" by simp
  then have inv1: "logs_inv P (snd s)" using inv by (rule logs_inv_moves)
  from logs_inv_moves [OF finish_heartbeats_sim [OF env inv1 P f] inv1] show ?thesis .
next
  case False
  with h inv show ?thesis by (auto simp: broadcast_heartbeats_def split: option.splits)
qed

section \<open>Elections as moves\<close>

lemma request_vote_from_sim:
  assumes env: "env_storage env = S" and inv: "logs_inv P c" and p: "p \<in> set P"
    and h: "request_vote_from env now args p (v, c) = Some (v', c')"
  shows "moves (log_move P) c c' \<and>
    (p \<noteq> rv_candidate_id args \<longrightarrow> (\<forall>m. nodes c' p = Some m \<longrightarrow> rv_term args \<le> current_term m))"
proof (cases "p = rv_candidate_id args \<or> nodes c p = None")
  case True
  with h show ?thesis by (auto simp: request_vote_from_def moves_refl split: option.splits)
next
  case False
  then obtain n where n: "nodes c p = Some n" by auto
  with h False obtain r n' where a: "handle_request_vote env now args n = Some (r, n')"
    and c': "c' = put p n' c"
    by (auto simp: request_vote_from_def split: if_splits bind_splits)
  have "synced n" "role n \<noteq> Learner"
    using logs_invD(1) [OF inv n] p by (auto simp: member_ok_def voters_ok_def)
  with handle_request_vote_quiet [OF env _ a] show ?thesis
    using c' by (auto intro!: moves_single [of c p n, OF n] log_move.quiet_move)
qed

lemma request_votes_sim:
  assumes env: "env_storage env = S" and "distinct ps" and "set ps \<subseteq> set P" and "logs_inv P c"
    and "request_votes env now args ps (v, c) = Some (v', c')"
  shows "moves (log_move P) c c' \<and>
    (\<forall>x m. x \<in> set ps \<longrightarrow> x \<noteq> rv_candidate_id args \<longrightarrow> nodes c' x = Some m \<longrightarrow> rv_term args \<le> current_term m)"
  using assms(2-)
proof (induction ps arbitrary: v c)
  case (Cons p ps)
  then obtain v1 c1 where one: "request_vote_from env now args p (v, c) = Some (v1, c1)"
    and rest: "request_votes env now args ps (v1, c1) = Some (v', c')"
    by (auto split: bind_splits)
  note s1 = request_vote_from_sim [OF env Cons.prems(3) _ one]
  have m1: "moves (log_move P) c c1" using s1 Cons.prems(2) by simp
  with Cons.prems(3) have "logs_inv P c1" using logs_inv_moves by blast
  with Cons.IH [OF _ _ _ rest] Cons.prems(1,2) have s2: "moves (log_move P) c1 c'"
    "\<forall>x m. x \<in> set ps \<longrightarrow> x \<noteq> rv_candidate_id args \<longrightarrow> nodes c' x = Some m \<longrightarrow> rv_term args \<le> current_term m"
    by simp_all
  have "nodes c' p = nodes c1 p"
    using request_votes_spec [OF env _ rest] Cons.prems(1) by simp
  then have "\<forall>x m. x \<in> set (p # ps) \<longrightarrow> x \<noteq> rv_candidate_id args \<longrightarrow> nodes c' x = Some m \<longrightarrow> rv_term args \<le> current_term m"
    using s1 s2(2) Cons.prems(2) by auto
  with m1 s2(1) show ?case by (blast intro: moves_trans)
qed (simp add: moves_refl)

lemma win_sim:
  assumes env: "env_storage env = S" and inv: "logs_inv P c" and n: "nodes c i = Some n"
    and cand: "role n = Candidate" "voted_for n = Some i" "0 < current_term n"
    and maj: "majority P (insert i {p \<in> set P. counted (vote_request i n) c p})"
    and polled: "\<And>x m. x \<in> set P \<Longrightarrow> nodes c x = Some m \<Longrightarrow> current_term n \<le> current_term m"
    and h: "propose env NoOp (become_leader now (keys c) n) = Some (r, n')"
  shows "log_move P i n n' c"
proof -
  let ?b = "become_leader now (keys c) n"
  have mem: "synced n" "indexed (log n)" "node_id n = i" "known (match_index n) (set (keys c))"
    using logs_invD(1) [OF inv n] by (auto simp: member_ok_def wf_log_def voters_ok_def)
  have "synced ?b" "indexed (log ?b)" "role ?b = Leader"
    using mem by (simp_all add: become_leader_def synced_def)
  from propose_healthy [OF env this h] have sy: "synced n'"
    and sc: "same_core (?b\<lparr>log := log ?b @ [\<lparr>le_term = current_term ?b, le_index = length (log ?b), le_command = NoOp\<rparr>],
      match_index := (match_index ?b)(node_id ?b \<mapsto> length (log ?b))\<rparr>) n'" by auto
  define mi where "mi = (match_index ?b)(node_id ?b \<mapsto> length (log ?b))"
  have keys: "nodes c p \<noteq> None \<longleftrightarrow> p \<in> set (keys c)" for p using logs_invD(2) [OF inv] by auto
  have votes: "\<exists>m. nodes c x = Some m \<and> current_term m = current_term n \<and> voted_for m = Some i \<and>
      up_to_date (log n) (log m)" if "x \<in> insert i {p \<in> set P. counted (vote_request i n) c p}" for x
    using that n cand by (auto simp: counted_def vote_request_def log_up_to_date_def up_to_date_def)
  have dom: "nodes c p \<noteq> None \<and> (k = 0 \<or> p = i \<and> k = length (log n))" if "mi p = Some k" for p k
    using that mem(3,4) n unfolding keys
    by (auto simp: mi_def become_leader_def known_def split: if_splits) (use n keys in blast)
  show ?thesis
    by (rule log_move.win_move [OF cand(1,3) maj votes polled _ dom sy])
      (use sc in \<open>auto simp: same_core_def become_leader_def mi_def\<close>)
qed

lemma trigger_election_sim:
  assumes env: "env_storage env = S" and inv: "logs_inv P c" and P: "distinct P"
    and h: "trigger_election env now i c = Some (b, c')"
  shows "logs_inv P c'"
proof (cases "\<exists>n. nodes c i = Some n \<and> \<not> is_learner n")
  case False
  with h inv show ?thesis by (auto simp: trigger_election_def split: option.splits)
next
  case True
  then obtain n where n: "nodes c i = Some n" "role n \<noteq> Learner" by (auto simp: is_learner_def)
  obtain b1 n1 where sc: "start_candidacy env i n = (b1, n1)" by (rule prod.exhaust)
  have "synced n" using logs_invD(1) [OF inv n(1)] by (simp add: member_ok_def)
  note cq = start_candidacy_quiet [OF env this n(2) sc] and cand = start_candidacy_spec [OF env sc n(2)]
  have inv1: "logs_inv P (put i n1 c)" using quiet_move_inv [OF inv n(1)] cq by blast
  let ?args = "vote_request i n1"
  obtain v c1 where rv: "request_votes env now ?args (voting_peers n1) (1, put i n1 c) = Some (v, c1)"
    and con: "conclude_election env now i (quorum_size (voting_peers n1)) (v, c1) = Some (b, c')"
    using h n sc cq by (auto simp: trigger_election_def is_learner_def split: if_splits bind_splits)
  have i: "i \<in> set P" and vp: "set (voting_peers n1) = set P" "distinct (voting_peers n1)"
    using logs_invD(1) [OF inv n(1)] n(2) cand by (auto simp: member_ok_def voters_ok_def split: if_splits)
  note votes = request_votes_spec [OF env vp(2) rv]
    and sim = request_votes_sim [OF env vp(2) _ inv1 rv]
  have inv2: "logs_inv P c1" using sim inv1 vp(1) logs_inv_moves by auto
  have n1: "nodes c1 i = Some n1" using votes by (simp add: vote_request_def)
  show ?thesis
  proof (cases "quorum_size (voting_peers n1) \<le> v")
    case True
    then obtain r n2 where p: "propose env NoOp (become_leader now (keys c1) n1) = Some (r, n2)"
      and bc: "broadcast_heartbeats env now i (put i n2 c1) = Some c'"
      using con n1 by (auto simp: conclude_election_def split: bind_splits)
    have "majority P (insert i {p \<in> set P. counted ?args c1 p})"
      using True votes by (intro counted_majority [OF P vp(2,1) i]) (auto simp: vote_request_def)
    moreover have "current_term n1 \<le> current_term m" if "x \<in> set P" "nodes c1 x = Some m" for x m
      using sim that n1 vp(1) by (cases "x = i") (auto simp: vote_request_def)
    ultimately have "log_move P i n1 n2 c1"
      using cand cq by (intro win_sim [OF env inv2 n1 _ _ _ _ _ p]) auto
    from broadcast_sim [OF env log_move_inv [OF this inv2 n1] P bc] show ?thesis .
  next
    case False
    have "log_quiet n1 (n1\<lparr>role := Follower\<rparr>)"
      using cand cq by (auto simp: log_quiet_def synced_def vote_le_def vote_mono_def role_le_def cand_le_def index_le_def)
    with False con n1 show ?thesis
      using quiet_move_inv [OF inv2 n1] by (auto simp: conclude_election_def)
  qed
qed

section \<open>Client operations as moves\<close>

lemma core_inv:
  assumes "logs_inv P c" and "nodes c i = Some n" and "same_core n n'" and "storage n' = storage n"
  shows "logs_inv P (put i n' c)"
  using quiet_move_inv [OF assms(1,2) same_core_log_quiet [OF assms(3,4)]] logs_invD(1) [OF assms(1,2)]
  by (simp add: member_ok_def)

lemma transfer_sim:
  assumes env: "env_storage env = S" and inv: "logs_inv P c" and P: "distinct P"
    and h: "transfer_leadership_to_healthiest env now i c = Some (r, c')"
  shows "logs_inv P c'"
proof -
  consider "c' = c" | t c1 won c2 where "broadcast_heartbeats env now i c = Some c1"
      "trigger_election env now t c1 = Some (won, c2)"
      "c' = c2 \<or> c' = c2\<lparr>nodes := (nodes c2)(i := map_option count_transfer (nodes c2 i))\<rparr>"
    using h by (auto simp: transfer_leadership_to_healthiest_def split: option.splits if_splits bind_splits)
  then show ?thesis
  proof cases
    case 2
    have inv2: "logs_inv P c2" by (rule trigger_election_sim [OF env broadcast_sim [OF env inv P 2(1)] P 2(2)])
    have "c2\<lparr>nodes := (nodes c2)(i := map_option count_transfer (nodes c2 i))\<rparr> =
        (case nodes c2 i of None \<Rightarrow> c2 | Some n \<Rightarrow> put i (count_transfer n) c2)"
      by (auto simp: put_def fun_upd_idem split: option.splits)
    moreover have "logs_inv P (case nodes c2 i of None \<Rightarrow> c2 | Some n \<Rightarrow> put i (count_transfer n) c2)"
      using inv2 core_inv [OF inv2]
      by (auto simp: same_core_def count_transfer_def split: option.splits)
    ultimately show ?thesis using 2(3) inv2 by auto
  qed (use inv in simp)
qed

lemma propose_batch_sim:
  assumes env: "env_storage env = S" and inv: "logs_inv P c" and n: "nodes c i = Some n"
    and nm: "\<forall>x \<in> set cs. \<forall>mm. x \<noteq> Membership mm" and h: "propose_batch env cs n = Some (r, n')"
  shows "logs_inv P (put i n' c)"
proof (cases "role n = Leader")
  case True
  have mem: "synced n" "indexed (log n)" "node_id n = i"
    using logs_invD(1) [OF inv n] by (auto simp: member_ok_def wf_log_def voters_ok_def)
  let ?es = "number_entries (current_term n) (length (log n)) cs"
  have ne: "?es \<noteq> [] \<longleftrightarrow> cs \<noteq> []" by (cases cs) simp_all
  from propose_batch_healthy [OF env mem(1,2) True h] have "?es \<noteq> []" "synced n'"
    "same_core (n\<lparr>log := log n @ ?es, match_index := (match_index n)(i \<mapsto> length (log n @ ?es) - 1)\<rparr>) n'"
    using mem(3) ne by simp_all
  then have "log_move P i n n' c"
    by (intro log_move.append_move [OF True _ _ indexed_number_entries [OF mem(2)] no_membership_number [OF nm]])
      (auto simp: terms_number_entries)
  then show ?thesis by (rule log_move_inv [OF _ inv n])
next
  case False
  with h have "n' = n" by (simp add: propose_batch_def is_leader_def)
  then show ?thesis by (intro core_inv [OF inv n]) auto
qed

lemma propose_data_mutation_sim:
  assumes env: "env_storage env = S" and inv: "logs_inv P c" and n: "nodes c i = Some n"
    and h: "propose_data_mutation env now m n = Some (r, n')"
  shows "logs_inv P (put i n' c)"
proof (cases "role n = Leader")
  case True
  have mem: "synced n" "indexed (log n)" "node_id n = i"
    using logs_invD(1) [OF inv n] by (auto simp: member_ok_def wf_log_def voters_ok_def)
  from propose_data_mutation_healthy [OF env mem(1,2) True h] mem
  have "log_move P i n n' c"
    by (intro log_move.append_move [OF True, of "[\<lparr>le_term = current_term n, le_index = length (log n), le_command = Data m\<rparr>]"])
      (auto simp: indexed_append_iff)
  then show ?thesis by (rule log_move_inv [OF _ inv n])
next
  case False
  with h have "n' = n" by (simp add: propose_data_mutation_def is_leader_def)
  then show ?thesis by (intro core_inv [OF inv n]) auto
qed

lemma cluster_propose_sim:
  assumes env: "env_storage env = S" and inv: "logs_inv P c" and P: "distinct P"
    and h: "cluster_propose env now m c = Some (r, c')"
  shows "logs_inv P c'"
proof -
  obtain l c1 leader leader' q where
    start: "c1 = c \<or> (\<exists>b. trigger_election env now l c = Some (b, c1))"
    and l: "nodes c1 l = Some leader" "propose_data_mutation env now m leader = Some (q, leader')"
    and c': "c' = put l leader' c1 \<or> broadcast_heartbeats env now l (put l leader' c1) = Some c'"
    using h
    by (auto simp: cluster_propose_def split: option.splits list.splits sum.splits bind_splits) blast+
  have "logs_inv P c1" using start inv trigger_election_sim [OF env inv P] by blast
  from propose_data_mutation_sim [OF env this l] c' show ?thesis using broadcast_sim [OF env _ P] by blast
qed

lemma confirm_peers_sim:
  "confirm_peers now lid t q req ps reached c = (r, c') \<Longrightarrow> logs_inv P c \<Longrightarrow> logs_inv P c'"
proof (induction ps arbitrary: reached c)
  case (Cons p ps)
  show ?case
  proof (cases "p = lid \<or> nodes c p = None \<or> nodes c lid = None")
    case True
    with Cons show ?thesis by (auto split: option.splits)
  next
    case False
    then obtain n leader where n: "nodes c p = Some n" and l: "nodes c lid = Some leader"
      and ne: "p \<noteq> lid" by auto
    obtain conf n' where hr: "handle_read_index_request now req n = (conf, n')" by (rule prod.exhaust)
    obtain res eng where hc: "handle_confirmation now conf t q (read_engine leader) = (res, eng)"
      by (rule prod.exhaust)
    define c1 where "c1 = put lid (leader\<lparr>read_engine := eng\<rparr>) (put p n' c)"
    have "logs_inv P (put p n' c)"
      by (rule core_inv [OF Cons.prems(2) n])
        (use hr in \<open>auto simp: handle_read_index_request_def same_core_def split: if_splits\<close>)
    then have inv1: "logs_inv P c1"
      unfolding c1_def by (rule core_inv) (use l ne in \<open>auto simp: same_core_def\<close>)
    show ?thesis
    proof (cases res)
      case (Inl e)
      with Cons.prems n l ne hr hc c1_def inv1 show ?thesis by simp
    next
      case (Inr b)
      with Cons.prems n l ne hr hc
      have "confirm_peers now lid t q req ps (reached \<or> b) c1 = (r, c')" by (simp add: c1_def)
      from Cons.IH [OF this inv1] show ?thesis .
    qed
  qed
qed simp

lemma engine_inv:
  "logs_inv P c \<Longrightarrow> nodes c i = Some n \<Longrightarrow> logs_inv P (put i (n\<lparr>read_engine := e\<rparr>) c)"
  by (rule core_inv) (auto simp: same_core_def)

lemma cluster_read_index_sim:
  assumes inv: "logs_inv P c" and "nodes c lid = Some leader"
    and h: "cluster_read_index now ctx poll lid leader c = Some (r, c')"
  shows "logs_inv P c'"
proof -
  obtain req eng where st: "start_read_index_round now ctx (current_term leader) lid (read_engine leader) = (req, eng)"
    by (rule prod.exhaust)
  let ?c1 = "put lid (leader\<lparr>read_engine := eng\<rparr>) c"
  let ?q = "quorum_size (voting_peers leader)"
  obtain res c2 where cp: "confirm_peers now lid (current_term leader) ?q req (voting_peers leader)
      (?q \<le> 1) ?c1 = (res, c2)" by (rule prod.exhaust)
  have inv2: "logs_inv P c2" by (rule confirm_peers_sim [OF cp engine_inv [OF inv assms(2)]])
  have "c' = c2 \<or> (\<exists>n e. nodes c2 lid = Some n \<and> c' = put lid (n\<lparr>read_engine := e\<rparr>) c2)"
    using h st cp
    by (cases res; auto simp: cluster_read_index_def read_on_leader_def Let_def split: if_splits bind_splits)
  then show ?thesis using inv2 engine_inv by blast
qed

lemma cluster_linearizable_read_sim:
  assumes env: "env_storage env = S" and inv: "logs_inv P c" and P: "distinct P"
    and h: "cluster_linearizable_read env now ctx poll mode c = Some (r, c')"
  shows "logs_inv P c'"
proof (cases "get_leader c")
  case None
  with h inv show ?thesis by (simp add: cluster_linearizable_read_def)
next
  case (Some lid)
  with h obtain leader where l: "nodes c lid = Some leader"
    by (auto simp: cluster_linearizable_read_def split: bind_splits)
  show ?thesis
  proof (cases mode)
    case ReadIndex
    with h Some l have "cluster_read_index now ctx poll lid leader c = Some (r, c')"
      by (simp add: cluster_linearizable_read_def)
    from cluster_read_index_sim [OF inv l this] show ?thesis .
  next
    case (LeaseRead lease drift)
    with h Some l have "cluster_lease_read env now poll lid lease drift c = Some (r, c')"
      by (simp add: cluster_linearizable_read_def)
    then consider "c' = c" | c1 n e where "broadcast_heartbeats env now lid c = Some c1"
        "nodes c1 lid = Some n" "c' = put lid (n\<lparr>read_engine := e\<rparr>) c1"
      by (auto simp: cluster_lease_read_def read_on_leader_def
          split: sum.splits prod.splits bind_splits)
    then show ?thesis
    proof cases
      case 2
      from engine_inv [OF broadcast_sim [OF env inv P 2(1)] 2(2)] 2(3) show ?thesis by simp
    qed (use inv in simp)
  qed
qed

section \<open>New nodes\<close>

lemma new_node:
  assumes env: "env_storage env = S" and f: "fresh st" and h: "try_with_storage env now i peers st = Inr n"
  shows "node_id n = i \<and> role n = Follower \<and> voting_peers n = List.insert i (remdups peers) \<and>
    current_term n = 0 \<and> log n = [sentinel] \<and> commit_index n = 0 \<and> match_index n = Map.empty \<and> synced n"
proof -
  note fr = fresh_new [OF f]
  then have "load_log_entries S st 0 = Inr [sentinel]" "load_hard_state S st = Inr hard_state_default"
    "load_progress S st = Inr progress_default"
    using healthy_load [of st] by simp_all
  then have n: "node_id n = i" "role n = Follower" "voting_peers n = List.insert i (remdups peers)"
    "current_term n = 0" "voted_for n = None" "log n = [sentinel]" "commit_index n = 0"
    "match_index n = Map.empty" "storage n = st"
    using h env by (auto simp: try_with_storage_def hard_state_default_def progress_default_def)
  moreover have "synced n"
    using n fr by (simp add: synced_def hard_state_default_def progress_default_def)
  ultimately show ?thesis by simp
qed

lemma wf_sentinel: "wf_log [sentinel]" "le_command sentinel = NoOp" "le_term sentinel = 0"
  by (simp_all add: wf_log_def indexed_def sentinel_def)

lemma wf_prefix_sentinel: "wf_log l \<Longrightarrow> prefix [sentinel] l"
  by (cases l) (auto simp: wf_log_def)

lemma node_logs_insert: "node_logs (cluster_insert i n c) = (node_logs c)(i \<mapsto> log n)"
  by (auto simp: node_logs_def cluster_insert_def)

lemma elected_insert:
  assumes "elected P c l t" and "nodes c i = None"
  shows "elected P (cluster_insert i n c) l t"
proof -
  obtain Q where Q: "majority P Q" "\<forall>x \<in> Q. \<exists>m. nodes c x = Some m \<and> backs l t m"
    using assms(1) by (auto simp: elected_def backed_def)
  have keep: "nodes (cluster_insert i n c) x = Some m" if "nodes c x = Some m" for x m
    using that assms(2) by (auto simp: cluster_insert_def)
  from Q have "backed P (cluster_insert i n c) l t" unfolding backed_def using keep by blast
  moreover obtain m where "nodes c l = Some m" "t < current_term m \<or> current_term m = t \<and> role m \<noteq> Candidate"
    using assms(1) by (auto simp: elected_def)
  ultimately show ?thesis using keep unfolding elected_def by blast
qed

lemma matching_sentinel:
  assumes mt: "matching f" and wf: "wf_logs f"
  shows "matching (f(i \<mapsto> [sentinel]))"
  unfolding matching_def
proof (intro allI impI)
  fix j k m n a b
  assume m: "(f(i \<mapsto> [sentinel])) j = Some m" and n: "(f(i \<mapsto> [sentinel])) k = Some n"
    and ab: "a \<le> b" "a < length m" "b < length n" "le_term (m ! a) = le_term (n ! b)"
  have w: "wf_log m" "wf_log n" using m n wf wf_sentinel(1) by (auto simp: wf_logs_def split: if_splits)
  show "prefix (take (Suc a) m) n"
  proof (cases "a = 0")
    case True
    with w(1) have "take (Suc a) m = [sentinel]" by (cases m) (auto simp: wf_log_def)
    with wf_prefix_sentinel [OF w(2)] show ?thesis by simp
  next
    case False
    with m n ab have "j \<noteq> i" "k \<noteq> i" by (auto split: if_splits)
    with m n matchingD [OF mt _ _ ab] show ?thesis by simp
  qed
qed

lemma insert_other: "nodes (cluster_insert i n c) j = Some m \<Longrightarrow> j \<noteq> i \<Longrightarrow> nodes c j = Some m"
  by (simp add: cluster_insert_def)

lemma lead_ok_insert:
  assumes ok: "lead_ok c" and i: "nodes c i = None" and n: "role n \<noteq> Leader" "log n = [sentinel]"
  shows "lead_ok (cluster_insert i n c)"
  unfolding lead_ok_def
proof (intro allI impI conjI)
  fix j m assume m: "nodes (cluster_insert i n c) j = Some m" "role m = Leader"
  then have j: "nodes c j = Some m" using n(1) by (cases "j = i") (auto simp: cluster_insert_def)
  note ld = lead_okD [OF ok j m(2)]
  have "node_logs c i = None" using i by (simp add: node_logs_def)
  then show "leads (node_logs (cluster_insert i n c)) (current_term m) (log m) (match_index m)"
    unfolding node_logs_insert n(2) by (rule leads_sentinel [OF ld(1)])
  fix k m' assume "nodes (cluster_insert i n c) k = Some m'" "role m' = Leader"
  then have "nodes c k = Some m'" using n(1) by (cases "k = i") (auto simp: cluster_insert_def)
  from ld(2) [OF this \<open>role m' = Leader\<close>] show "k = j" .
qed

lemma sentinel_committed:
  assumes inv: "logs_inv P c"
  shows "committed P (node_logs c) [sentinel]"
proof -
  have "keys c \<noteq> []" using inv by (simp add: logs_inv_def)
  then have "hd (keys c) \<in> dom (nodes c)" using logs_invD(2) [OF inv] by simp
  then obtain k where k: "nodes c (hd (keys c)) = Some k" by blast
  then have "committed P (node_logs c) (take (Suc (commit_index k)) (log k))"
    using logs_invD(6) [OF inv] by (simp add: commit_ok_def)
  moreover have "prefix [sentinel] (take (Suc (commit_index k)) (log k))"
    using wf_prefix_sentinel [of "log k"] logs_invD(1) [OF inv k]
    by (cases "log k") (auto simp: member_ok_def)
  ultimately show ?thesis by (rule committed_prefix)
qed

lemma commit_ok_insert:
  assumes inv: "logs_inv P c" and i: "nodes c i = None" and n: "log n = [sentinel]" "commit_index n = 0"
  shows "commit_ok P (cluster_insert i n c)"
  unfolding commit_ok_def
proof (intro allI impI)
  fix j m assume m: "nodes (cluster_insert i n c) j = Some m"
  have "safe P (node_logs (cluster_insert i n c)) w" if "safe P (node_logs c) w" for w
    unfolding node_logs_insert n(1)
    by (rule safe_upd [OF that]) (use i in \<open>auto simp: node_logs_def sentinel_def\<close>)
  then have com: "committed P (node_logs (cluster_insert i n c)) u" if "committed P (node_logs c) u" for u
    using that unfolding committed_def by blast
  show "committed P (node_logs (cluster_insert i n c)) (take (Suc (commit_index m)) (log m))"
  proof (cases "j = i")
    case False
    with insert_other [OF m] logs_invD(6) [OF inv] com show ?thesis by (auto simp: commit_ok_def)
  next
    case True
    with m n com [OF sentinel_committed [OF inv]] show ?thesis by (simp add: cluster_insert_def)
  qed
qed

lemma elect_ok_insert:
  assumes ok: "elect_ok P c" and i: "nodes c i = None" and n: "log n = [sentinel]"
  shows "elect_ok P (cluster_insert i n c)"
  unfolding elect_ok_def
proof (intro allI impI)
  fix j l a assume l: "node_logs (cluster_insert i n c) j = Some l" and a: "0 < a" "a < length l"
  then have "node_logs c j = Some l" using n by (cases "j = i") (auto simp: node_logs_insert)
  from elect_okD [OF ok this a] elected_insert [OF _ i]
  show "\<exists>x. elected P (cluster_insert i n c) x (le_term (l ! a))" by blast
qed

lemma add_node_inv:
  assumes inv: "logs_inv P c" and i: "nodes c i = None"
    and n: "voters_ok P i n" "role n \<noteq> Leader" "log n = [sentinel]" "commit_index n = 0"
      "match_index n = Map.empty" "synced n"
  shows "logs_inv P (cluster_insert i n c)"
proof -
  let ?c = "cluster_insert i n c"
  have keys: "set (keys ?c) = insert i (set (keys c))" by (auto simp: cluster_insert_def)
  have "member_ok P ?c j m" if m: "nodes ?c j = Some m" for j m
  proof (cases "j = i")
    case True
    with m n show ?thesis by (auto simp: member_ok_def cluster_insert_def wf_sentinel)
  next
    case False
    with logs_invD(1) [OF inv insert_other [OF m]] show ?thesis by (auto simp: member_ok_def known_def keys)
  qed
  moreover have "dom (nodes ?c) = set (keys ?c)" "keys ?c \<noteq> []"
    using logs_invD(2) [OF inv] by (auto simp: cluster_insert_def)
  moreover have "matching (node_logs ?c)"
    unfolding node_logs_insert n(3) by (rule matching_sentinel [OF logs_invD(3,7) [OF inv]])
  ultimately show ?thesis
    using elect_ok_insert [OF logs_invD(4) [OF inv] i n(3)] lead_ok_insert [OF logs_invD(5) [OF inv] i n(2,3)]
      commit_ok_insert [OF inv i n(3,4)]
    by (simp add: logs_inv_def)
qed

lemma add_learner_sim:
  assumes env: "env_storage env = S" and inv: "logs_inv P c" and g: "i \<notin> set P" "nodes c i = None" "fresh st"
    and h: "add_learner env now i st c = Some c'"
  shows "logs_inv P c'"
proof -
  obtain n where w: "try_with_storage env now i [] st = Inr n"
    and c': "c' = cluster_insert i (n\<lparr>role := Learner\<rparr>) c"
    using h by (auto simp: add_learner_def new_learner_def dest: with_storageD split: bind_splits)
  from new_node [OF env g(3) w] show ?thesis
    unfolding c' by (intro add_node_inv [OF inv g(2)]) (auto simp: voters_ok_def g(1) synced_def)
qed

text \<open>A cluster as \<^verbatim>\<open>RaftCluster::new\<close> leaves it satisfies the invariant.\<close>

lemma insert_nodes_nodes:
  assumes "insert_nodes env now P xs c = Some c'"
  shows "(\<forall>i n. nodes c' i = Some n \<longrightarrow>
      nodes c i = Some n \<or> (\<exists>st. (i, st) \<in> set xs \<and> try_with_storage env now i P st = Inr n)) \<and>
    dom (nodes c') = dom (nodes c) \<union> fst ` set xs \<and> set (keys c') = set (keys c) \<union> fst ` set xs"
  using assms
proof (induction xs arbitrary: c)
  case (Cons x xs)
  obtain i st where x: "x = (i, st)" by (rule prod.exhaust)
  with Cons.prems obtain n where w: "try_with_storage env now i P st = Inr n"
    and rest: "insert_nodes env now P xs (cluster_insert i n c) = Some c'"
    by (auto dest: with_storageD split: bind_splits)
  have new: "nodes (cluster_insert i n c) = (nodes c)(i \<mapsto> n)"
    "set (keys (cluster_insert i n c)) = insert i (set (keys c))"
    by (auto simp: cluster_insert_def)
  note ih = Cons.IH [OF rest, unfolded new]
  have "nodes c j = Some m \<or> (\<exists>st. (j, st) \<in> set (x # xs) \<and> try_with_storage env now j P st = Inr m)"
    if "nodes c' j = Some m" for j m
  proof -
    from ih that have "((nodes c)(i \<mapsto> n)) j = Some m \<or>
        (\<exists>st. (j, st) \<in> set xs \<and> try_with_storage env now j P st = Inr m)" by blast
    with w x show ?thesis by (cases "j = i") auto
  qed
  moreover have "dom (nodes c') = dom (nodes c) \<union> fst ` set (x # xs)"
    "set (keys c') = set (keys c) \<union> fst ` set (x # xs)"
    using ih x by (simp_all only: dom_fun_upd) auto
  ultimately show ?case by blast
qed simp

lemma new_cluster_inv:
  assumes P: "distinct P" "P \<noteq> []" and dom: "dom (nodes c) = set P" "set (keys c) = set P"
    and n: "\<And>i n. nodes c i = Some n \<Longrightarrow> voters_ok P i n \<and> role n = Follower \<and> log n = [sentinel] \<and>
      commit_index n = 0 \<and> match_index n = Map.empty \<and> synced n"
  shows "logs_inv P c"
proof -
  have f: "l = [sentinel]" if l: "node_logs c i = Some l" for i l
  proof -
    from l obtain m where "nodes c i = Some m" "l = log m" by (auto simp: node_logs_def)
    with n [OF this(1)] show ?thesis by simp
  qed
  have "majority P (set P)"
    using P by (cases P) (auto simp: majority_def quorum_size_def distinct_card)
  moreover have "\<exists>m. node_logs c x = Some m \<and> prefix [sentinel] m" if "x \<in> set P" for x
  proof -
    from that dom(1) obtain m where "nodes c x = Some m" by blast
    with n [OF this] show ?thesis by (simp add: node_logs_def)
  qed
  ultimately have "stored P (node_logs c) [sentinel]" unfolding stored_def by blast
  then have "safe P (node_logs c) [sentinel]"
    unfolding safe_def by (auto dest!: f)
  then have "committed P (node_logs c) [sentinel]" unfolding committed_def by blast
  then have "commit_ok P c" unfolding commit_ok_def by (auto dest!: n)
  moreover have "member_ok P c i m" if "nodes c i = Some m" for i m
    using n [OF that] by (simp add: member_ok_def wf_sentinel)
  moreover have "matching (node_logs c)"
    unfolding matching_def by (auto dest!: f)
  moreover have "elect_ok P c" unfolding elect_ok_def by (auto dest!: f)
  moreover have "lead_ok c" unfolding lead_ok_def by (auto dest!: n)
  moreover have "keys c \<noteq> []" using dom(2) P(2) by auto
  ultimately show ?thesis using dom by (simp add: logs_inv_def)
qed

section \<open>Runs\<close>

lemma on_node_sim:
  assumes "on_node i f c = Some c'" and "logs_inv P c"
    and "\<And>n n'. nodes c i = Some n \<Longrightarrow> f n = Some n' \<Longrightarrow> logs_inv P (put i n' c)"
  shows "logs_inv P c'"
  using assms by (auto simp: on_node_def split: bind_splits)

lemma recover_core:
  assumes "env_storage env = S" and "synced n"
  shows "same_core n (fst (snd (recover_node_state env n sm))) \<and>
    storage (fst (snd (recover_node_state env n sm))) = storage n"
proof -
  have "healthy (storage n)" "pg_commit_index (pg (storage n)) = commit_index n"
    using assms(2) by (simp_all add: synced_def)
  with healthy_load(2,3) show ?thesis
    using assms(1) by (auto simp: recover_node_state_def same_core_def split: sum.splits prod.splits)
qed

lemma node_read_core:
  assumes "node_linearizable_read now ctx poll mode n = Some (r, n')"
  shows "same_core n n' \<and> storage n' = storage n"
proof -
  have "n' = n \<or> (\<exists>e. n' = n\<lparr>read_engine := e\<rparr>)"
    using assms by (auto simp: node_linearizable_read_def Let_def
        split: if_splits linearizable_read_mode.splits sum.splits prod.splits bind_splits)
  then show ?thesis by (auto simp: same_core_def)
qed

end

text \<open>The runs without storage faults and without entries that no leader has sent.\<close>

fun faultless :: "('m, 'st, 'sm) action \<Rightarrow> bool" where
  "faultless (DeliverAppend now i args) = False"
| "faultless (StorageFault i st) = False"
| "faultless _ = True"

definition orderly ::
  "('st \<Rightarrow> bool) \<Rightarrow> nat list \<Rightarrow> ('m, 'st, 'sm) action \<Rightarrow> ('m, 'st, 'sm) raft_cluster \<Rightarrow> bool" where
  "orderly fresh P a c \<longleftrightarrow> faultless a \<and> static_voters (\<lambda>_ _. False) fresh P a c"

context live_storage
begin

lemma perform_sim:
  assumes env: "env_storage env = S" and P: "distinct P" and inv: "logs_inv P c"
    and g: "orderly fresh P a c" and h: "perform env a c = Some c'"
  shows "logs_inv P c'"
proof (cases a)
  case (Restart now i peers)
  show ?thesis
  proof (rule on_node_sim [OF h [unfolded Restart perform.simps] inv])
    fix n n' assume n: "nodes c i = Some n"
      and "(case try_with_storage env now i peers (storage n) of Inl e \<Rightarrow> None | Inr m \<Rightarrow> Some m) = Some n'"
    then have w: "try_with_storage env now i peers (storage n) = Inr n'" by (simp split: sum.splits)
    have "i \<in> set P" "insert i (set peers) = set P" using g Restart by (simp_all add: orderly_def)
    with logs_invD(1) [OF inv n] show "logs_inv P (put i n' c)"
      by (intro quiet_move_inv [OF inv n] restart_quiet [OF env _ w])
        (auto simp: member_ok_def voters_ok_def wf_log_def)
  qed
next
  case (ProposeBatch i cs)
  show ?thesis
    by (rule on_node_sim [OF h [unfolded ProposeBatch perform.simps] inv])
      (use g ProposeBatch in \<open>auto simp: orderly_def intro: propose_batch_sim [OF env inv]\<close>)
next
  case (DeliverVote now i args)
  show ?thesis
  proof (rule on_node_sim [OF h [unfolded DeliverVote perform.simps] inv])
    fix n n' assume n: "nodes c i = Some n" and "map_option snd (handle_request_vote env now args n) = Some n'"
    then obtain r where "handle_request_vote env now args n = Some (r, n')" by auto
    from handle_request_vote_quiet [OF env _ this] logs_invD(1) [OF inv n]
    show "logs_inv P (put i n' c)" by (intro quiet_move_inv [OF inv n]) (simp add: member_ok_def)
  qed
next
  case (NodeRead now i ctx poll mode)
  show ?thesis
    by (rule on_node_sim [OF h [unfolded NodeRead perform.simps] inv])
      (auto intro!: core_inv [OF inv] dest: node_read_core)
next
  case (InstallStateMachine i sm)
  show ?thesis
    by (rule on_node_sim [OF h [unfolded InstallStateMachine perform.simps] inv])
      (auto intro!: core_inv [OF inv] simp: set_replicated_sm_def same_core_def)
next
  case (PruneTimeouts now limit i)
  show ?thesis
    by (rule on_node_sim [OF h [unfolded PruneTimeouts perform.simps] inv])
      (auto intro!: core_inv [OF inv] simp: same_core_def)
next
  case (RecoverState i sm)
  show ?thesis
  proof (rule on_node_sim [OF h [unfolded RecoverState perform.simps] inv])
    fix n n' assume n: "nodes c i = Some n" and "Some (fst (snd (recover_node_state env n sm))) = Some n'"
    with recover_core [OF env, of n sm] logs_invD(1) [OF inv n] show "logs_inv P (put i n' c)"
      by (intro core_inv [OF inv n]) (auto simp: member_ok_def)
  qed
qed (use h g in \<open>auto simp: orderly_def intro: broadcast_sim [OF env inv P] trigger_election_sim [OF env inv P]
      transfer_sim [OF env inv P] cluster_propose_sim [OF env inv P] add_learner_sim [OF env inv]
      cluster_linearizable_read_sim [OF env inv P]\<close>)

lemma run_logs_inv:
  assumes env: "env_storage env = S" and P: "distinct P" and "logs_inv P c0"
    and "run_ops (guarded (orderly fresh P) (perform env)) acts c0 = Some c"
  shows "logs_inv P c"
  using assms(4,3)
  by (rule run_ops_invariant) (auto simp: guarded_def intro: perform_sim [OF env P] split: if_splits)

lemma fresh_cluster_inv:
  assumes env: "env_storage env = S" and P: "distinct P" "P \<noteq> []"
    and h: "insert_nodes env now P xs empty_cluster = Some c" and xs: "fst ` set xs = set P" "\<forall>x \<in> set xs. fresh (snd x)"
  shows "logs_inv P c"
proof (rule new_cluster_inv [OF P])
  note ins = insert_nodes_nodes [OF h]
  show "dom (nodes c) = set P" "set (keys c) = set P" using ins xs(1) by (simp_all add: empty_cluster_def)
  fix i n assume "nodes c i = Some n"
  then obtain st where st: "(i, st) \<in> set xs" "try_with_storage env now i P st = Inr n"
    using ins unfolding empty_cluster_def by simp blast
  then have "fresh st" "i \<in> set P" using xs by force+
  with new_node [OF env _ st(2)] show "voters_ok P i n \<and> role n = Follower \<and> log n = [sentinel] \<and>
      commit_index n = 0 \<and> match_index n = Map.empty \<and> synced n"
    by (auto simp: voters_ok_def insert_absorb)
qed

end

interpretation ml: live_storage mem_ops ms_hard_state ms_progress ms_log mem_healthy mem_fresh
  by unfold_locales (simp add: mem_fresh_def mem_new_def mem_healthy_def)

lemma orderly_run_inv:
  assumes "env_storage env = mem_ops" and "distinct P" and "P \<noteq> []" and "cluster_new env now P = Some c0"
    and "run_ops (guarded (orderly mem_fresh P) (perform env)) acts c0 = Some c"
  shows "ml.logs_inv P c"
proof (rule ml.run_logs_inv [OF assms(1,2) _ assms(5)])
  show "ml.logs_inv P c0"
    by (rule ml.fresh_cluster_inv [OF assms(1-3) assms(4) [unfolded cluster_new_def]])
      (auto simp: mem_fresh_def image_iff)
qed




definition orderly_run :: "(nat, nat memory_raft_storage, nat list) action list" where
  "orderly_run =
     [InstallStateMachine 1 [], InstallStateMachine 2 [], Elect 0 1, ClientPropose 0 7,
      Restart 0 3 [1, 2], Elect 0 2]"

lemma orderly_run_ends:
  "\<exists>c0 c m n. cluster_new demo_env 0 [1, 2, 3] = Some c0 \<and>
     run_ops (guarded (orderly mem_fresh [1, 2, 3]) (perform demo_env)) orderly_run c0 = Some c \<and>
     nodes c 1 = Some m \<and> role m = Follower \<and> map le_term (log m) = [0, 1, 1, 2] \<and> commit_index m = 2 \<and>
     nodes c 2 = Some n \<and> role n = Leader \<and> map le_term (log n) = [0, 1, 1, 2] \<and> commit_index n = 3"
proof -
  have "\<exists>c0 c. cluster_new demo_env 0 [1, 2, 3] = Some c0 \<and>
      run_ops (guarded (orderly mem_fresh [1, 2, 3]) (perform demo_env)) orderly_run c0 = Some c \<and>
      observe 1 c = Some (Follower, 2, [0, 1, 1, 2], 2) \<and> observe 2 c = Some (Leader, 2, [0, 1, 1, 2], 3)"
    by (simp add: orderly_run_def guarded_def orderly_def on_node_def observe_def demo_env_def
        node_eval cluster_eval pending_simps insert_commute Let_def)
  then show ?thesis by (auto dest!: observeD)
qed




end
