(* ===== verification/Durable_Storage.thy ===== *)
theory Durable_Storage
  imports Raft_Storage "HOL-Library.AList" "HOL-Library.Monad_Syntax" "HOL-Library.Char_ord" "HOL-Library.List_Lexorder"
begin

text \<open>
  The durable storage engine, \<^verbatim>\<open>DurableRaftStorage\<close> of \<^verbatim>\<open>src/src/consensus/storage.rs\<close>:
  metadata files replaced atomically, a segmented append-only log, truncation, prefix
  compaction, and recovery when the directory is opened again.

  The file system is a record \<open>disk\<close>. Every fallible call takes the next outcome from
  \<open>io_plan\<close>, and a failing write leaves a prefix of its bytes behind, so a theorem that
  quantifies over the plan covers every pattern of I/O errors. The results of
  \<^verbatim>\<open>sync_all\<close> on directories are ignored by the code and have no step here. The codec
  and the checksum are third-party code and form the record \<open>codec\<close>.
\<close>

section \<open>The file system\<close>

datatype io_outcome = Done | Fails nat

datatype meta_file = StateFile | ProgressFile | SnapshotFile

datatype file_id = Meta meta_file | Tmp meta_file | LegacyLog

record disk =
  files :: "file_id \<rightharpoonup> byte list"
  rlogs :: "(string \<times> byte list) list"
  io_plan :: "io_outcome list"

type_synonym 'a io = "disk \<Rightarrow> 'a res \<times> disk"

definition io_return :: "'a \<Rightarrow> 'a io" where
  "io_return x d = (Inr x, d)"

definition io_fail :: "hnsqr_error \<Rightarrow> 'a io" where
  "io_fail e d = (Inl e, d)"

definition io_then :: "'a io \<Rightarrow> ('a \<Rightarrow> 'b io) \<Rightarrow> 'b io" where
  "io_then f g d = (case f d of (Inl e, d') \<Rightarrow> (Inl e, d') | (Inr x, d') \<Rightarrow> g x d')"

definition of_res :: "'a res \<Rightarrow> 'a io" where
  "of_res r d = (r, d)"

text \<open>The next outcome of the plan; an exhausted plan means that calls succeed.\<close>

definition next_io :: "disk \<Rightarrow> io_outcome \<times> disk" where
  "next_io d = (case io_plan d of [] \<Rightarrow> (Done, d) | x # xs \<Rightarrow> (x, d\<lparr>io_plan := xs\<rparr>))"

text \<open>A call with no effect on file contents: opening for reading, \<^verbatim>\<open>sync_all\<close>, \<^verbatim>\<open>create_dir_all\<close>.\<close>

definition io_tick :: "unit io" where
  "io_tick d = (case next_io d of (Done, d') \<Rightarrow> (Inr (), d') | (Fails k, d') \<Rightarrow> (Inl (IoError ''io''), d'))"

text \<open>A call that changes the disk when it succeeds.\<close>

definition io_modify :: "(disk \<Rightarrow> disk) \<Rightarrow> unit io" where
  "io_modify f = io_then io_tick (\<lambda>_ d. (Inr (), f d))"

text \<open>\<^verbatim>\<open>write_all\<close> through \<open>app\<close>; a failure leaves a prefix behind.\<close>

definition io_write :: "(byte list \<Rightarrow> disk \<Rightarrow> disk) \<Rightarrow> byte list \<Rightarrow> unit io" where
  "io_write app bs d =
     (case next_io d of
        (Done, d') \<Rightarrow> (Inr (), app bs d')
      | (Fails k, d') \<Rightarrow> (Inl (IoError ''io''), app (take k bs) d'))"

definition set_file :: "file_id \<Rightarrow> byte list option \<Rightarrow> disk \<Rightarrow> disk" where
  "set_file f c d = d\<lparr>files := (files d)(f := c)\<rparr>"

definition append_file :: "file_id \<Rightarrow> byte list \<Rightarrow> disk \<Rightarrow> disk" where
  "append_file f bs d = set_file f (Some (case files d f of None \<Rightarrow> bs | Some old \<Rightarrow> old @ bs)) d"

definition set_rlog :: "string \<Rightarrow> byte list \<Rightarrow> disk \<Rightarrow> disk" where
  "set_rlog s bs d = d\<lparr>rlogs := AList.update s bs (rlogs d)\<rparr>"

definition append_rlog :: "string \<Rightarrow> byte list \<Rightarrow> disk \<Rightarrow> disk" where
  "append_rlog s bs d =
     set_rlog s (case map_of (rlogs d) s of None \<Rightarrow> bs | Some old \<Rightarrow> old @ bs) d"

definition remove_rlog :: "string \<Rightarrow> disk \<Rightarrow> disk" where
  "remove_rlog s d = d\<lparr>rlogs := AList.delete s (rlogs d)\<rparr>"

definition read_file :: "file_id \<Rightarrow> byte list io" where
  "read_file f = io_then io_tick (\<lambda>_. io_then io_tick (\<lambda>_ d.
     (case files d f of None \<Rightarrow> (Inl (IoError ''not found''), d) | Some bs \<Rightarrow> (Inr bs, d))))"

definition read_rlog :: "string \<Rightarrow> byte list io" where
  "read_rlog s = io_then io_tick (\<lambda>_. io_then io_tick (\<lambda>_ d.
     (case map_of (rlogs d) s of None \<Rightarrow> (Inl (IoError ''not found''), d) | Some bs \<Rightarrow> (Inr bs, d))))"

text \<open>Opening an existing file for writing.\<close>

definition open_existing :: "string \<Rightarrow> unit io" where
  "open_existing s = io_then io_tick (\<lambda>_ d.
     (if map_of (rlogs d) s = None then (Inl (IoError ''not found''), d) else (Inr (), d)))"

section \<open>Names of segment files\<close>

definition digit :: "nat \<Rightarrow> char" where
  "digit k = char_of (48 + k)"

fun decimal :: "nat \<Rightarrow> string" where
  "decimal k = (if k < 10 then [digit k] else decimal (k div 10) @ [digit (k mod 10)])"

declare decimal.simps [simp del]

definition segment_name :: "nat \<Rightarrow> string" where
  "segment_name i = (let s = decimal i in replicate (16 - length s) (CHR ''0'') @ s @ ''.rlog'')"

definition is_rlog :: "string \<Rightarrow> bool" where
  "is_rlog s \<longleftrightarrow> 5 < length s \<and> drop (length s - 5) s = ''.rlog''"

section \<open>The engine\<close>

record 'm codec =
  crc32 :: "byte list \<Rightarrow> 32 word"
  ser_hs :: "raft_hard_state \<Rightarrow> byte list option"
  de_hs :: "byte list \<Rightarrow> raft_hard_state option"
  ser_pg :: "raft_persistent_progress \<Rightarrow> byte list option"
  de_pg :: "byte list \<Rightarrow> raft_persistent_progress option"
  ser_meta :: "raft_snapshot_meta \<Rightarrow> byte list option"
  de_meta :: "byte list \<Rightarrow> raft_snapshot_meta option"
  ser_entry :: "'m raft_log_entry \<Rightarrow> byte list option"
  de_entry :: "byte list \<Rightarrow> 'm raft_log_entry option"

record log_segment_meta =
  seg_start_index :: nat
  seg_end_index :: nat
  seg_entry_count :: nat
  seg_byte_size :: nat
  seg_file_path :: string

record 'm durable_raft_storage =
  ds_disk :: disk
  ds_segments :: "log_segment_meta list"
  max_entries_per_segment :: nat
  max_segment_bytes :: nat
  memory_cache :: "'m memory_raft_storage"

subsection \<open>Recovery\<close>

text \<open>The loop that decodes frames to the end of a buffer: entries, valid bytes, first error.\<close>

function (sequential) scan_frames ::
  "(byte list \<Rightarrow> 32 word) \<Rightarrow> (byte list \<Rightarrow> 'a option) \<Rightarrow> byte list \<Rightarrow>
     'a list \<times> nat \<times> hnsqr_error option" where
  "scan_frames crc de buf =
     (if buf = [] then ([], 0, None)
      else case decode_framed_record crc de buf of
             Inl e \<Rightarrow> ([], 0, Some e)
           | Inr (x, n) \<Rightarrow>
               (case scan_frames crc de (drop n buf) of (xs, k, e) \<Rightarrow> (x # xs, n + k, e)))"
  by pat_completeness auto

termination
  by (relation "measure (\<lambda>(crc, de, buf). length buf)")
    (auto dest!: decode_sound(1) simp: RAFT_FRAME_HEADER_SIZE_def)

declare scan_frames.simps [simp del]

definition recover_meta ::
  "(byte list \<Rightarrow> 32 word) \<Rightarrow> (byte list \<Rightarrow> 'a option) \<Rightarrow> meta_file \<Rightarrow> 'a \<Rightarrow> 'a io" where
  "recover_meta crc de f dflt d =
     (if files d (Meta f) = None then (Inr dflt, d)
      else io_then (read_file (Meta f))
             (\<lambda>bs. if bs = [] then io_return dflt
                   else io_then (of_res (decode_framed_record crc de bs)) (\<lambda>(x, n). io_return x)) d)"

fun encode_all ::
  "(byte list \<Rightarrow> 32 word) \<Rightarrow> ('a \<Rightarrow> byte list option) \<Rightarrow> 'a list \<Rightarrow> byte list res" where
  "encode_all crc ser [] = Inr []"
| "encode_all crc ser (x # xs) =
     (case encode_framed_record crc ser x of
        Inl e \<Rightarrow> Inl e
      | Inr frame \<Rightarrow> (case encode_all crc ser xs of Inl e \<Rightarrow> Inl e | Inr bs \<Rightarrow> Inr (frame @ bs)))"

text \<open>Migration of the single-file log of older versions.\<close>

definition migrate_legacy :: "'m codec \<Rightarrow> unit io" where
  "migrate_legacy cd d =
     (if files d LegacyLog = None then (Inr (), d)
      else io_then (read_file LegacyLog) (\<lambda>buffer.
        (case scan_frames (crc32 cd) (de_entry cd) buffer of (legacy, k, err) \<Rightarrow>
           io_then
             (if legacy = [] then io_return ()
              else io_then (of_res (encode_all (crc32 cd) (ser_entry cd) legacy)) (\<lambda>framed.
                io_then (io_modify (set_rlog ''0000000000000001.rlog'' [])) (\<lambda>_.
                  io_then (io_write (append_rlog ''0000000000000001.rlog'') framed) (\<lambda>_. io_tick))))
             (\<lambda>_ d1. (Inr (), snd (io_modify (set_file LegacyLog None) d1))))) d)"

definition segment_meta :: "string \<Rightarrow> 'm raft_log_entry list \<Rightarrow> nat \<Rightarrow> log_segment_meta" where
  "segment_meta path es bytes =
     \<lparr>seg_start_index = le_index (hd es), seg_end_index = le_index (last es),
      seg_entry_count = length es, seg_byte_size = bytes, seg_file_path = path\<rparr>"

text \<open>
  One segment file: its entries, after cutting a tail that is too short for a frame header
  off the last file, and its description unless it is empty.
\<close>

definition recover_segment ::
  "'m codec \<Rightarrow> bool \<Rightarrow> string \<Rightarrow> (log_segment_meta list \<times> 'm raft_log_entry list) io" where
  "recover_segment cd is_last path =
     io_then (read_rlog path) (\<lambda>buffer.
       (case scan_frames (crc32 cd) (de_entry cd) buffer of (es, valid, err) \<Rightarrow>
          io_then
            (case err of
               None \<Rightarrow> io_return ()
             | Some e \<Rightarrow>
                 if is_last \<and> length buffer < valid + RAFT_FRAME_HEADER_SIZE
                 then io_then (open_existing path)
                        (\<lambda>_. io_modify (set_rlog path (take valid buffer)))
                 else io_fail (Internal ''Corrupted Raft log frame in segment''))
            (\<lambda>_. io_return (if es = [] then [] else [segment_meta path es valid], es))))"

fun recover_segments ::
  "'m codec \<Rightarrow> string list \<Rightarrow> (log_segment_meta list \<times> 'm raft_log_entry list) io" where
  "recover_segments cd [] = io_return ([], [])"
| "recover_segments cd (p # ps) =
     io_then (recover_segment cd (ps = []) p) (\<lambda>(segs, es).
       io_then (recover_segments cd ps) (\<lambda>(segs', es'). io_return (segs @ segs', es @ es')))"

definition segment_paths :: "disk \<Rightarrow> string list" where
  "segment_paths d = sort (filter is_rlog (map fst (rlogs d)))"

definition open_cache ::
  "raft_hard_state \<Rightarrow> raft_persistent_progress \<Rightarrow> raft_snapshot_meta \<Rightarrow> 'm raft_log_entry list \<Rightarrow>
     'm memory_raft_storage" where
  "open_cache h p sm es =
     mem_new\<lparr>ms_hard_state := h, ms_progress := p, ms_snapshot_meta := sm,
             ms_log := (if es = [] then ms_log (mem_new :: 'm memory_raft_storage) else es)\<rparr>"

definition durable_open :: "'m codec \<Rightarrow> disk \<Rightarrow> 'm durable_raft_storage res \<times> disk" where
  "durable_open cd =
     io_then io_tick (\<lambda>_. io_then io_tick (\<lambda>_.
     io_then (recover_meta (crc32 cd) (de_hs cd) StateFile hard_state_default) (\<lambda>h.
     io_then (recover_meta (crc32 cd) (de_pg cd) ProgressFile progress_default) (\<lambda>p.
     io_then (recover_meta (crc32 cd) (de_meta cd) SnapshotFile snapshot_meta_default) (\<lambda>sm.
     io_then (migrate_legacy cd) (\<lambda>_.
     io_then io_tick (\<lambda>_ d.
       io_then (recover_segments cd (segment_paths d)) (\<lambda>(segs, es) d'.
         (Inr \<lparr>ds_disk = d', ds_segments = segs, max_entries_per_segment = 10000,
               max_segment_bytes = 16 * 1024 * 1024, memory_cache = open_cache h p sm es\<rparr>, d')) d)))))))"

subsection \<open>Writing\<close>

text \<open>Runs a disk action inside the engine.\<close>

definition on_disk :: "'a io \<Rightarrow> 'm durable_raft_storage \<Rightarrow> 'a res \<times> 'm durable_raft_storage" where
  "on_disk f st = (case f (ds_disk st) of (r, d') \<Rightarrow> (r, st\<lparr>ds_disk := d'\<rparr>))"

definition write_atomic_framed ::
  "(byte list \<Rightarrow> 32 word) \<Rightarrow> ('a \<Rightarrow> byte list option) \<Rightarrow> meta_file \<Rightarrow> 'a \<Rightarrow> unit io" where
  "write_atomic_framed crc ser f x =
     io_then (of_res (encode_framed_record crc ser x)) (\<lambda>frame.
     io_then (io_modify (set_file (Tmp f) (Some []))) (\<lambda>_.
     io_then (io_write (append_file (Tmp f)) frame) (\<lambda>_.
     io_then io_tick (\<lambda>_.
     io_modify (\<lambda>d. set_file (Tmp f) None (set_file (Meta f) (files d (Tmp f)) d))))))"

definition need_rotation :: "'m durable_raft_storage \<Rightarrow> bool" where
  "need_rotation st =
     (case ds_segments st of
        [] \<Rightarrow> True
      | segs \<Rightarrow> max_entries_per_segment st \<le> seg_entry_count (last segs) \<or>
                max_segment_bytes st \<le> seg_byte_size (last segs))"

definition append_entries_segmented ::
  "'m codec \<Rightarrow> 'm raft_log_entry list \<Rightarrow> 'm durable_raft_storage \<Rightarrow>
     unit res \<times> 'm durable_raft_storage" where
  "append_entries_segmented cd es st =
     (if es = [] then (Inr (), st)
      else case encode_all (crc32 cd) (ser_entry cd) es of
        Inl e \<Rightarrow> (Inl e, st)
      | Inr framed \<Rightarrow>
          if need_rotation st
          then let path = segment_name (le_index (hd es)) in
            (case on_disk (io_then (io_modify (set_rlog path [])) (\<lambda>_.
                    io_then (io_write (append_rlog path) framed) (\<lambda>_. io_tick))) st of
               (Inl e, st') \<Rightarrow> (Inl e, st')
             | (Inr _, st') \<Rightarrow>
                 (Inr (), st'\<lparr>ds_segments := ds_segments st' @ [segment_meta path es (length framed)]\<rparr>))
          else let seg = last (ds_segments st); path = seg_file_path seg in
            (case on_disk (io_then (io_modify (append_rlog path [])) (\<lambda>_.
                    io_then (io_write (append_rlog path) framed) (\<lambda>_. io_tick))) st of
               (Inl e, st') \<Rightarrow> (Inl e, st')
             | (Inr _, st') \<Rightarrow>
                 (Inr (), st'\<lparr>ds_segments := butlast (ds_segments st') @
                    [seg\<lparr>seg_end_index := le_index (last es),
                         seg_entry_count := seg_entry_count seg + length es,
                         seg_byte_size := seg_byte_size seg + length framed\<rparr>]\<rparr>)))"

text \<open>\<^verbatim>\<open>retain\<close> with removal of the files of the dropped segments, whose outcome is ignored.\<close>

fun retain_segments ::
  "(log_segment_meta \<Rightarrow> bool) \<Rightarrow> log_segment_meta list \<Rightarrow> disk \<Rightarrow> log_segment_meta list \<times> disk" where
  "retain_segments P [] d = ([], d)"
| "retain_segments P (s # ss) d =
     (if P s then (case retain_segments P ss d of (ks, d') \<Rightarrow> (s # ks, d'))
      else retain_segments P ss (snd (io_modify (remove_rlog (seg_file_path s)) d)))"

definition truncate_suffix_segmented ::
  "'m codec \<Rightarrow> nat \<Rightarrow> 'm durable_raft_storage \<Rightarrow> unit res \<times> 'm durable_raft_storage" where
  "truncate_suffix_segmented cd from st =
     (case retain_segments (\<lambda>s. seg_start_index s < from) (ds_segments st) (ds_disk st) of
        (segs, d) \<Rightarrow>
          (let st1 = st\<lparr>ds_segments := segs, ds_disk := d\<rparr> in
           if segs = [] \<or> seg_end_index (last segs) < from then (Inr (), st1)
           else
             let seg = last segs;
                 kept = takeWhile (\<lambda>e. le_index e < from)
                          (drop (seg_start_index seg) (ms_log (memory_cache st1))) in
             (case encode_all (crc32 cd) (ser_entry cd) kept of
                Inl e \<Rightarrow> (Inl e, st1)
              | Inr frames \<Rightarrow>
                  (case on_disk (io_then (open_existing (seg_file_path seg)) (\<lambda>_.
                          io_then (\<lambda>d. (Inr (), set_rlog (seg_file_path seg) [] d)) (\<lambda>_.
                          io_then (io_write (append_rlog (seg_file_path seg)) frames) (\<lambda>_. io_tick)))) st1 of
                     (Inl e, st2) \<Rightarrow> (Inl e, st2)
                   | (Inr _, st2) \<Rightarrow>
                       (Inr (), st2\<lparr>ds_segments := butlast (ds_segments st2) @
                          [seg\<lparr>seg_end_index := (if kept = [] then seg_start_index seg else le_index (last kept)),
                               seg_entry_count := length kept,
                               seg_byte_size := length frames\<rparr>]\<rparr>)))))"

definition compact_prefix ::
  "nat \<Rightarrow> 'm durable_raft_storage \<Rightarrow> unit res \<times> 'm durable_raft_storage" where
  "compact_prefix snapshot_index st =
     (case retain_segments (\<lambda>s. snapshot_index < seg_end_index s) (ds_segments st) (ds_disk st) of
        (segs, d) \<Rightarrow> (Inr (), st\<lparr>ds_segments := segs, ds_disk := d\<rparr>))"

subsection \<open>The storage interface\<close>

text \<open>After the disk the change goes to the cache.\<close>

definition and_cache ::
  "unit res \<times> 'm durable_raft_storage \<Rightarrow>
     ('m memory_raft_storage \<Rightarrow> unit res \<times> 'm memory_raft_storage) \<Rightarrow>
     unit res \<times> 'm durable_raft_storage" where
  "and_cache r f =
     (case r of
        (Inl e, st) \<Rightarrow> (Inl e, st)
      | (Inr _, st) \<Rightarrow> (case f (memory_cache st) of (r', mc) \<Rightarrow> (r', st\<lparr>memory_cache := mc\<rparr>)))"

definition durable_save_hard_state ::
  "'m codec \<Rightarrow> 'm durable_raft_storage \<Rightarrow> raft_hard_state \<Rightarrow> unit res \<times> 'm durable_raft_storage" where
  "durable_save_hard_state cd st h =
     and_cache (on_disk (write_atomic_framed (crc32 cd) (ser_hs cd) StateFile h) st)
       (\<lambda>mc. save_hard_state mem_ops mc h)"

definition durable_save_progress ::
  "'m codec \<Rightarrow> 'm durable_raft_storage \<Rightarrow> raft_persistent_progress \<Rightarrow>
     unit res \<times> 'm durable_raft_storage" where
  "durable_save_progress cd st p =
     and_cache (on_disk (write_atomic_framed (crc32 cd) (ser_pg cd) ProgressFile p) st)
       (\<lambda>mc. save_progress mem_ops mc p)"

definition durable_save_snapshot_meta ::
  "'m codec \<Rightarrow> 'm durable_raft_storage \<Rightarrow> raft_snapshot_meta \<Rightarrow>
     unit res \<times> 'm durable_raft_storage" where
  "durable_save_snapshot_meta cd st sm =
     and_cache (on_disk (write_atomic_framed (crc32 cd) (ser_meta cd) SnapshotFile sm) st)
       (\<lambda>mc. save_snapshot_meta mem_ops mc sm)"

definition durable_append_entries ::
  "'m codec \<Rightarrow> 'm durable_raft_storage \<Rightarrow> 'm raft_log_entry list \<Rightarrow>
     unit res \<times> 'm durable_raft_storage" where
  "durable_append_entries cd st es =
     and_cache (append_entries_segmented cd es st) (\<lambda>mc. append_entries mem_ops mc es)"

definition durable_truncate_suffix ::
  "'m codec \<Rightarrow> 'm durable_raft_storage \<Rightarrow> nat \<Rightarrow> unit res \<times> 'm durable_raft_storage" where
  "durable_truncate_suffix cd st i =
     (case truncate_suffix mem_ops (memory_cache st) i of
        (Inl e, mc) \<Rightarrow> (Inl e, st\<lparr>memory_cache := mc\<rparr>)
      | (Inr _, mc) \<Rightarrow> truncate_suffix_segmented cd i (st\<lparr>memory_cache := mc\<rparr>))"

definition durable_flush :: "'m durable_raft_storage \<Rightarrow> unit res \<times> 'm durable_raft_storage" where
  "durable_flush st =
     (if ds_segments st = [] \<or>
         map_of (rlogs (ds_disk st)) (seg_file_path (last (ds_segments st))) = None
      then (Inr (), st)
      else on_disk (io_then (open_existing (seg_file_path (last (ds_segments st)))) (\<lambda>_. io_tick)) st)"

definition durable_ops :: "'m codec \<Rightarrow> ('m durable_raft_storage, 'm) raft_storage" where
  "durable_ops cd =
     \<lparr>save_hard_state = durable_save_hard_state cd,
      load_hard_state = (\<lambda>st. load_hard_state mem_ops (memory_cache st)),
      save_progress = durable_save_progress cd,
      load_progress = (\<lambda>st. load_progress mem_ops (memory_cache st)),
      append_entries = durable_append_entries cd,
      truncate_suffix = durable_truncate_suffix cd,
      load_log_entries = (\<lambda>st. load_log_entries mem_ops (memory_cache st)),
      save_snapshot_meta = durable_save_snapshot_meta cd,
      load_snapshot_meta = (\<lambda>st. load_snapshot_meta mem_ops (memory_cache st)),
      flush = durable_flush\<rparr>"

end
