(* ===== verification/Durable_Recovery.thy ===== *)
theory Durable_Recovery
  imports Durable_Storage
begin

text \<open>
  What survives a restart of the durable storage: the metadata under any I/O failures, and
  the log when the device works, up to the sentinel entry that is never written to disk.
\<close>

section \<open>Disk actions\<close>

lemmas io_simps =
  io_return_def io_fail_def io_then_def of_res_def next_io_def io_tick_def io_modify_def
  io_write_def set_file_def append_file_def set_rlog_def append_rlog_def remove_rlog_def
  read_file_def read_rlog_def open_existing_def

definition idle :: "disk \<Rightarrow> disk \<Rightarrow> bool" where
  "idle d d' \<longleftrightarrow> files d' = files d \<and> rlogs d' = rlogs d"

lemma next_io_idle: "next_io d = (x, d') \<Longrightarrow> idle d d'"
  by (auto simp: next_io_def idle_def split: list.splits)

lemma io_thenE:
  assumes "io_then f g d = (r, d')"
  obtains (err) e where "f d = (Inl e, d')" and "r = Inl e"
    | (ok) x d1 where "f d = (Inr x, d1)" and "g x d1 = (r, d')"
  using assms by (auto simp: io_then_def split: prod.splits sum.splits)

lemma io_tick_idle: "io_tick d = (r, d') \<Longrightarrow> idle d d'"
  by (auto simp: io_tick_def split: prod.splits io_outcome.splits dest: next_io_idle)

lemma io_modifyE:
  assumes "io_modify f d = (r, d')"
  obtains (err) e where "r = Inl e" and "idle d d'"
    | (ok) d1 where "r = Inr ()" and "idle d d1" and "d' = f d1"
  using assms unfolding io_modify_def by (elim io_thenE) (auto dest: io_tick_idle)

lemma io_writeE:
  assumes "io_write app bs d = (r, d')"
  obtains (err) e k d1 where "r = Inl e" and "idle d d1" and "d' = app (take k bs) d1"
    | (ok) d1 where "r = Inr ()" and "idle d d1" and "d' = app bs d1"
  using assms by (auto simp: io_write_def split: prod.splits io_outcome.splits dest: next_io_idle)

lemma write_atomic_cases:
  assumes "write_atomic_framed crc ser f x d = (r, d')"
  shows "rlogs d' = rlogs d \<and> files d' LegacyLog = files d LegacyLog \<and>
    (\<forall>g. g \<noteq> f \<longrightarrow> files d' (Meta g) = files d (Meta g)) \<and>
    ((\<exists>e. r = Inl e) \<and> files d' (Meta f) = files d (Meta f) \<or>
     (\<exists>frame. r = Inr () \<and> encode_framed_record crc ser x = Inr frame \<and> files d' (Meta f) = Some frame))"
  using assms unfolding write_atomic_framed_def
  by (elim io_thenE io_modifyE io_writeE)
    (auto simp: of_res_def idle_def set_file_def append_file_def dest: io_tick_idle)

section \<open>Metadata\<close>

definition storable ::
  "('a \<Rightarrow> byte list option) \<Rightarrow> (byte list \<Rightarrow> 'a option) \<Rightarrow> 'a \<Rightarrow> bool" where
  "storable ser de x \<longleftrightarrow> (\<exists>p. ser x = Some p \<and> length p < 2 ^ 32 \<and> de p = Some x)"

definition meta_holds ::
  "(byte list \<Rightarrow> 32 word) \<Rightarrow> (byte list \<Rightarrow> 'a option) \<Rightarrow> meta_file \<Rightarrow> 'a \<Rightarrow> 'a \<Rightarrow> disk \<Rightarrow> bool" where
  "meta_holds crc de f dflt v d \<longleftrightarrow>
     (case files d (Meta f) of
        None \<Rightarrow> v = dflt
      | Some bs \<Rightarrow> bs \<noteq> [] \<and> (\<exists>n. decode_framed_record crc de bs = Inr (v, n)))"

lemma meta_holds_cong:
  "files d' (Meta f) = files d (Meta f) \<Longrightarrow> meta_holds crc de f dflt v d' = meta_holds crc de f dflt v d"
  by (simp add: meta_holds_def)

lemma storable_frame:
  assumes "storable ser de x" and "encode_framed_record crc ser x = Inr frame"
  shows "frame \<noteq> [] \<and> decode_framed_record crc de frame = Inr (x, length frame)"
proof -
  obtain p where p: "ser x = Some p" "length p < 2 ^ 32" "de p = Some x"
    using assms(1) by (auto simp: storable_def)
  have "decode_framed_record crc de (frame @ []) = Inr (x, length frame)"
    by (rule decode_encode [where de = de, OF assms(2) p])
  moreover have "length frame = RAFT_FRAME_HEADER_SIZE + length p"
    by (rule encode_framed_record_length [OF assms(2) p(1)])
  ultimately show ?thesis by (auto simp: RAFT_FRAME_HEADER_SIZE_def)
qed

lemma write_atomic_holds:
  assumes "write_atomic_framed crc ser f x d = (r, d')" and "meta_holds crc de f dflt v d"
    and "storable ser de x"
  shows "meta_holds crc de f dflt (if is_ok r then x else v) d'"
  using write_atomic_cases [OF assms(1)] assms(2) storable_frame [OF assms(3)]
  by (auto simp: meta_holds_def)

lemma read_file_cases:
  "read_file f d = (r, d') \<Longrightarrow> idle d d' \<and> (\<forall>bs. r = Inr bs \<longrightarrow> files d f = Some bs)"
  unfolding read_file_def
  by (elim io_thenE) (auto simp: idle_def split: option.splits dest!: io_tick_idle)

lemma recover_meta_spec:
  assumes "recover_meta crc de f dflt d = (r, d')"
  shows "files d' = files d" and "rlogs d' = rlogs d"
    and "r = Inr x \<Longrightarrow> meta_holds crc de f dflt v d \<Longrightarrow> x = v"
proof -
  have "idle d d' \<and> (r = Inr x \<longrightarrow> meta_holds crc de f dflt v d \<longrightarrow> x = v)"
  proof (cases "files d (Meta f)")
    case (Some bs)
    then have "io_then (read_file (Meta f))
        (\<lambda>bs. if bs = [] then io_return dflt
              else io_then (of_res (decode_framed_record crc de bs)) (\<lambda>(x, n). io_return x)) d = (r, d')"
      using assms by (simp add: recover_meta_def)
    then show ?thesis using Some
      by (elim io_thenE)
        (auto simp: io_return_def meta_holds_def of_res_def idle_def
          dest!: read_file_cases split: if_splits elim!: io_thenE)
  qed (use assms in \<open>auto simp: recover_meta_def meta_holds_def idle_def\<close>)
  then show "files d' = files d" "rlogs d' = rlogs d"
    "r = Inr x \<Longrightarrow> meta_holds crc de f dflt v d \<Longrightarrow> x = v"
    by (simp_all add: idle_def)
qed

lemma migrate_legacy_none:
  "files d LegacyLog = None \<Longrightarrow> migrate_legacy cd d = (Inr (), d)"
  by (simp add: migrate_legacy_def)

text \<open>Opening recovers the metadata the files hold, whatever the log looks like.\<close>

definition metas_hold :: "'m codec \<Rightarrow> 'm memory_raft_storage \<Rightarrow> disk \<Rightarrow> bool" where
  "metas_hold cd mc d \<longleftrightarrow>
     meta_holds (crc32 cd) (de_hs cd) StateFile hard_state_default (ms_hard_state mc) d \<and>
     meta_holds (crc32 cd) (de_pg cd) ProgressFile progress_default (ms_progress mc) d \<and>
     meta_holds (crc32 cd) (de_meta cd) SnapshotFile snapshot_meta_default (ms_snapshot_meta mc) d"

definition same_metas :: "'m memory_raft_storage \<Rightarrow> 'm memory_raft_storage \<Rightarrow> bool" where
  "same_metas mc mc' \<longleftrightarrow>
     ms_hard_state mc' = ms_hard_state mc \<and> ms_progress mc' = ms_progress mc \<and>
     ms_snapshot_meta mc' = ms_snapshot_meta mc"

definition same_meta_files :: "disk \<Rightarrow> disk \<Rightarrow> bool" where
  "same_meta_files d d' \<longleftrightarrow> (\<forall>f. files d' (Meta f) = files d (Meta f))"

lemma metas_hold_cong: "same_meta_files d d' \<Longrightarrow> metas_hold cd mc d' = metas_hold cd mc d"
  by (simp add: metas_hold_def same_meta_files_def meta_holds_def)

lemma same_metas_hold: "same_metas mc mc' \<Longrightarrow> metas_hold cd mc' d = metas_hold cd mc d"
  by (simp add: metas_hold_def same_metas_def)


lemma idle_refl [simp]: "idle d d"
  by (simp add: idle_def)

lemma same_meta_files_refl [simp]: "same_meta_files d d"
  by (simp add: same_meta_files_def)

lemma same_meta_files_trans:
  "same_meta_files d d1 \<Longrightarrow> same_meta_files d1 d2 \<Longrightarrow> same_meta_files d d2"
  by (simp add: same_meta_files_def)

lemma idle_meta: "idle d d' \<Longrightarrow> same_meta_files d d'"
  by (simp add: idle_def same_meta_files_def)

text \<open>Actions on the log directory.\<close>

definition meta_safe :: "'a io \<Rightarrow> bool" where
  "meta_safe f \<longleftrightarrow> (\<forall>d r d'. f d = (r, d') \<longrightarrow> same_meta_files d d')"

named_theorems meta_safe_intros

lemma meta_safeD: "meta_safe f \<Longrightarrow> f d = (r, d') \<Longrightarrow> same_meta_files d d'"
  by (simp add: meta_safe_def)

lemma meta_safe_snd: "meta_safe f \<Longrightarrow> same_meta_files d (snd (f d))"
  using meta_safeD [of f d "fst (f d)" "snd (f d)"] by simp

lemma meta_safe_then [meta_safe_intros]:
  assumes "meta_safe f" and "\<And>x. meta_safe (g x)"
  shows "meta_safe (io_then f g)"
  unfolding meta_safe_def
proof (intro allI impI)
  fix d r d' assume "io_then f g d = (r, d')"
  then show "same_meta_files d d'"
    by (cases rule: io_thenE)
      (auto dest!: meta_safeD [OF assms(1)] meta_safeD [OF assms(2)] simp: same_meta_files_def)
qed

lemma meta_safe_basic [meta_safe_intros]:
  "meta_safe (io_return x)" "meta_safe (io_fail e)" "meta_safe (of_res y)" "meta_safe io_tick"
  "meta_safe (\<lambda>d. (Inr (), set_rlog s bs d))"
  by (auto simp: meta_safe_def io_return_def io_fail_def of_res_def set_rlog_def same_meta_files_def
      dest!: io_tick_idle idle_meta)

lemma meta_safe_modify [meta_safe_intros]:
  assumes "\<And>d. same_meta_files d (h d)"
  shows "meta_safe (io_modify h)"
  unfolding meta_safe_def
  using assms by (auto elim!: io_modifyE simp: same_meta_files_def idle_def)

lemma meta_safe_write [meta_safe_intros]:
  assumes "\<And>bs d. same_meta_files d (app bs d)"
  shows "meta_safe (io_write app bs)"
  unfolding meta_safe_def
  using assms by (auto elim!: io_writeE simp: same_meta_files_def idle_def)

lemma same_meta_log [meta_safe_intros]:
  "same_meta_files d (set_rlog s bs d)" "same_meta_files d (append_rlog s bs d)"
  "same_meta_files d (remove_rlog s d)" "same_meta_files d (set_file LegacyLog c d)"
  by (simp_all add: same_meta_files_def set_rlog_def append_rlog_def remove_rlog_def set_file_def)

lemma meta_safe_read [meta_safe_intros]:
  "meta_safe (read_file f)" "meta_safe (read_rlog s)" "meta_safe (open_existing s)"
proof -
  show "meta_safe (read_file f)"
    by (auto simp: meta_safe_def dest!: read_file_cases intro: idle_meta)
  show "meta_safe (read_rlog s)"
    unfolding read_rlog_def
    by (intro meta_safe_then meta_safe_basic) (auto simp: meta_safe_def split: option.splits)
  show "meta_safe (open_existing s)"
    unfolding open_existing_def
    by (intro meta_safe_then meta_safe_basic) (auto simp: meta_safe_def)
qed

lemma meta_safe_legacy: "meta_safe (migrate_legacy cd)"
  unfolding meta_safe_def
proof (intro allI impI)
  fix d r d' assume m: "migrate_legacy cd d = (r, d')"
  have "meta_safe (\<lambda>d1. (Inr (), snd (io_modify (set_file LegacyLog None) d1)))"
    unfolding meta_safe_def by (auto intro!: meta_safe_snd meta_safe_intros)
  then have "meta_safe (io_then (read_file LegacyLog) (\<lambda>buffer.
        (case scan_frames (crc32 cd) (de_entry cd) buffer of (legacy, k, err) \<Rightarrow>
           io_then
             (if legacy = [] then io_return ()
              else io_then (of_res (encode_all (crc32 cd) (ser_entry cd) legacy)) (\<lambda>framed.
                io_then (io_modify (set_rlog ''0000000000000001.rlog'' [])) (\<lambda>_.
                  io_then (io_write (append_rlog ''0000000000000001.rlog'') framed) (\<lambda>_. io_tick))))
             (\<lambda>_ d1. (Inr (), snd (io_modify (set_file LegacyLog None) d1))))))"
    by (auto intro!: meta_safe_intros split: prod.splits)
  from meta_safeD [OF this] m show "same_meta_files d d'"
    by (auto simp: migrate_legacy_def split: if_splits)
qed

lemma meta_safe_recover_segments: "meta_safe (recover_segments cd ps)"
proof (induction ps)
  case (Cons p ps)
  have "meta_safe (recover_segment cd b p)" for b
    unfolding recover_segment_def by (auto intro!: meta_safe_intros split: prod.splits option.splits)
  with Cons show ?case by (auto intro!: meta_safe_intros split: prod.splits)
qed (simp add: meta_safe_basic)

lemma meta_safe_recover_meta: "meta_safe (recover_meta crc de f dflt)"
  unfolding meta_safe_def
  using recover_meta_spec(1) by (metis same_meta_files_def)


lemma durable_openE:
  assumes "durable_open cd d = (Inr st, d')"
  obtains d1 d2 h d3 p d4 sm d5 d6 d7 segs es where
    "io_tick d = (Inr (), d1)" and "io_tick d1 = (Inr (), d2)"
    and "recover_meta (crc32 cd) (de_hs cd) StateFile hard_state_default d2 = (Inr h, d3)"
    and "recover_meta (crc32 cd) (de_pg cd) ProgressFile progress_default d3 = (Inr p, d4)"
    and "recover_meta (crc32 cd) (de_meta cd) SnapshotFile snapshot_meta_default d4 = (Inr sm, d5)"
    and "migrate_legacy cd d5 = (Inr (), d6)" and "io_tick d6 = (Inr (), d7)"
    and "recover_segments cd (segment_paths d7) d7 = (Inr (segs, es), d')"
    and "st = \<lparr>ds_disk = d', ds_segments = segs, max_entries_per_segment = 10000,
           max_segment_bytes = 16 * 1024 * 1024, memory_cache = open_cache h p sm es\<rparr>"
  using assms unfolding durable_open_def
  by (elim io_thenE) (auto elim!: io_thenE)

lemma durable_open_metas:
  assumes "durable_open cd d = (Inr st, d')" and "metas_hold cd mc d"
  shows "same_metas mc (memory_cache st) \<and> metas_hold cd (memory_cache st) (ds_disk st)"
proof -
  obtain d1 d2 h d3 p d4 sm d5 d6 d7 segs es where
    t: "io_tick d = (Inr (), d1)" "io_tick d1 = (Inr (), d2)"
    and h: "recover_meta (crc32 cd) (de_hs cd) StateFile hard_state_default d2 = (Inr h, d3)"
    and p: "recover_meta (crc32 cd) (de_pg cd) ProgressFile progress_default d3 = (Inr p, d4)"
    and sm: "recover_meta (crc32 cd) (de_meta cd) SnapshotFile snapshot_meta_default d4 = (Inr sm, d5)"
    and l: "migrate_legacy cd d5 = (Inr (), d6)" "io_tick d6 = (Inr (), d7)"
    and r: "recover_segments cd (segment_paths d7) d7 = (Inr (segs, es), d')"
    and st: "st = \<lparr>ds_disk = d', ds_segments = segs, max_entries_per_segment = 10000,
               max_segment_bytes = 16 * 1024 * 1024, memory_cache = open_cache h p sm es\<rparr>"
    using assms(1) by (rule durable_openE)
  have s2: "same_meta_files d d2"
    using t by (blast dest: io_tick_idle idle_meta same_meta_files_trans)
  have s3: "same_meta_files d d3"
    using same_meta_files_trans [OF s2 meta_safeD [OF meta_safe_recover_meta h]] .
  have s4: "same_meta_files d d4"
    using same_meta_files_trans [OF s3 meta_safeD [OF meta_safe_recover_meta p]] .
  have s': "same_meta_files d d'"
    using s4 meta_safeD [OF meta_safe_recover_meta sm] meta_safeD [OF meta_safe_legacy l(1)]
      idle_meta [OF io_tick_idle [OF l(2)]] meta_safeD [OF meta_safe_recover_segments r]
    by (simp add: same_meta_files_def)
  have "h = ms_hard_state mc" "p = ms_progress mc" "sm = ms_snapshot_meta mc"
    using recover_meta_spec(3) [OF h refl] recover_meta_spec(3) [OF p refl]
      recover_meta_spec(3) [OF sm refl] assms(2)
      metas_hold_cong [OF s2, of cd mc] metas_hold_cong [OF s3, of cd mc] metas_hold_cong [OF s4, of cd mc]
    by (auto simp: metas_hold_def)
  then have "same_metas mc (memory_cache st)"
    by (simp add: st same_metas_def open_cache_def)
  moreover from this have "metas_hold cd (memory_cache st) d' = metas_hold cd mc d'"
    by (rule same_metas_hold)
  ultimately show ?thesis using assms(2) metas_hold_cong [OF s', of cd mc] by (simp add: st)
qed

section \<open>Sequences of storage operations\<close>

datatype 'm durable_op =
    SaveHardState raft_hard_state
  | SaveProgress raft_persistent_progress
  | SaveSnapshotMeta raft_snapshot_meta
  | AppendEntries "'m raft_log_entry list"
  | TruncateSuffix nat
  | CompactPrefix nat
  | Flush

primrec durable_step ::
  "'m codec \<Rightarrow> 'm durable_op \<Rightarrow> 'm durable_raft_storage \<Rightarrow> 'm durable_raft_storage option" where
  "durable_step cd (SaveHardState h) st = Some (snd (durable_save_hard_state cd st h))"
| "durable_step cd (SaveProgress p) st = Some (snd (durable_save_progress cd st p))"
| "durable_step cd (SaveSnapshotMeta sm) st = Some (snd (durable_save_snapshot_meta cd st sm))"
| "durable_step cd (AppendEntries es) st = Some (snd (durable_append_entries cd st es))"
| "durable_step cd (TruncateSuffix i) st = Some (snd (durable_truncate_suffix cd st i))"
| "durable_step cd (CompactPrefix i) st = Some (snd (compact_prefix i st))"
| "durable_step cd Flush st = Some (snd (durable_flush st))"

text \<open>The codec reads back what it wrote for the metadata records of an operation.\<close>

fun storable_meta :: "'m codec \<Rightarrow> 'm durable_op \<Rightarrow> 'm durable_raft_storage \<Rightarrow> bool" where
  "storable_meta cd (SaveHardState h) st = storable (ser_hs cd) (de_hs cd) h"
| "storable_meta cd (SaveProgress p) st = storable (ser_pg cd) (de_pg cd) p"
| "storable_meta cd (SaveSnapshotMeta sm) st = storable (ser_meta cd) (de_meta cd) sm"
| "storable_meta cd x st = True"

lemma on_disk_cases:
  assumes "on_disk f st = (r, st')"
  obtains d' where "f (ds_disk st) = (r, d')" and "st' = st\<lparr>ds_disk := d'\<rparr>"
  using assms by (auto simp: on_disk_def split: prod.splits)

lemma on_disk_meta_safe:
  "meta_safe f \<Longrightarrow> on_disk f st = (r, st') \<Longrightarrow>
     same_meta_files (ds_disk st) (ds_disk st') \<and> memory_cache st' = memory_cache st"
  by (auto elim!: on_disk_cases dest: meta_safeD)


lemma retain_segments_meta: "same_meta_files d (snd (retain_segments P segs d))"
proof (induction segs arbitrary: d)
  case (Cons s ss)
  have "same_meta_files d (snd (io_modify (remove_rlog p) d))" for p
    by (rule meta_safe_snd) (intro meta_safe_intros)
  from same_meta_files_trans [OF this Cons.IH] Cons.IH [of d] show ?case
    by (simp add: case_prod_beta)
qed simp

lemma append_segmented_meta:
  assumes "append_entries_segmented cd es st = (r, st')"
  shows "same_meta_files (ds_disk st) (ds_disk st') \<and> memory_cache st' = memory_cache st"
proof -
  have "meta_safe (io_then (io_modify (set_rlog path bs)) (\<lambda>_.
      io_then (io_write (append_rlog path) framed) (\<lambda>_. io_tick)))"
    "meta_safe (io_then (io_modify (append_rlog path bs)) (\<lambda>_.
      io_then (io_write (append_rlog path) framed) (\<lambda>_. io_tick)))" for path bs framed
    by (auto intro!: meta_safe_intros)
  note safe = this [THEN on_disk_meta_safe]
  show ?thesis using assms unfolding append_entries_segmented_def Let_def
    by (auto split: if_splits sum.splits prod.splits dest: safe)
qed

lemma truncate_segmented_meta:
  assumes "truncate_suffix_segmented cd i st = (r, st')"
  shows "same_meta_files (ds_disk st) (ds_disk st') \<and> memory_cache st' = memory_cache st"
proof -
  obtain segs d where ret: "retain_segments (\<lambda>s. seg_start_index s < i) (ds_segments st) (ds_disk st) = (segs, d)"
    by fastforce
  then have d: "same_meta_files (ds_disk st) d" using retain_segments_meta by (metis snd_conv)
  have "meta_safe (io_then (open_existing path) (\<lambda>_. io_then (\<lambda>d. (Inr (), set_rlog path [] d)) (\<lambda>_.
      io_then (io_write (append_rlog path) frames) (\<lambda>_. io_tick))))" for path frames
    by (auto intro!: meta_safe_intros)
  note safe = this [THEN on_disk_meta_safe]
  show ?thesis using assms d unfolding truncate_suffix_segmented_def Let_def ret prod.case
    by (auto simp: same_meta_files_def split: if_splits sum.splits prod.splits dest!: safe)
qed

lemma save_meta_holds:
  assumes w: "write_atomic_framed crc ser f x (ds_disk st) = (r, d')"
    and "g \<noteq> f"
  shows "meta_holds crc' de g dflt v d' = meta_holds crc' de g dflt v (ds_disk st)"
  using write_atomic_cases [OF w] assms(2) by (intro meta_holds_cong) auto

definition durable_inv :: "'m codec \<Rightarrow> 'm durable_raft_storage \<Rightarrow> bool" where
  "durable_inv cd st \<longleftrightarrow> metas_hold cd (memory_cache st) (ds_disk st) \<and> mem_healthy (memory_cache st)"

lemma durable_save_hs_inv:
  assumes "durable_inv cd st" and "storable (ser_hs cd) (de_hs cd) h"
  shows "durable_inv cd (snd (durable_save_hard_state cd st h))"
proof -
  obtain r d' where w: "write_atomic_framed (crc32 cd) (ser_hs cd) StateFile h (ds_disk st) = (r, d')"
    by fastforce
  show ?thesis
    using assms write_atomic_holds [OF w, where de = "de_hs cd", OF _ assms(2)]
    by (cases r) (auto simp: save_meta_holds [OF w] durable_inv_def metas_hold_def durable_save_hard_state_def and_cache_def
        on_disk_def w storage_simps mem_healthy_def Let_def)
qed

lemma durable_save_pg_inv:
  assumes "durable_inv cd st" and "storable (ser_pg cd) (de_pg cd) p"
  shows "durable_inv cd (snd (durable_save_progress cd st p))"
proof -
  obtain r d' where w: "write_atomic_framed (crc32 cd) (ser_pg cd) ProgressFile p (ds_disk st) = (r, d')"
    by fastforce
  show ?thesis
    using assms write_atomic_holds [OF w, where de = "de_pg cd", OF _ assms(2)]
    by (cases r) (auto simp: save_meta_holds [OF w] durable_inv_def metas_hold_def durable_save_progress_def and_cache_def
        on_disk_def w storage_simps mem_healthy_def Let_def)
qed

lemma durable_save_meta_inv:
  assumes "durable_inv cd st" and "storable (ser_meta cd) (de_meta cd) sm"
  shows "durable_inv cd (snd (durable_save_snapshot_meta cd st sm))"
proof -
  obtain r d' where w: "write_atomic_framed (crc32 cd) (ser_meta cd) SnapshotFile sm (ds_disk st) = (r, d')"
    by fastforce
  show ?thesis
    using assms write_atomic_holds [OF w, where de = "de_meta cd", OF _ assms(2)]
    by (cases r) (auto simp: save_meta_holds [OF w] durable_inv_def metas_hold_def durable_save_snapshot_meta_def and_cache_def
        on_disk_def w storage_simps mem_healthy_def Let_def)
qed

lemma durable_inv_frame:
  assumes "durable_inv cd st" and "same_meta_files (ds_disk st) (ds_disk st')"
    and "same_metas (memory_cache st) (memory_cache st')" and "mem_healthy (memory_cache st')"
  shows "durable_inv cd st'"
  using assms metas_hold_cong [OF assms(2), of cd "memory_cache st"]
    same_metas_hold [OF assms(3), of cd "ds_disk st'"] by (simp add: durable_inv_def)

lemma durable_append_inv:
  assumes "durable_inv cd st"
  shows "durable_inv cd (snd (durable_append_entries cd st es))"
proof -
  obtain r st1 where a: "append_entries_segmented cd es st = (r, st1)" by fastforce
  show ?thesis
    using append_segmented_meta [OF a] assms
    by (intro durable_inv_frame [OF assms])
      (auto simp: durable_append_entries_def and_cache_def a storage_simps durable_inv_def
        mem_healthy_def same_metas_def Let_def split: sum.splits)
qed

lemma durable_truncate_inv:
  assumes "durable_inv cd st"
  shows "durable_inv cd (snd (durable_truncate_suffix cd st i))"
proof -
  let ?st = "st\<lparr>memory_cache := snd (truncate_suffix mem_ops (memory_cache st) i)\<rparr>"
  obtain r st1 where t: "truncate_suffix_segmented cd i ?st = (r, st1)" by fastforce
  then have "snd (durable_truncate_suffix cd st i) = st1"
    by (auto simp: durable_truncate_suffix_def storage_simps split: prod.splits if_splits)
  then show ?thesis
    using truncate_segmented_meta [OF t] assms
    by (intro durable_inv_frame [OF assms])
      (auto simp: storage_simps durable_inv_def mem_healthy_def same_metas_def)
qed

lemma durable_step_inv:
  assumes "durable_step cd x st = Some st'" and "storable_meta cd x st" and "durable_inv cd st"
  shows "durable_inv cd st'"
proof (cases x)
  case (CompactPrefix i)
  with assms show ?thesis
    by (intro durable_inv_frame [OF assms(3)])
      (auto simp: compact_prefix_def case_prod_beta retain_segments_meta same_metas_def durable_inv_def)
next
  case Flush
  have "meta_safe (io_then (open_existing s) (\<lambda>_. io_tick))" for s by (intro meta_safe_intros)
  note safe = this [THEN on_disk_meta_safe]
  obtain r where "durable_flush st = (r, st')" using assms(1) Flush by (cases "durable_flush st") auto
  then have "same_meta_files (ds_disk st) (ds_disk st') \<and> memory_cache st' = memory_cache st"
    unfolding durable_flush_def by (auto split: if_splits dest: safe)
  with assms(3) show ?thesis
    by (intro durable_inv_frame [OF assms(3)]) (auto simp: same_metas_def durable_inv_def)
qed (use assms durable_save_hs_inv durable_save_pg_inv durable_save_meta_inv durable_append_inv
    durable_truncate_inv in auto)


definition empty_disk :: "io_outcome list \<Rightarrow> disk" where
  "empty_disk plan = \<lparr>files = Map.empty, rlogs = [], io_plan = plan\<rparr>"

lemma metas_hold_empty: "metas_hold cd mem_new (empty_disk plan)"
  by (simp add: metas_hold_def meta_holds_def empty_disk_def mem_new_def)

lemma durable_open_healthy: "durable_open cd d = (Inr st, d') \<Longrightarrow> mem_healthy (memory_cache st)"
  by (erule durable_openE) (simp add: open_cache_def mem_new_def mem_healthy_def)

lemma durable_run_inv:
  assumes "durable_open cd (empty_disk plan) = (Inr st0, d0)"
    and "run_ops (guarded (storable_meta cd) (durable_step cd)) ops st0 = Some st"
  shows "durable_inv cd st"
proof (rule run_ops_invariant [OF assms(2)])
  show "durable_inv cd st0"
    using durable_open_metas [OF assms(1) metas_hold_empty] durable_open_healthy [OF assms(1)]
    by (simp add: durable_inv_def)
next
  fix x s t assume "guarded (storable_meta cd) (durable_step cd) x s = Some t" "durable_inv cd s"
  then show "durable_inv cd t"
    by (auto simp: guarded_def split: if_splits intro: durable_step_inv)
qed
end
