(* ===== verification/Durable_Log.thy ===== *)
theory Durable_Log
  imports Durable_Recovery
begin

text \<open>
  The segmented log of the durable storage on a device that works: which entries each
  segment file holds, that appending, truncating and compacting keep this layout, and what
  the engine finds when it is opened again.
\<close>

section \<open>Names of segments sort like their indices\<close>

fun digits :: "nat \<Rightarrow> nat \<Rightarrow> string" where
  "digits 0 k = []"
| "digits (Suc n) k = digits n (k div 10) @ [digit (k mod 10)]"

lemma length_digits [simp]: "length (digits n k) = n"
  by (induction n arbitrary: k) auto

lemma digit_zero [simp]: "digit 0 = CHR ''0''"
  by code_simp

lemma digits_zero: "digits n 0 = replicate n (CHR ''0'')"
  by (induction n) (simp_all add: replicate_append_same)

lemma decimal_padded:
  "k < 10 ^ n \<Longrightarrow> 0 < n \<Longrightarrow> replicate (n - length (decimal k)) (CHR ''0'') @ decimal k = digits n k"
proof (induction n arbitrary: k)
  case (Suc n)
  show ?case
  proof (cases "k < 10")
    case True
    then have "decimal k = [digit k]" by (simp add: decimal.simps)
    with True show ?thesis by (simp add: digits_zero)
  next
    case False
    then have "decimal k = decimal (k div 10) @ [digit (k mod 10)]" by (simp add: decimal.simps)
    moreover have "k div 10 < 10 ^ n" using Suc.prems(1) by (simp add: less_mult_imp_div_less mult.commute)
    moreover have "0 < n" using False Suc.prems(1) by (cases n) auto
    ultimately show ?thesis using Suc.IH [of "k div 10"] by simp
  qed
qed simp

text \<open>Up to here the names have sixteen digits.\<close>

definition name_limit :: nat where
  "name_limit = 10 ^ 16"

lemma segment_name_digits: "k < name_limit \<Longrightarrow> segment_name k = digits 16 k @ ''.rlog''"
  using decimal_padded [of k 16] by (simp add: segment_name_def Let_def name_limit_def)

lemma digit_less: "a < b \<Longrightarrow> b < 10 \<Longrightarrow> digit a < digit b"
  by (simp add: digit_def less_char_def)

lemma list_less_prefix:
  fixes xs ys :: "'a::linorder list"
  assumes "xs < ys" and "length xs = length ys"
  shows "xs @ us < ys @ vs"
  using assms unfolding list_less_def by (simp add: lexord_sufI)

lemma digits_less: "a < b \<Longrightarrow> b < 10 ^ n \<Longrightarrow> digits n a < digits n b"
proof (induction n arbitrary: a b)
  case (Suc n)
  have le: "a div 10 \<le> b div 10" using Suc.prems by (simp add: div_le_mono)
  show ?case
  proof (cases "a div 10 = b div 10")
    case True
    have "a mod 10 < b mod 10"
      using Suc.prems(1) True by (metis div_mult_mod_eq add_less_cancel_left)
    then have "[digit (a mod 10)] < [digit (b mod 10)]"
      by (simp add: digit_less)
    with True show ?thesis by (simp add: list_less_def lexord_append_leftI)
  next
    case False
    moreover have "b div 10 < 10 ^ n" using Suc.prems(2) by (simp add: less_mult_imp_div_less mult.commute)
    ultimately have "digits n (a div 10) < digits n (b div 10)" using Suc.IH le by simp
    then show ?thesis by (simp add: list_less_prefix)
  qed
qed simp

lemma segment_name_less:
  assumes "a < b" and "b < name_limit"
  shows "segment_name a < segment_name b"
proof -
  have "digits 16 a < digits 16 b" using assms by (intro digits_less) (simp_all add: name_limit_def)
  then show ?thesis
    using assms by (simp only: segment_name_digits less_trans list_less_prefix length_digits)
qed

lemma segment_name_inj:
  assumes "a < name_limit" and "b < name_limit" and "segment_name a = segment_name b"
  shows "a = b"
  using segment_name_less [of a b] segment_name_less [of b a] assms by (metis less_irrefl nat_neq_iff)

lemma is_rlog_segment_name: "is_rlog (segment_name k)"
proof -
  have "0 < length (decimal k)" by (cases "k < 10") (simp_all add: decimal.simps [of k])
  then show ?thesis by (simp add: is_rlog_def segment_name_def Let_def)
qed

section \<open>Frames of several entries\<close>

lemma encode_all_append:
  "encode_all crc ser (xs @ ys) =
     (case encode_all crc ser xs of
        Inl e \<Rightarrow> Inl e
      | Inr bs \<Rightarrow> (case encode_all crc ser ys of Inl e \<Rightarrow> Inl e | Inr cs \<Rightarrow> Inr (bs @ cs)))"
  by (induction xs) (auto split: sum.splits)

lemma encode_all_total:
  "\<forall>x \<in> set xs. storable ser de x \<Longrightarrow> \<exists>bs. encode_all crc ser xs = Inr bs"
  by (induction xs) (auto simp: storable_def encode_framed_record_def)

lemma scan_encode_all:
  assumes "encode_all crc ser xs = Inr bs" and "\<forall>x \<in> set xs. storable ser de x"
  shows "scan_frames crc de (bs @ rest) =
    (case scan_frames crc de rest of (ys, k, e) \<Rightarrow> (xs @ ys, length bs + k, e))"
  using assms
proof (induction xs arbitrary: bs)
  case (Cons x xs)
  from Cons.prems(1) obtain f cs where f: "encode_framed_record crc ser x = Inr f"
    and cs: "encode_all crc ser xs = Inr cs" and bs: "bs = f @ cs"
    by (auto split: sum.splits)
  obtain p where p: "ser x = Some p" "length p < 2 ^ 32" "de p = Some x"
    using Cons.prems(2) by (auto simp: storable_def)
  have "decode_framed_record crc de (f @ cs @ rest) = Inr (x, length f)"
    by (rule decode_encode [where de = de, OF f p])
  moreover have "f \<noteq> []"
    using storable_frame [of ser de x crc f] Cons.prems(2) f by simp
  ultimately show ?case
    using Cons.IH [OF cs] Cons.prems(2) by (simp add: bs scan_frames.simps [of crc de "f @ cs @ rest"] split: prod.splits)
qed (simp split: prod.splits)

lemma scan_frames_Nil [simp]: "scan_frames crc de [] = ([], 0, None)"
  by (simp add: scan_frames.simps)


section \<open>The layout of the log on disk\<close>

fun tiled :: "nat \<Rightarrow> log_segment_meta list \<Rightarrow> nat \<Rightarrow> bool" where
  "tiled a [] b \<longleftrightarrow> a = b"
| "tiled a (s # ss) b \<longleftrightarrow> seg_start_index s = a \<and> a \<le> seg_end_index s \<and> tiled (Suc (seg_end_index s)) ss b"

lemma tiled_append: "tiled a (xs @ ys) b \<longleftrightarrow> (\<exists>c. tiled a xs c \<and> tiled c ys b)"
  by (induction xs arbitrary: a) auto

lemma tiled_le: "tiled a segs b \<Longrightarrow> a \<le> b"
  by (induction segs arbitrary: a) force+

lemma tiled_bounds: "tiled a segs b \<Longrightarrow> s \<in> set segs \<Longrightarrow>
    a \<le> seg_start_index s \<and> seg_start_index s \<le> seg_end_index s \<and> seg_end_index s < b"
proof (induction segs arbitrary: a)
  case (Cons t ts)
  then show ?case using tiled_le [of "Suc (seg_end_index t)" ts b] by (auto, force+)
qed simp

lemma tiled_sorted: "tiled a segs b \<Longrightarrow> sorted_wrt (<) (map seg_start_index segs)"
proof (induction segs arbitrary: a)
  case (Cons t ts)
  then show ?case by (fastforce dest: tiled_bounds)
qed simp

lemma tiled_inj:
  assumes "tiled a segs b" and "s \<in> set segs" and "t \<in> set segs"
    and "seg_start_index s = seg_start_index t"
  shows "s = t"
proof -
  have "distinct (map seg_start_index segs)"
    using tiled_sorted [OF assms(1)] by (simp add: strict_sorted_iff)
  with assms(2-4) show ?thesis by (auto simp: distinct_map dest: inj_onD)
qed

definition seg_ok ::
  "'m codec \<Rightarrow> 'm raft_log_entry list \<Rightarrow> (string \<times> byte list) list \<Rightarrow> log_segment_meta \<Rightarrow> bool" where
  "seg_ok cd lg rl s \<longleftrightarrow>
     seg_file_path s = segment_name (seg_start_index s) \<and>
     (\<exists>bs. encode_all (crc32 cd) (ser_entry cd)
             (drop (seg_start_index s) (take (Suc (seg_end_index s)) lg)) = Inr bs \<and>
           map_of rl (seg_file_path s) = Some bs)"

text \<open>The directory holds no segment file the engine does not know of.\<close>

definition no_stray :: "(string \<times> byte list) list \<Rightarrow> log_segment_meta list \<Rightarrow> bool" where
  "no_stray rl segs \<longleftrightarrow> (\<forall>p. p \<in> fst ` set rl \<longrightarrow> is_rlog p \<longrightarrow> p \<in> seg_file_path ` set segs)"

definition log_ok :: "'m codec \<Rightarrow> nat \<Rightarrow> 'm durable_raft_storage \<Rightarrow> bool" where
  "log_ok cd k st \<longleftrightarrow>
     (let lg = ms_log (memory_cache st); rl = rlogs (ds_disk st); segs = ds_segments st in
      indexed lg \<and> length lg \<le> name_limit \<and> (\<forall>e \<in> set (tl lg). storable (ser_entry cd) (de_entry cd) e) \<and>
      1 \<le> k \<and> tiled k segs (length lg) \<and> (\<forall>s \<in> set segs. seg_ok cd lg rl s) \<and>
      distinct (map fst rl) \<and>
      no_stray rl segs \<and> io_plan (ds_disk st) = [] \<and> files (ds_disk st) LegacyLog = None)"

lemma log_okD:
  assumes "log_ok cd k st"
  shows "indexed (ms_log (memory_cache st))" and "length (ms_log (memory_cache st)) \<le> name_limit"
    and "\<forall>e \<in> set (tl (ms_log (memory_cache st))). storable (ser_entry cd) (de_entry cd) e"
    and "1 \<le> k" and "tiled k (ds_segments st) (length (ms_log (memory_cache st)))"
    and "s \<in> set (ds_segments st) \<Longrightarrow> seg_ok cd (ms_log (memory_cache st)) (rlogs (ds_disk st)) s"
    and "distinct (map fst (rlogs (ds_disk st)))" and "no_stray (rlogs (ds_disk st)) (ds_segments st)"
    and "io_plan (ds_disk st) = []" and "files (ds_disk st) LegacyLog = None"
  using assms by (simp_all add: log_ok_def Let_def)

lemma log_okI:
  assumes "indexed (ms_log (memory_cache st))" and "length (ms_log (memory_cache st)) \<le> name_limit"
    and "\<forall>e \<in> set (tl (ms_log (memory_cache st))). storable (ser_entry cd) (de_entry cd) e"
    and "1 \<le> k" and "tiled k (ds_segments st) (length (ms_log (memory_cache st)))"
    and "\<And>s. s \<in> set (ds_segments st) \<Longrightarrow> seg_ok cd (ms_log (memory_cache st)) (rlogs (ds_disk st)) s"
    and "distinct (map fst (rlogs (ds_disk st)))" and "no_stray (rlogs (ds_disk st)) (ds_segments st)"
    and "io_plan (ds_disk st) = []" and "files (ds_disk st) LegacyLog = None"
  shows "log_ok cd k st"
  using assms by (simp add: log_ok_def Let_def)

lemma seg_ok_frame:
  assumes "seg_ok cd lg rl s" and "take (Suc (seg_end_index s)) lg' = take (Suc (seg_end_index s)) lg"
    and "map_of rl' (seg_file_path s) = map_of rl (seg_file_path s)"
  shows "seg_ok cd lg' rl' s"
  using assms by (auto simp: seg_ok_def)

lemma calm [simp]:
  assumes "io_plan d = []"
  shows "io_tick d = (Inr (), d)" "io_modify f d = (Inr (), f d)" "io_write app bs d = (Inr (), app bs d)"
  using assms by (simp_all add: io_tick_def io_modify_def io_write_def next_io_def io_then_def)

lemma calm_frame [simp]:
  "io_plan (set_rlog s bs d) = io_plan d" "io_plan (append_rlog s bs d) = io_plan d"
  "io_plan (remove_rlog s d) = io_plan d"
  "files (set_rlog s bs d) = files d" "files (append_rlog s bs d) = files d"
  "files (remove_rlog s d) = files d"
  by (simp_all add: set_rlog_def append_rlog_def remove_rlog_def)

lemma distinct_update: "distinct (map fst rl) \<Longrightarrow> distinct (map fst (AList.update k v rl))"
  by (rule AList.distinct_update)

lemma update_names: "fst ` set (AList.update k v rl) = insert k (fst ` set rl)"
  by (simp add: AList.dom_update)

lemma paths_inj:
  assumes "log_ok cd k st" and "s \<in> set (ds_segments st)" and "t \<in> set (ds_segments st)"
    and "seg_file_path s = seg_file_path t"
  shows "seg_start_index s = seg_start_index t"
  using assms tiled_bounds [of k "ds_segments st" _ s] tiled_bounds [of k "ds_segments st" _ t]
  by (fastforce simp: log_ok_def Let_def seg_ok_def intro!: segment_name_inj)


subsection \<open>Appending\<close>

lemma indexed_nth: "indexed lg \<Longrightarrow> i < length lg \<Longrightarrow> le_index (lg ! i) = i"
  by (simp add: indexed_def)

lemma indexed_ends:
  assumes "indexed (lg @ es)" and "es \<noteq> []"
  shows "le_index (hd es) = length lg" and "le_index (last es) = length lg + length es - 1"
proof -
  show "le_index (hd es) = length lg"
    using indexed_nth [OF assms(1), of "length lg"] assms(2) by (simp add: nth_append hd_conv_nth)
  have "last es = (lg @ es) ! (length (lg @ es) - 1)"
    using assms(2) last_conv_nth [of "lg @ es"] by simp
  then show "le_index (last es) = length lg + length es - 1"
    using indexed_nth [OF assms(1), of "length (lg @ es) - 1"] assms(2) by (cases es) auto
qed

text \<open>The state after an append that reached disk and cache.\<close>

lemma log_ok_rotate:
  assumes ok: "log_ok cd k st" and lg: "lg = ms_log (memory_cache st)"
    and es: "es \<noteq> []" "indexed (lg @ es)" "length (lg @ es) \<le> name_limit"
      "\<forall>e \<in> set es. storable (ser_entry cd) (de_entry cd) e"
    and framed: "encode_all (crc32 cd) (ser_entry cd) es = Inr framed"
    and path: "path = segment_name (length lg)"
    and mc: "ms_log mc = lg @ es"
  shows "log_ok cd k (st\<lparr>ds_disk := append_rlog path framed (set_rlog path [] (ds_disk st)),
    ds_segments := ds_segments st @ [segment_meta path es n], memory_cache := mc\<rparr>)"
proof -
  let ?rl = "rlogs (ds_disk st)"
  have rl: "rlogs (append_rlog path framed (set_rlog path [] (ds_disk st))) =
      AList.update path framed ?rl"
    by (simp add: append_rlog_def set_rlog_def AList.update_conv')
  have t: "tiled k (ds_segments st) (length lg)" using ok lg by (simp add: log_ok_def Let_def)
  have old: "seg_ok cd (lg @ es) (AList.update path framed ?rl) s"
    if s: "s \<in> set (ds_segments st)" for s
  proof (rule seg_ok_frame)
    show so: "seg_ok cd lg ?rl s" using ok lg s by (simp add: log_ok_def Let_def)
    have b: "seg_start_index s \<le> seg_end_index s" "seg_end_index s < length lg"
      using tiled_bounds [OF t s] by auto
    then show "take (Suc (seg_end_index s)) (lg @ es) = take (Suc (seg_end_index s)) lg" by simp
    have "length lg < name_limit" using es(1,3) by (cases es) auto
    then have "seg_file_path s \<noteq> path"
      using b so segment_name_inj [of "seg_start_index s" "length lg"]
      by (auto simp: seg_ok_def path)
    then show "map_of (AList.update path framed ?rl) (seg_file_path s) =
        map_of ?rl (seg_file_path s)" by (simp add: AList.update_conv')
  qed
  have ends: "le_index (hd es) = length lg" "Suc (le_index (last es)) = length lg + length es"
    using indexed_ends [OF es(2,1)] es(1) by (simp_all add: Suc_le_eq)
  have new: "seg_ok cd (lg @ es) (AList.update path framed ?rl) (segment_meta path es n)"
    using framed by (simp add: seg_ok_def segment_meta_def ends path AList.update_conv')
  have "set (tl (lg @ es)) \<subseteq> set (tl lg) \<union> set es" by (cases lg; cases es) auto
  then have st: "\<forall>e \<in> set (tl (lg @ es)). storable (ser_entry cd) (de_entry cd) e"
    using ok es(4) by (auto simp: log_ok_def Let_def lg)
  have ti: "tiled k (ds_segments st @ [segment_meta path es n]) (length (lg @ es))"
    using t ends es(1) by (cases es) (auto simp: tiled_append segment_meta_def)
  have "no_stray (AList.update path framed ?rl) (ds_segments st @ [segment_meta path es n])"
    using ok by (simp add: log_ok_def Let_def no_stray_def update_names segment_meta_def)
  with ok old new ti st es(2,3) show ?thesis
    by (simp add: log_ok_def Let_def rl mc distinct_update ball_Un)
qed


lemma log_ok_extend:
  assumes ok: "log_ok cd k st" and lg: "lg = ms_log (memory_cache st)"
    and es: "es \<noteq> []" "indexed (lg @ es)" "length (lg @ es) \<le> name_limit"
      "\<forall>e \<in> set es. storable (ser_entry cd) (de_entry cd) e"
    and framed: "encode_all (crc32 cd) (ser_entry cd) es = Inr framed"
    and segs: "ds_segments st = xs @ [s]"
    and s': "seg_start_index s' = seg_start_index s" "seg_file_path s' = seg_file_path s"
      "seg_end_index s' = le_index (last es)"
    and mc: "ms_log mc = lg @ es"
  shows "log_ok cd k (st\<lparr>ds_disk := append_rlog (seg_file_path s) framed
      (append_rlog (seg_file_path s) [] (ds_disk st)),
    ds_segments := xs @ [s'], memory_cache := mc\<rparr>)"
proof -
  let ?rl = "rlogs (ds_disk st)"
  let ?p = "seg_file_path s"
  have sok: "seg_ok cd lg ?rl s" using ok segs by (simp add: log_ok_def Let_def lg)
  then obtain bs where bs: "encode_all (crc32 cd) (ser_entry cd)
      (drop (seg_start_index s) (take (Suc (seg_end_index s)) lg)) = Inr bs" "map_of ?rl ?p = Some bs"
    by (auto simp: seg_ok_def)
  have rl: "rlogs (append_rlog ?p framed (append_rlog ?p [] (ds_disk st))) =
      AList.update ?p (bs @ framed) ?rl"
    by (simp add: append_rlog_def set_rlog_def AList.update_conv' bs(2))
  obtain c where t: "tiled k xs c" "seg_start_index s = c" "c \<le> seg_end_index s"
      "Suc (seg_end_index s) = length lg"
    using ok by (auto simp: log_ok_def Let_def segs lg tiled_append)
  have old: "seg_ok cd (lg @ es) (AList.update ?p (bs @ framed) ?rl) x"
    if x: "x \<in> set xs" for x
  proof (rule seg_ok_frame)
    show "seg_ok cd lg ?rl x" using ok segs x by (simp add: log_ok_def Let_def lg)
    have b: "seg_start_index x < c" "seg_end_index x < length lg"
      using tiled_bounds [OF t(1) x] t by auto
    then show "take (Suc (seg_end_index x)) (lg @ es) = take (Suc (seg_end_index x)) lg" by simp
    have "seg_file_path x \<noteq> ?p"
      using paths_inj [OF ok, of x s] b t(2) x by (auto simp: segs)
    then show "map_of (AList.update ?p (bs @ framed) ?rl) (seg_file_path x) =
        map_of ?rl (seg_file_path x)" by (simp add: AList.update_conv')
  qed
  have end': "Suc (le_index (last es)) = length (lg @ es)"
    using indexed_ends(2) [OF es(2,1)] es(1) by (cases es) auto
  have "drop c (lg @ es) = drop c (take (Suc (seg_end_index s)) lg) @ es" using t by simp
  then have "encode_all (crc32 cd) (ser_entry cd) (drop c (lg @ es)) = Inr (bs @ framed)"
    using bs(1) framed by (simp add: encode_all_append t(2))
  then have new: "seg_ok cd (lg @ es) (AList.update ?p (bs @ framed) ?rl) s'"
    using sok t(2) unfolding seg_ok_def s' end' by (simp add: AList.update_conv')
  have "set (tl (lg @ es)) \<subseteq> set (tl lg) \<union> set es" by (cases lg; cases es) auto
  then have st: "\<forall>e \<in> set (tl (lg @ es)). storable (ser_entry cd) (de_entry cd) e"
    using ok es(4) by (auto simp: log_ok_def Let_def lg)
  have ti: "tiled k (xs @ [s']) (length (lg @ es))"
    using t end' s' es(1) by (auto simp: tiled_append)
  have "no_stray (AList.update ?p (bs @ framed) ?rl) (xs @ [s'])"
    using ok s'(2) by (simp add: log_ok_def Let_def no_stray_def update_names segs)
  with ok old new ti st es(2,3) show ?thesis
    by (simp add: log_ok_def Let_def rl mc distinct_update ball_Un)
qed

lemma durable_append_ok:
  assumes ok: "log_ok cd k st" and lg: "lg = ms_log (memory_cache st)" and h: "mem_healthy (memory_cache st)"
    and es: "indexed (lg @ es)" "length (lg @ es) \<le> name_limit"
      "\<forall>e \<in> set es. storable (ser_entry cd) (de_entry cd) e"
  shows "fst (durable_append_entries cd st es) = Inr () \<and>
    log_ok cd k (snd (durable_append_entries cd st es)) \<and>
    ms_log (memory_cache (snd (durable_append_entries cd st es))) = lg @ es"
proof -
  obtain mc where mc: "append_entries mem_ops (memory_cache st) es = (Inr (), mc)" "ms_log mc = lg @ es"
    using h put_entries_next [OF es(1)] by (simp add: storage_simps mem_healthy_def Let_def lg)
  have plan: "io_plan (ds_disk st) = []" using ok by (simp add: log_ok_def Let_def)
  show ?thesis
  proof (cases "es = []")
    case True
    then show ?thesis using ok mc
      by (simp add: durable_append_entries_def append_entries_segmented_def and_cache_def lg
          log_ok_def Let_def)
  next
    case False
    obtain framed where f: "encode_all (crc32 cd) (ser_entry cd) es = Inr framed"
      using encode_all_total [OF es(3)] by blast
    show ?thesis
    proof (cases "need_rotation st")
      case True
      then show ?thesis
        using log_ok_rotate [OF ok lg False es f refl mc(2)] indexed_ends(1) [OF es(1) False] mc plan False
        by (simp add: durable_append_entries_def append_entries_segmented_def and_cache_def f on_disk_def
            io_then_def Let_def)
    next
      case nr: False
      then obtain xs s where segs: "ds_segments st = xs @ [s]"
        by (cases "ds_segments st" rule: rev_cases) (auto simp: need_rotation_def)
      show ?thesis
        using log_ok_extend [OF ok lg False es f segs _ _ _ mc(2)] mc plan False nr
        by (simp add: durable_append_entries_def append_entries_segmented_def and_cache_def f on_disk_def
            io_then_def Let_def segs)
    qed
  qed
qed


subsection \<open>Truncating and compacting\<close>

lemma retain_segments_calm:
  assumes "io_plan d = []" and "distinct (map fst (rlogs d))"
    and "retain_segments P segs d = (segs', d')"
  shows "segs' = filter P segs \<and> io_plan d' = [] \<and> files d' = files d \<and> distinct (map fst (rlogs d')) \<and>
    (\<forall>p. map_of (rlogs d') p =
       (if p \<in> seg_file_path ` {s \<in> set segs. \<not> P s} then None else map_of (rlogs d) p))"
  using assms
proof (induction segs arbitrary: d segs')
  case (Cons s ss)
  show ?case
  proof (cases "P s")
    case True
    then show ?thesis using Cons by (auto split: prod.splits)
  next
    case False
    have d: "distinct (map fst (rlogs (remove_rlog (seg_file_path s) d)))"
      using Cons.prems(2) by (simp add: remove_rlog_def AList.distinct_delete)
    show ?thesis
      using Cons.IH [OF _ d, of segs'] Cons.prems False
      by (auto simp: remove_rlog_def AList.delete_conv')
  qed
qed simp

lemma name_of_iff: "p \<in> fst ` set rl \<longleftrightarrow> map_of rl p \<noteq> None"
  by (simp add: map_of_eq_None_iff)

text \<open>Dropping segments from a layout: the files of the others are untouched.\<close>

lemma retain_layout:
  assumes ok: "log_ok cd k st"
    and ret: "retain_segments P (ds_segments st) (ds_disk st) = (segs, d)"
  shows "segs = filter P (ds_segments st)" and "io_plan d = []" and "files d = files (ds_disk st)"
    and "distinct (map fst (rlogs d))" and "no_stray (rlogs d) segs"
    and "s \<in> set segs \<Longrightarrow> map_of (rlogs d) (seg_file_path s) = map_of (rlogs (ds_disk st)) (seg_file_path s)"
proof -
  have "io_plan (ds_disk st) = []" "distinct (map fst (rlogs (ds_disk st)))"
    using ok by (simp_all add: log_ok_def Let_def)
  note r = retain_segments_calm [OF this ret]
  show "segs = filter P (ds_segments st)" "io_plan d = []" "files d = files (ds_disk st)"
    "distinct (map fst (rlogs d))" using r by simp_all
  show "map_of (rlogs d) (seg_file_path s) = map_of (rlogs (ds_disk st)) (seg_file_path s)"
    if "s \<in> set segs"
    using r that paths_inj [OF ok, of s] tiled_inj [OF log_okD(5) [OF ok], of s] by auto
  show "no_stray (rlogs d) segs"
    unfolding no_stray_def
  proof (intro allI impI)
    fix p assume p: "p \<in> fst ` set (rlogs d)" "is_rlog p"
    have "map_of (rlogs d) p \<noteq> None" using p(1) name_of_iff by metis
    moreover have "map_of (rlogs d) p =
        (if p \<in> seg_file_path ` {s \<in> set (ds_segments st). \<not> P s} then None else map_of (rlogs (ds_disk st)) p)"
      using r by blast
    ultimately have np: "p \<notin> seg_file_path ` {s \<in> set (ds_segments st). \<not> P s}"
      and "map_of (rlogs (ds_disk st)) p \<noteq> None" by (metis, metis)
    then have "p \<in> seg_file_path ` set (ds_segments st)"
      using ok p(2) unfolding log_ok_def Let_def no_stray_def name_of_iff by blast
    with np r show "p \<in> seg_file_path ` set segs" by auto
  qed
qed

lemma tiled_split:
  assumes "tiled a segs b"
  shows "\<exists>c. tiled a (filter (\<lambda>s. seg_start_index s < i) segs) c \<and>
    tiled c (filter (\<lambda>s. \<not> seg_start_index s < i) segs) b \<and>
    (c < b \<longrightarrow> i \<le> c)"
  using assms
proof (induction segs arbitrary: a)
  case (Cons s ss)
  show ?case
  proof (cases "seg_start_index s < i")
    case True
    with Cons show ?thesis by auto
  next
    case False
    then have ge: "\<not> seg_start_index t < i" if "t \<in> set (s # ss)" for t
      using tiled_bounds [OF Cons.prems that] Cons.prems by auto
    have "filter (\<lambda>s. seg_start_index s < i) (s # ss) = []"
      "filter (\<lambda>s. \<not> seg_start_index s < i) (s # ss) = s # ss"
      using ge by (auto simp: filter_empty_conv)
    with Cons.prems False show ?thesis by (metis not_less tiled.simps)
  qed
qed simp

lemma tiled_compact:
  assumes "tiled a segs b"
  shows "\<exists>c. tiled c (filter (\<lambda>s. j < seg_end_index s) segs) b \<and> a \<le> c \<and> (c = a \<or> c \<le> Suc j)"
  using assms
proof (induction segs arbitrary: a)
  case (Cons s ss)
  show ?case
  proof (cases "j < seg_end_index s")
    case True
    then have "j < seg_end_index t" if "t \<in> set ss" for t
      using Cons.prems tiled_bounds [of "Suc (seg_end_index s)" ss b t] that by auto
    with True have "filter (\<lambda>s. j < seg_end_index s) (s # ss) = s # ss" by simp
    with Cons.prems show ?thesis by auto
  next
    case False
    obtain c where "tiled c (filter (\<lambda>s. j < seg_end_index s) ss) b"
      "Suc (seg_end_index s) \<le> c" "c = Suc (seg_end_index s) \<or> c \<le> Suc j"
      using Cons by auto
    with False Cons.prems show ?thesis by (auto intro!: exI [of _ c])
  qed
qed simp

lemma compact_prefix_ok:
  assumes ok: "log_ok cd k st"
  shows "\<exists>k'. log_ok cd k' (snd (compact_prefix j st)) \<and> (k' = k \<or> k' \<le> Suc j)"
proof -
  obtain segs d where ret: "retain_segments (\<lambda>s. j < seg_end_index s) (ds_segments st) (ds_disk st) = (segs, d)"
    by fastforce
  note t = log_okD(5) [OF ok]
  note r = retain_layout [OF ok ret]
  obtain c where c: "tiled c segs (length (ms_log (memory_cache st)))" "k \<le> c" "c = k \<or> c \<le> Suc j"
    unfolding r(1) using tiled_compact [OF t, of j] by blast
  have "seg_ok cd (ms_log (memory_cache st)) (rlogs d) s" if "s \<in> set segs" for s
  proof (rule seg_ok_frame [OF log_okD(6) [OF ok] refl r(6) [OF that]])
    show "s \<in> set (ds_segments st)" using that unfolding r(1) by simp
  qed
  then have "log_ok cd c (snd (compact_prefix j st))"
    using log_okD [OF ok] r(2-5) c by (intro log_okI) (simp_all add: compact_prefix_def ret)
  with c show ?thesis by blast
qed


lemma open_existing_calm:
  "io_plan d = [] \<Longrightarrow> map_of (rlogs d) p = Some bs \<Longrightarrow> open_existing p d = (Inr (), d)"
  by (simp add: open_existing_def io_then_def)

lemma takeWhile_index:
  assumes "indexed lg" and "a \<le> i"
  shows "takeWhile (\<lambda>e. le_index e < i) (drop a (take i lg)) = drop a (take i lg)"
proof (rule takeWhile_eq_all_conv [THEN iffD2], rule ballI)
  fix e assume "e \<in> set (drop a (take i lg))"
  then obtain m where "m < length (drop a (take i lg))" "e = drop a (take i lg) ! m"
    by (auto simp: in_set_conv_nth)
  moreover from this have "a + m < length (take i lg)" by (simp add: less_diff_conv add.commute)
  ultimately have "e = lg ! (a + m)" "a + m < i" "a + m < length lg" by (simp_all add: nth_drop)
  then show "le_index e < i" using indexed_nth [OF assms(1), of "a + m"] by simp
qed

text \<open>Truncation at a segment boundary only removes files.\<close>

lemma truncate_boundary_ok:
  assumes ok: "log_ok cd k st" and i: "1 \<le> i" and lg: "lg = ms_log (memory_cache st)"
    and ret: "retain_segments (\<lambda>s. seg_start_index s < i) (ds_segments st) (ds_disk st) = (segs, d)"
    and mc: "ms_log mc = take i lg" and none: "segs = [] \<or> seg_end_index (last segs) < i"
  shows "\<exists>k'. log_ok cd k' (st\<lparr>memory_cache := mc, ds_segments := segs, ds_disk := d\<rparr>) \<and> k' \<le> k"
proof -
  note r = retain_layout [OF ok ret]
  note D = log_okD [OF ok, folded lg]
  obtain c where c: "tiled k segs c" "c \<le> length lg" "c < length lg \<longrightarrow> i \<le> c"
    using tiled_split [OF D(5), of i] tiled_le unfolding r(1) by blast
  have st: "\<forall>e \<in> set (tl (take i lg)). storable (ser_entry cd) (de_entry cd) e"
    using D(3) by (cases lg; cases i) (auto dest: in_set_takeD)
  have seg: "seg_ok cd (take i lg) (rlogs d) s" if s: "s \<in> set segs" "c \<le> i" for s
  proof (rule seg_ok_frame [OF D(6)])
    show "s \<in> set (ds_segments st)" using s(1) unfolding r(1) by simp
    show "take (Suc (seg_end_index s)) (take i lg) = take (Suc (seg_end_index s)) lg"
      using tiled_bounds [OF c(1) s(1)] s(2) by (simp add: min_def)
  qed (rule r(6) [OF s(1)])
  show ?thesis
  proof (cases "segs = []")
    case True
    have "length (take i lg) \<le> k" using c True by auto
    moreover have "1 \<le> length (take i lg)" using D(4) c i True by auto
    moreover have "log_ok cd (length (take i lg)) (st\<lparr>memory_cache := mc, ds_segments := segs, ds_disk := d\<rparr>)"
      using D(1,2,10) r(2-5) st calculation(2) True
      by (intro log_okI) (simp_all add: mc indexed_take)
    ultimately show ?thesis by blast
  next
    case False
    then obtain xs s where s: "segs = xs @ [s]" by (cases segs rule: rev_cases) auto
    then have "c = Suc (seg_end_index s)" using c(1) by (auto simp: tiled_append)
    then have ci: "c \<le> i" "length (take i lg) = c" using none s c by auto
    have "log_ok cd k (st\<lparr>memory_cache := mc, ds_segments := segs, ds_disk := d\<rparr>)"
      using D(1,2,4,10) r(2-5) st seg ci c(1)
      by (intro log_okI) (simp_all add: mc indexed_take)
    then show ?thesis by blast
  qed
qed

text \<open>Truncation inside a segment rewrites its file.\<close>

lemma truncate_inside_ok:
  assumes ok: "log_ok cd k st" and lg: "lg = ms_log (memory_cache st)"
    and ret: "retain_segments (\<lambda>s. seg_start_index s < i) (ds_segments st) (ds_disk st) = (segs, d)"
    and mc: "ms_log mc = take i lg" and segs: "segs = xs @ [s]" and inside: "i \<le> seg_end_index s"
    and frames: "encode_all (crc32 cd) (ser_entry cd) (drop (seg_start_index s) (take i lg)) = Inr frames"
    and s': "seg_start_index s' = seg_start_index s" "seg_file_path s' = seg_file_path s"
      "Suc (seg_end_index s') = i"
  shows "log_ok cd k (st\<lparr>memory_cache := mc,
    ds_disk := append_rlog (seg_file_path s) frames (set_rlog (seg_file_path s) [] d),
    ds_segments := xs @ [s']\<rparr>)"
proof -
  note r = retain_layout [OF ok ret]
  note D = log_okD [OF ok, folded lg]
  have sub: "set segs \<subseteq> set (ds_segments st)" unfolding r(1) by simp
  have s: "s \<in> set (ds_segments st)" using sub segs by simp
  have si: "seg_start_index s < i"
  proof -
    have "s \<in> set (filter (\<lambda>s. seg_start_index s < i) (ds_segments st))"
      unfolding r(1) [symmetric] segs by simp
    then show ?thesis by simp
  qed
  obtain c where c: "tiled k segs c" using tiled_split [OF D(5), of i] unfolding r(1) by blast
  then have t: "tiled k xs (seg_start_index s)" by (auto simp: segs tiled_append)
  have len: "i < length lg" using tiled_bounds [OF D(5) s] inside by simp
  let ?p = "seg_file_path s"
  have rl: "rlogs (append_rlog ?p frames (set_rlog ?p [] d)) = AList.update ?p frames (rlogs d)"
    by (simp add: append_rlog_def set_rlog_def AList.update_conv')
  have old: "seg_ok cd (take i lg) (AList.update ?p frames (rlogs d)) x" if x: "x \<in> set xs" for x
  proof (rule seg_ok_frame [OF D(6)])
    show xs: "x \<in> set (ds_segments st)" using x sub segs by auto
    have b: "seg_end_index x < seg_start_index s" "seg_start_index x < seg_start_index s"
      using tiled_bounds [OF t x] by auto
    show "take (Suc (seg_end_index x)) (take i lg) = take (Suc (seg_end_index x)) lg"
      using b si by (simp add: min_def)
    have "seg_file_path x \<noteq> ?p" using paths_inj [OF ok xs s] b by auto
    then show "map_of (AList.update ?p frames (rlogs d)) (seg_file_path x) =
        map_of (rlogs (ds_disk st)) (seg_file_path x)"
      using r(6) [of x] x by (simp add: AList.update_conv' segs)
  qed
  have new: "seg_ok cd (take i lg) (AList.update ?p frames (rlogs d)) s'"
    using D(6) [OF s] frames by (simp add: seg_ok_def s' AList.update_conv')
  have st: "\<forall>e \<in> set (tl (take i lg)). storable (ser_entry cd) (de_entry cd) e"
    using D(3) by (cases lg; cases i) (auto dest: in_set_takeD)
  have ti: "tiled k (xs @ [s']) i"
    using t s' si by (auto simp: tiled_append)
  have ns: "no_stray (AList.update ?p frames (rlogs d)) (xs @ [s'])"
    using r(5) s'(2) by (simp add: no_stray_def update_names segs)
  show ?thesis
    using D(1,2,4,10) r(2-4) old new st ti ns len
    by (intro log_okI) (auto simp: mc rl indexed_take distinct_update)
qed


lemma durable_truncate_ok:
  assumes ok: "log_ok cd k st" and i: "1 \<le> i" and lg: "lg = ms_log (memory_cache st)"
  shows "fst (durable_truncate_suffix cd st i) = Inr () \<and>
    (\<exists>k'. log_ok cd k' (snd (durable_truncate_suffix cd st i)) \<and> k' \<le> k) \<and>
    ms_log (memory_cache (snd (durable_truncate_suffix cd st i))) = take i lg"
proof -
  obtain mc where mc: "truncate_suffix mem_ops (memory_cache st) i = (Inr (), mc)" "ms_log mc = take i lg"
    by (cases "i < length lg") (simp_all add: storage_simps lg)
  obtain segs d where ret: "retain_segments (\<lambda>s. seg_start_index s < i) (ds_segments st) (ds_disk st) = (segs, d)"
    by fastforce
  note r = retain_layout [OF ok ret]
  note D = log_okD [OF ok, folded lg]
  show ?thesis
  proof (cases "segs = [] \<or> seg_end_index (last segs) < i")
    case True
    with truncate_boundary_ok [OF ok i lg ret mc(2)] mc ret show ?thesis
      by (simp add: durable_truncate_suffix_def truncate_suffix_segmented_def Let_def)
  next
    case False
    then obtain xs s where segs: "segs = xs @ [s]" and inside: "i \<le> seg_end_index s"
      by (cases segs rule: rev_cases) auto
    have s: "s \<in> set segs" "s \<in> set (ds_segments st)" "seg_start_index s < i"
    proof -
      show 1: "s \<in> set segs" by (simp add: segs)
      then show "s \<in> set (ds_segments st)" "seg_start_index s < i" unfolding r(1) by simp_all
    qed
    have a1: "1 \<le> seg_start_index s" "i < length lg"
      using tiled_bounds [OF D(5) s(2)] D(4) inside by auto
    let ?kept = "drop (seg_start_index s) (take i lg)"
    have kept: "takeWhile (\<lambda>e. le_index e < i) ?kept = ?kept" "?kept \<noteq> []"
      using takeWhile_index [OF D(1), of "seg_start_index s" i] s(3) a1 by auto
    have "set ?kept \<subseteq> set (tl lg)"
      using a1(1) by (cases lg; cases "seg_start_index s"; cases i) (auto dest: in_set_dropD in_set_takeD)
    then obtain frames where f: "encode_all (crc32 cd) (ser_entry cd) ?kept = Inr frames"
      using encode_all_total [of ?kept] D(3) by blast
    have "last ?kept = lg ! (i - 1)"
      using s(3) a1 by (subst last_conv_nth) (auto simp: nth_append)
    then have e: "Suc (le_index (last ?kept)) = i"
      using indexed_nth [OF D(1), of "i - 1"] a1 i by simp
    obtain bs where bs: "map_of (rlogs d) (seg_file_path s) = Some bs"
      using r(6) [OF s(1)] D(6) [OF s(2)] by (auto simp: seg_ok_def)
    let ?s' = "s\<lparr>seg_end_index := le_index (last ?kept), seg_entry_count := length ?kept,
      seg_byte_size := length frames\<rparr>"
    have "durable_truncate_suffix cd st i = (Inr (), st\<lparr>memory_cache := mc,
        ds_disk := append_rlog (seg_file_path s) frames (set_rlog (seg_file_path s) [] d),
        ds_segments := xs @ [?s']\<rparr>)"
      using inside kept(2)
      by (simp add: durable_truncate_suffix_def truncate_suffix_segmented_def Let_def ret segs on_disk_def
          io_then_def open_existing_calm [OF r(2) bs] mc kept(1) f r(2) del: drop_eq_Nil)
    moreover have "log_ok cd k (st\<lparr>memory_cache := mc,
        ds_disk := append_rlog (seg_file_path s) frames (set_rlog (seg_file_path s) [] d),
        ds_segments := xs @ [?s']\<rparr>)"
      by (rule truncate_inside_ok [OF ok lg ret mc(2) segs inside f]) (simp_all add: e)
    ultimately show ?thesis using mc(2) by auto
  qed
qed

subsection \<open>Opening again\<close>

lemma segment_paths_ok:
  assumes ok: "log_ok cd k st"
  shows "segment_paths (ds_disk st) = map seg_file_path (ds_segments st)"
proof -
  note D = log_okD [OF ok]
  have lim: "seg_start_index s < name_limit" if "s \<in> set (ds_segments st)" for s
    using tiled_bounds [OF D(5) that] D(2) by simp
  have path: "seg_file_path s = segment_name (seg_start_index s)" if "s \<in> set (ds_segments st)" for s
    using D(6) [OF that] by (simp add: seg_ok_def)
  have "sorted_wrt (\<lambda>s t. segment_name (seg_start_index s) < segment_name (seg_start_index t)) (ds_segments st)"
    using tiled_sorted [OF D(5)] lim segment_name_less
    by (auto simp: sorted_wrt_map intro: sorted_wrt_mono_rel [rotated])
  then have "sorted_wrt (\<lambda>s t. seg_file_path s < seg_file_path t) (ds_segments st)"
    using path by (auto intro: sorted_wrt_mono_rel [rotated])
  then have "sorted_wrt (<) (map seg_file_path (ds_segments st))" by (simp add: sorted_wrt_map)
  then have 1: "sorted (map seg_file_path (ds_segments st))" "distinct (map seg_file_path (ds_segments st))"
    by (simp_all only: strict_sorted_iff)
  have "p \<in> fst ` set (rlogs (ds_disk st)) \<and> is_rlog p \<longleftrightarrow> p \<in> seg_file_path ` set (ds_segments st)" for p
  proof
    assume "p \<in> fst ` set (rlogs (ds_disk st)) \<and> is_rlog p"
    then show "p \<in> seg_file_path ` set (ds_segments st)" using D(8) by (simp add: no_stray_def)
  next
    assume "p \<in> seg_file_path ` set (ds_segments st)"
    then obtain s where s: "s \<in> set (ds_segments st)" "p = seg_file_path s" by blast
    then have "map_of (rlogs (ds_disk st)) p \<noteq> None" using D(6) [OF s(1)] by (auto simp: seg_ok_def)
    then show "p \<in> fst ` set (rlogs (ds_disk st)) \<and> is_rlog p"
      using path [OF s(1)] s(2) name_of_iff is_rlog_segment_name by metis
  qed
  then have "set (segment_paths (ds_disk st)) = set (map seg_file_path (ds_segments st))"
    by (auto simp: segment_paths_def)
  moreover have "sorted (segment_paths (ds_disk st))" "distinct (segment_paths (ds_disk st))"
    using D(7) by (simp_all add: segment_paths_def)
  ultimately show ?thesis using 1 by (intro sorted_distinct_set_unique)
qed

lemma recover_segment_ok:
  assumes "io_plan d = []" and "seg_ok cd lg (rlogs d) s"
    and "\<forall>e \<in> set (drop (seg_start_index s) (take (Suc (seg_end_index s)) lg)). storable (ser_entry cd) (de_entry cd) e"
  shows "\<exists>segs. recover_segment cd b (seg_file_path s) d =
    (Inr (segs, drop (seg_start_index s) (take (Suc (seg_end_index s)) lg)), d)"
proof -
  obtain bs where bs: "encode_all (crc32 cd) (ser_entry cd)
      (drop (seg_start_index s) (take (Suc (seg_end_index s)) lg)) = Inr bs"
    "map_of (rlogs d) (seg_file_path s) = Some bs"
    using assms(2) by (auto simp: seg_ok_def)
  have "read_rlog (seg_file_path s) d = (Inr bs, d)"
    using assms(1) bs(2) by (simp add: read_rlog_def io_then_def)
  with scan_encode_all [OF bs(1) assms(3), of "[]"] show ?thesis
    by (simp add: recover_segment_def io_then_def io_return_def)
qed

lemma recover_segments_ok:
  assumes "io_plan d = []" and "tiled a segs b" and "\<forall>s \<in> set segs. seg_ok cd lg (rlogs d) s"
    and "\<forall>e \<in> set (drop a lg). storable (ser_entry cd) (de_entry cd) e"
  shows "\<exists>segs'. recover_segments cd (map seg_file_path segs) d = (Inr (segs', drop a (take b lg)), d)"
  using assms(2-4)
proof (induction segs arbitrary: a)
  case (Cons s ss)
  let ?c = "Suc (seg_end_index s)"
  have a: "seg_start_index s = a" "a \<le> ?c" "?c \<le> b"
    using Cons.prems(1) tiled_le [of ?c ss b] by auto
  have "set (drop a (take ?c lg)) \<subseteq> set (drop a lg)" "set (drop ?c lg) \<subseteq> set (drop a lg)"
    using a by (auto simp: drop_take dest: in_set_takeD intro: set_drop_subset_set_drop [THEN subsetD])
  then have st: "\<forall>e \<in> set (drop a (take ?c lg)). storable (ser_entry cd) (de_entry cd) e"
    "\<forall>e \<in> set (drop ?c lg). storable (ser_entry cd) (de_entry cd) e"
    using Cons.prems(3) by blast+
  obtain x where x: "recover_segment cd (map seg_file_path ss = []) (seg_file_path s) d =
      (Inr (x, drop a (take ?c lg)), d)"
    using recover_segment_ok [OF assms(1), where b = "map seg_file_path ss = []" and s = s and lg = lg and cd = cd]
      Cons.prems(2) st(1) a(1) by auto
  obtain y where y: "recover_segments cd (map seg_file_path ss) d = (Inr (y, drop ?c (take b lg)), d)"
    using Cons.IH [of ?c] Cons.prems st(2) by auto
  have "drop a (take ?c lg) @ drop ?c (take b lg) = drop a (take b lg)"
  proof -
    have "drop a (take b lg) = drop a (take ?c (take b lg) @ drop ?c (take b lg))"
      by (simp only: append_take_drop_id)
    also have "\<dots> = drop a (take ?c lg) @ drop (a - length (take ?c lg)) (drop ?c (take b lg))"
      using a by (simp only: drop_append take_take min_absorb1)
    finally show ?thesis using a by (cases "?c \<le> length lg") auto
  qed
  with x y show ?case by (simp add: io_then_def io_return_def)
qed (simp add: io_return_def)

lemma recover_meta_calm:
  assumes "io_plan d = []" and "meta_holds crc de f dflt v d"
  shows "recover_meta crc de f dflt d = (Inr v, d)"
  using assms by (auto simp: recover_meta_def meta_holds_def read_file_def io_then_def io_return_def
      of_res_def split: option.splits)

lemma durable_open_ok:
  assumes ok: "log_ok cd k st" and inv: "durable_inv cd st" and lg: "lg = ms_log (memory_cache st)"
  shows "\<exists>st'. durable_open cd (ds_disk st) = (Inr st', ds_disk st) \<and>
    same_metas (memory_cache st) (memory_cache st') \<and>
    ms_log (memory_cache st') = (if k < length lg then drop k lg else [sentinel])"
proof -
  note D = log_okD [OF ok, folded lg]
  let ?d = "ds_disk st"
  have "set (drop k lg) \<subseteq> set (tl lg)"
    using D(4) by (cases lg; cases k) (auto dest: in_set_dropD)
  then obtain segs where segs: "recover_segments cd (segment_paths ?d) ?d = (Inr (segs, drop k lg), ?d)"
    using recover_segments_ok [OF D(9,5), of cd lg] D(3,6) by (auto simp: segment_paths_ok [OF ok])
  have m: "metas_hold cd (memory_cache st) ?d" using inv by (simp add: durable_inv_def)
  have r: "recover_meta (crc32 cd) (de_hs cd) StateFile hard_state_default ?d = (Inr (ms_hard_state (memory_cache st)), ?d)"
    "recover_meta (crc32 cd) (de_pg cd) ProgressFile progress_default ?d = (Inr (ms_progress (memory_cache st)), ?d)"
    "recover_meta (crc32 cd) (de_meta cd) SnapshotFile snapshot_meta_default ?d =
      (Inr (ms_snapshot_meta (memory_cache st)), ?d)"
    using m by (auto simp: metas_hold_def intro!: recover_meta_calm [OF D(9)])
  have "durable_open cd ?d = (Inr \<lparr>ds_disk = ?d, ds_segments = segs, max_entries_per_segment = 10000,
      max_segment_bytes = 16 * 1024 * 1024,
      memory_cache = open_cache (ms_hard_state (memory_cache st)) (ms_progress (memory_cache st))
        (ms_snapshot_meta (memory_cache st)) (drop k lg)\<rparr>, ?d)"
    using segs D(9) migrate_legacy_none [OF D(10), of cd]
    by (simp add: durable_open_def io_then_def r)
  then show ?thesis
    by (auto simp: same_metas_def open_cache_def mem_new_def)
qed


section \<open>What survives a restart\<close>

text \<open>
  The discipline of the consensus layer on the log: new entries continue the log, the
  sentinel is never cut off, and no compaction goes beyond index \<open>j\<close>.
\<close>

fun orderly_op :: "'m codec \<Rightarrow> nat \<Rightarrow> 'm durable_op \<Rightarrow> 'm durable_raft_storage \<Rightarrow> bool" where
  "orderly_op cd j (AppendEntries es) st =
     (let lg = ms_log (memory_cache st) in
      indexed (lg @ es) \<and> length (lg @ es) \<le> name_limit \<and>
      (\<forall>e \<in> set es. storable (ser_entry cd) (de_entry cd) e))"
| "orderly_op cd j (TruncateSuffix i) st = (1 \<le> i)"
| "orderly_op cd j (CompactPrefix i) st = (i \<le> j)"
| "orderly_op cd j x st = storable_meta cd x st"

lemma orderly_storable: "orderly_op cd j x st \<Longrightarrow> storable_meta cd x st"
  by (cases x) auto

lemma save_meta_log:
  assumes "write_atomic_framed crc ser f x (ds_disk st) = (r, d')" and "log_ok cd k st"
    and "ms_log mc = ms_log (memory_cache st)"
  shows "log_ok cd k (st\<lparr>ds_disk := d'\<rparr>)" and "log_ok cd k (st\<lparr>ds_disk := d', memory_cache := mc\<rparr>)"
proof -
  have "io_plan d' = []" "rlogs d' = rlogs (ds_disk st)" "files d' LegacyLog = files (ds_disk st) LegacyLog"
    using write_atomic_cases [OF assms(1)] assms(1) log_okD(9) [OF assms(2)]
    by (auto simp: write_atomic_framed_def io_then_def of_res_def set_file_def append_file_def
        split: sum.splits)
  then show "log_ok cd k (st\<lparr>ds_disk := d'\<rparr>)" "log_ok cd k (st\<lparr>ds_disk := d', memory_cache := mc\<rparr>)"
    using log_okD [OF assms(2)] assms(3) by (auto intro!: log_okI)
qed

lemma and_cache_log:
  assumes "log_ok cd k st" and "on_disk (write_atomic_framed crc ser f x) st = (r, st1)"
    and "\<And>mc. ms_log (snd (g mc)) = ms_log mc"
  shows "log_ok cd k (snd (and_cache (on_disk (write_atomic_framed crc ser f x) st) g))"
proof -
  obtain d' where w: "write_atomic_framed crc ser f x (ds_disk st) = (r, d')" and st1: "st1 = st\<lparr>ds_disk := d'\<rparr>"
    using assms(2) by (rule on_disk_cases)
  show ?thesis
    using save_meta_log [OF w assms(1)] assms(3)
    by (cases r) (auto simp: and_cache_def assms(2) st1 case_prod_beta)
qed

lemma orderly_step_log:
  assumes "durable_step cd x st = Some st'" and "orderly_op cd j x st" and "durable_inv cd st"
    and "log_ok cd k st" and "k \<le> Suc j"
  shows "\<exists>k'. log_ok cd k' st' \<and> k' \<le> Suc j"
proof (cases x)
  case (SaveHardState h)
  have "log_ok cd k (snd (durable_save_hard_state cd st h))"
    unfolding durable_save_hard_state_def
    by (rule and_cache_log [OF assms(4) prod.collapse [symmetric]]) (simp add: storage_simps Let_def)
  with SaveHardState assms show ?thesis by auto
next
  case (SaveProgress p)
  have "log_ok cd k (snd (durable_save_progress cd st p))"
    unfolding durable_save_progress_def
    by (rule and_cache_log [OF assms(4) prod.collapse [symmetric]]) (simp add: storage_simps)
  with SaveProgress assms show ?thesis by auto
next
  case (SaveSnapshotMeta sm)
  have "log_ok cd k (snd (durable_save_snapshot_meta cd st sm))"
    unfolding durable_save_snapshot_meta_def
    by (rule and_cache_log [OF assms(4) prod.collapse [symmetric]]) (simp add: storage_simps)
  with SaveSnapshotMeta assms show ?thesis by auto
next
  case (AppendEntries es)
  with assms durable_append_ok [OF assms(4) refl, of es] show ?thesis
    by (auto simp: durable_inv_def Let_def)
next
  case (TruncateSuffix i)
  with assms durable_truncate_ok [OF assms(4) _ refl, of i] show ?thesis by (auto intro: le_trans)
next
  case (CompactPrefix i)
  obtain k' where "log_ok cd k' st'" "k' = k \<or> k' \<le> Suc i"
    using compact_prefix_ok [OF assms(4), of i] assms(1) CompactPrefix by auto
  with CompactPrefix assms(2,5) show ?thesis by auto
next
  case Flush
  have "snd (durable_flush st) = st"
    using log_okD(9) [OF assms(4)]
    by (auto simp: durable_flush_def on_disk_def io_then_def open_existing_def)
  with Flush assms show ?thesis by auto
qed

lemma fresh_open_log_ok:
  assumes "durable_open cd (empty_disk []) = (Inr st, d)"
  shows "log_ok cd 1 st"
proof -
  have "durable_open cd (empty_disk []) = (Inr \<lparr>ds_disk = empty_disk [], ds_segments = [],
      max_entries_per_segment = 10000, max_segment_bytes = 16 * 1024 * 1024,
      memory_cache = open_cache hard_state_default progress_default snapshot_meta_default []\<rparr>, empty_disk [])"
    by (simp add: durable_open_def io_then_def empty_disk_def recover_meta_def migrate_legacy_def
        segment_paths_def io_return_def)
  with assms show ?thesis
    by (auto simp: log_ok_def Let_def open_cache_def mem_new_def indexed_def sentinel_def name_limit_def
        empty_disk_def no_stray_def)
qed

lemma orderly_run_log:
  assumes "durable_open cd (empty_disk []) = (Inr st0, d0)"
    and "run_ops (guarded (orderly_op cd j) (durable_step cd)) ops st0 = Some st"
  shows "durable_inv cd st \<and> (\<exists>k. log_ok cd k st \<and> k \<le> Suc j)"
proof (rule run_ops_invariant [OF assms(2)])
  show "durable_inv cd st0 \<and> (\<exists>k. log_ok cd k st0 \<and> k \<le> Suc j)"
    using durable_open_metas [OF assms(1) metas_hold_empty] durable_open_healthy [OF assms(1)]
      fresh_open_log_ok [OF assms(1)]
    by (auto simp: durable_inv_def intro!: exI [of _ 1])
next
  fix x s t assume "guarded (orderly_op cd j) (durable_step cd) x s = Some t"
    and i: "durable_inv cd s \<and> (\<exists>k. log_ok cd k s \<and> k \<le> Suc j)"
  then have "durable_step cd x s = Some t" "orderly_op cd j x s"
    by (auto simp: guarded_def split: if_splits)
  with i orderly_step_log [OF this] durable_step_inv [OF this(1) orderly_storable [OF this(2)]]
  show "durable_inv cd t \<and> (\<exists>k. log_ok cd k t \<and> k \<le> Suc j)" by blast
qed

end
