(* ===== verification/Durable_Restart.thy ===== *)
theory Durable_Restart
  imports Durable_Log
begin

text \<open>
  The guarantees of the durable storage across restarts and torn writes, with a small
  concrete codec that shows their hypotheses can hold.
\<close>

section \<open>A concrete codec\<close>

text \<open>One byte per number, for the witnesses.\<close>

definition demo_codec :: "nat codec" where
  "demo_codec =
     \<lparr>crc32 = (\<lambda>bs. word_of_nat (length bs)),
      ser_hs = (\<lambda>h. Some [word_of_nat (hs_current_term h),
        case hs_voted_for h of None \<Rightarrow> 0 | Some v \<Rightarrow> word_of_nat (v + 1)]),
      de_hs = (\<lambda>bs. if length bs \<noteq> 2 then None
        else Some \<lparr>hs_current_term = unat (bs ! 0),
          hs_voted_for = (if bs ! 1 = 0 then None else Some (unat (bs ! 1) - 1))\<rparr>),
      ser_pg = (\<lambda>p. Some (map word_of_nat [pg_commit_index p, pg_last_applied p, pg_snapshot_index p, pg_snapshot_term p])),
      de_pg = (\<lambda>bs. if length bs \<noteq> 4 then None
        else Some \<lparr>pg_commit_index = unat (bs ! 0), pg_last_applied = unat (bs ! 1),
          pg_snapshot_index = unat (bs ! 2), pg_snapshot_term = unat (bs ! 3)\<rparr>),
      ser_meta = (\<lambda>m. Some (map word_of_nat [sm_last_included_index m, sm_last_included_term m, sm_topology_epoch m])),
      de_meta = (\<lambda>bs. if length bs \<noteq> 3 then None
        else Some \<lparr>sm_last_included_index = unat (bs ! 0), sm_last_included_term = unat (bs ! 1),
          sm_topology_epoch = unat (bs ! 2)\<rparr>),
      ser_entry = (\<lambda>e. case le_command e of
          Data m \<Rightarrow> Some (map word_of_nat [le_term e, le_index e, m])
        | _ \<Rightarrow> Some (map word_of_nat [le_term e, le_index e])),
      de_entry = (\<lambda>bs. if length bs = 3
        then Some \<lparr>le_term = unat (bs ! 0), le_index = unat (bs ! 1), le_command = Data (unat (bs ! 2))\<rparr>
        else if length bs = 2
        then Some \<lparr>le_term = unat (bs ! 0), le_index = unat (bs ! 1), le_command = NoOp\<rparr>
        else None)\<rparr>"

definition demo_entry :: "nat raft_log_entry" where
  "demo_entry = \<lparr>le_term = 1, le_index = 1, le_command = Data 7\<rparr>"

definition demo_ops :: "nat durable_op list" where
  "demo_ops =
     [AppendEntries [demo_entry], SaveHardState \<lparr>hs_current_term = 3, hs_voted_for = Some 2\<rparr>,
      SaveProgress \<lparr>pg_commit_index = 1, pg_last_applied = 0, pg_snapshot_index = 0, pg_snapshot_term = 0\<rparr>,
      TruncateSuffix 4, CompactPrefix 0, Flush]"

lemma demo_storable:
  "storable (ser_hs demo_codec) (de_hs demo_codec) \<lparr>hs_current_term = 3, hs_voted_for = Some 2\<rparr>"
  "storable (ser_pg demo_codec) (de_pg demo_codec)
     \<lparr>pg_commit_index = 1, pg_last_applied = 0, pg_snapshot_index = 0, pg_snapshot_term = 0\<rparr>"
  "storable (ser_entry demo_codec) (de_entry demo_codec) demo_entry"
  by (simp_all add: storable_def demo_codec_def demo_entry_def)

lemma fresh_open:
  "durable_open cd (empty_disk []) = (Inr \<lparr>ds_disk = empty_disk [], ds_segments = [],
      max_entries_per_segment = 10000, max_segment_bytes = 16 * 1024 * 1024,
      memory_cache = open_cache hard_state_default progress_default snapshot_meta_default []\<rparr>, empty_disk [])"
  by (simp add: durable_open_def io_then_def empty_disk_def recover_meta_def migrate_legacy_def
      segment_paths_def io_return_def)

lemma demo_run:
  obtains st0 st where "durable_open demo_codec (empty_disk []) = (Inr st0, empty_disk [])"
    and "run_ops (guarded (orderly_op demo_codec 0) (durable_step demo_codec)) demo_ops st0 = Some st"
    and "run_ops (guarded (storable_meta demo_codec) (durable_step demo_codec)) demo_ops st0 = Some st"
  using fresh_open [of demo_codec] demo_storable
  by (simp add: demo_ops_def guarded_def open_cache_def mem_new_def indexed_def less_Suc_eq sentinel_def
      demo_entry_def name_limit_def nth_Cons')

section \<open>Streams of frames\<close>

text \<open>
  Log files round trip. The frames of a list of entries, written one after the other,
  decode to exactly these entries and to the end of the file.
\<close>

theorem log_file_round_trip:
  assumes "encode_all crc ser xs = Inr bs" and "\<forall>x \<in> set xs. storable ser de x"
  shows "scan_frames crc de bs = (xs, length bs, None)"
  using scan_encode_all [OF assms, of "[]"] by simp

theorem log_file_round_trip_witness:
  "\<exists>bs. encode_all (crc32 demo_codec) (ser_entry demo_codec) [demo_entry, demo_entry] = Inr bs \<and>
     scan_frames (crc32 demo_codec) (de_entry demo_codec) bs = ([demo_entry, demo_entry], length bs, None)"
proof -
  obtain bs where e: "encode_all (crc32 demo_codec) (ser_entry demo_codec) [demo_entry, demo_entry] = Inr bs"
    by (simp add: demo_codec_def demo_entry_def encode_framed_record_def)
  from log_file_round_trip [OF this, of "de_entry demo_codec"] demo_storable(3) e show ?thesis by auto
qed

text \<open>
  Nothing unchecked is accepted. A record is only ever returned from a buffer that
  starts with the magic number and version, holds the whole payload, and whose payload has
  the recorded checksum and decodes to that record.
\<close>

theorem frame_accepted_only_if_intact:
  assumes "decode_framed_record crc de buffer = Inr (x, n)"
  shows "u32_from_le (slice 0 4 buffer) = RAFT_FRAME_MAGIC \<and>
    u16_from_le (slice 4 6 buffer) = RAFT_FRAME_VERSION \<and>
    n = RAFT_FRAME_HEADER_SIZE + unat (u32_from_le (slice 6 10 buffer)) \<and> n \<le> length buffer \<and>
    crc (slice RAFT_FRAME_HEADER_SIZE n buffer) = u32_from_le (slice 10 14 buffer) \<and>
    de (slice RAFT_FRAME_HEADER_SIZE n buffer) = Some x"
  using assms by (auto simp: decode_framed_record_def Let_def split: if_splits option.splits)

theorem frame_accepted_only_if_intact_witness:
  "\<exists>frame. decode_framed_record (crc32 demo_codec) (de_entry demo_codec) frame = Inr (demo_entry, length frame) \<and>
     u32_from_le (slice 0 4 frame) = RAFT_FRAME_MAGIC"
proof -
  obtain frame where e: "encode_framed_record (crc32 demo_codec) (ser_entry demo_codec) demo_entry = Inr frame"
    by (simp add: demo_codec_def demo_entry_def encode_framed_record_def)
  from storable_frame [OF demo_storable(3) this] have
    d: "decode_framed_record (crc32 demo_codec) (de_entry demo_codec) frame = Inr (demo_entry, length frame)" by simp
  from frame_accepted_only_if_intact [OF this] d show ?thesis by blast
qed

section \<open>Restarts\<close>

text \<open>
  C6. Votes and progress survive a restart. Under any pattern of I/O failures, before and
  during the restart, an engine that opens finds exactly the term and vote, the progress and
  the snapshot metadata that the last successful writes left in the running engine.
\<close>

theorem metadata_survives_restart:
  assumes "durable_open cd (empty_disk plan) = (Inr st0, d0)"
    and "run_ops (guarded (storable_meta cd) (durable_step cd)) ops st0 = Some st"
    and "durable_open cd ((ds_disk st)\<lparr>io_plan := plan'\<rparr>) = (Inr st', d')"
  shows "ms_hard_state (memory_cache st') = ms_hard_state (memory_cache st) \<and>
    ms_progress (memory_cache st') = ms_progress (memory_cache st) \<and>
    ms_snapshot_meta (memory_cache st') = ms_snapshot_meta (memory_cache st)"
proof -
  have "metas_hold cd (memory_cache st) ((ds_disk st)\<lparr>io_plan := plan'\<rparr>)"
    using durable_run_inv [OF assms(1,2)] by (simp add: durable_inv_def metas_hold_def meta_holds_def)
  from durable_open_metas [OF assms(3) this] show ?thesis by (simp add: same_metas_def)
qed

theorem metadata_survives_restart_witness:
  "\<exists>st0 st st'. durable_open demo_codec (empty_disk []) = (Inr st0, empty_disk []) \<and>
     run_ops (guarded (storable_meta demo_codec) (durable_step demo_codec)) demo_ops st0 = Some st \<and>
     durable_open demo_codec (ds_disk st) = (Inr st', ds_disk st) \<and>
     ms_hard_state (memory_cache st') = ms_hard_state (memory_cache st)"
proof -
  obtain st0 st where r: "durable_open demo_codec (empty_disk []) = (Inr st0, empty_disk [])"
    "run_ops (guarded (orderly_op demo_codec 0) (durable_step demo_codec)) demo_ops st0 = Some st"
    "run_ops (guarded (storable_meta demo_codec) (durable_step demo_codec)) demo_ops st0 = Some st"
    by (rule demo_run)
  obtain k where k: "log_ok demo_codec k st" "durable_inv demo_codec st"
    using orderly_run_log [OF r(1,2)] by blast
  obtain st' where o: "durable_open demo_codec (ds_disk st) = (Inr st', ds_disk st)"
    using durable_open_ok [OF k refl] by blast
  have "(ds_disk st)\<lparr>io_plan := []\<rparr> = ds_disk st" using log_okD(9) [OF k(1)] by simp
  with o have "durable_open demo_codec ((ds_disk st)\<lparr>io_plan := []\<rparr>) = (Inr st', ds_disk st)" by simp
  from metadata_survives_restart [OF r(1,3) this] r(1,3) o show ?thesis by blast
qed

text \<open>
  C5. The log survives a restart. On a working device, whatever appends, truncations,
  metadata writes and compactions up to index \<open>j\<close> the engine has performed, opening the
  directory again succeeds and finds the log from some index of at most \<open>j + 1\<close> on, so every
  entry after the compacted prefix is back. Index 0 is not: the sentinel is never written,
  and it returns only when no entry is stored at all.
\<close>

theorem log_survives_restart:
  assumes "durable_open cd (empty_disk []) = (Inr st0, d0)"
    and "run_ops (guarded (orderly_op cd j) (durable_step cd)) ops st0 = Some st"
  shows "\<exists>k st'. 1 \<le> k \<and> k \<le> j + 1 \<and> durable_open cd (ds_disk st) = (Inr st', ds_disk st) \<and>
    ms_log (memory_cache st') =
      (if k < length (ms_log (memory_cache st)) then drop k (ms_log (memory_cache st)) else [sentinel])"
proof -
  obtain k where k: "log_ok cd k st" "k \<le> Suc j" and inv: "durable_inv cd st"
    using orderly_run_log [OF assms] by blast
  from durable_open_ok [OF k(1) inv refl] obtain st' where
    "durable_open cd (ds_disk st) = (Inr st', ds_disk st)"
    "ms_log (memory_cache st') =
      (if k < length (ms_log (memory_cache st)) then drop k (ms_log (memory_cache st)) else [sentinel])"
    by blast
  with log_okD(4) [OF k(1)] k(2) show ?thesis by (intro exI [of _ k] exI [of _ st']) simp
qed

theorem log_survives_restart_witness:
  "\<exists>st0 st k st'. durable_open demo_codec (empty_disk []) = (Inr st0, empty_disk []) \<and>
     run_ops (guarded (orderly_op demo_codec 0) (durable_step demo_codec)) demo_ops st0 = Some st \<and>
     1 \<le> k \<and> k \<le> 0 + 1 \<and> durable_open demo_codec (ds_disk st) = (Inr st', ds_disk st) \<and>
     ms_log (memory_cache st') =
       (if k < length (ms_log (memory_cache st)) then drop k (ms_log (memory_cache st)) else [sentinel])"
proof -
  obtain st0 st where r: "durable_open demo_codec (empty_disk []) = (Inr st0, empty_disk [])"
    "run_ops (guarded (orderly_op demo_codec 0) (durable_step demo_codec)) demo_ops st0 = Some st"
    by (rule demo_run)
  show ?thesis
    by (rule exI [of _ st0], rule exI [of _ st]) (use log_survives_restart [OF r(1,2)] r(1,2) in blast)
qed

text \<open>
  C26. A reopened log is shifted. The consequence for the running node: the recovered log is no longer indexed by position,
  although all of consensus reads it that way.
\<close>

theorem reopened_log_not_indexed:
  assumes "durable_open cd (empty_disk []) = (Inr st0, d0)"
    and "run_ops (guarded (orderly_op cd 0) (durable_step cd)) ops st0 = Some st"
    and "1 < length (ms_log (memory_cache st))"
  shows "\<exists>st'. durable_open cd (ds_disk st) = (Inr st', ds_disk st) \<and>
    ms_log (memory_cache st') = tl (ms_log (memory_cache st)) \<and> \<not> indexed (ms_log (memory_cache st'))"
proof -
  obtain k where k: "log_ok cd k st" "k \<le> Suc 0" and inv: "durable_inv cd st"
    using orderly_run_log [OF assms(1,2)] by blast
  note D = log_okD [OF k(1)]
  have k1: "k = 1" using D(4) k(2) by simp
  have "le_index (tl (ms_log (memory_cache st)) ! 0) = 1"
    using indexed_nth [OF D(1), of 1] assms(3) by (simp add: nth_tl)
  then have "\<not> indexed (tl (ms_log (memory_cache st)))"
    using assms(3) by (auto simp: indexed_def intro!: exI [of _ 0])
  with durable_open_ok [OF k(1) inv refl] k1 assms(3) show ?thesis by (auto simp: drop_Suc)
qed

theorem reopened_log_not_indexed_witness:
  "\<exists>st0 st st'. durable_open demo_codec (empty_disk []) = (Inr st0, empty_disk []) \<and>
     run_ops (guarded (orderly_op demo_codec 0) (durable_step demo_codec)) [AppendEntries [demo_entry]] st0 = Some st \<and>
     durable_open demo_codec (ds_disk st) = (Inr st', ds_disk st) \<and> \<not> indexed (ms_log (memory_cache st'))"
proof -
  let ?st0 = "\<lparr>ds_disk = empty_disk [], ds_segments = [], max_entries_per_segment = 10000,
      max_segment_bytes = 16 * 1024 * 1024,
      memory_cache = open_cache hard_state_default progress_default snapshot_meta_default []\<rparr>"
  have lg: "ms_log (open_cache hard_state_default progress_default snapshot_meta_default []) = [sentinel]"
    by (simp add: open_cache_def mem_new_def)
  have i: "indexed ([sentinel] @ [demo_entry])"
    by (simp add: indexed_def less_Suc_eq sentinel_def demo_entry_def)
  have r: "run_ops (guarded (orderly_op demo_codec 0) (durable_step demo_codec)) [AppendEntries [demo_entry]] ?st0 =
      Some (snd (durable_append_entries demo_codec ?st0 [demo_entry]))"
    using i demo_storable(3) by (simp add: guarded_def lg name_limit_def Let_def)
  have "length (ms_log (memory_cache (snd (durable_append_entries demo_codec ?st0 [demo_entry])))) = 2"
    using durable_append_ok [OF fresh_open_log_ok [OF fresh_open] refl durable_open_healthy [OF fresh_open], of "[demo_entry]"]
      i demo_storable(3) by (simp add: lg name_limit_def)
  then have "1 < length (ms_log (memory_cache (snd (durable_append_entries demo_codec ?st0 [demo_entry]))))" by simp
  from reopened_log_not_indexed [OF fresh_open r this] r fresh_open show ?thesis by blast
qed

section \<open>Torn appends\<close>

lemma scan_torn:
  assumes "encode_all (crc32 cd) (ser_entry cd) es = Inr bs"
    and "\<forall>e \<in> set es. storable (ser_entry cd) (de_entry cd) e"
    and "encode_framed_record (crc32 cd) (ser_entry cd) e = Inr frame"
    and "storable (ser_entry cd) (de_entry cd) e" and "0 < n" and "n < length frame"
  shows "\<exists>err. scan_frames (crc32 cd) (de_entry cd) (bs @ take n frame) = (es, length bs, Some err)"
proof -
  obtain p where p: "ser_entry cd e = Some p" "length p < 2 ^ 32"
    using assms(4) by (auto simp: storable_def)
  obtain err where err: "decode_framed_record (crc32 cd) (de_entry cd) (take n frame) = Inl err"
    using decode_torn [OF assms(3) p assms(6), of "de_entry cd"]
    by (cases "decode_framed_record (crc32 cd) (de_entry cd) (take n frame)") auto
  then have "scan_frames (crc32 cd) (de_entry cd) (take n frame) = ([], 0, Some err)"
    using assms(5,6) by (subst scan_frames.simps) auto
  with scan_encode_all [OF assms(1,2), of "take n frame"] show ?thesis by simp
qed

text \<open>
  A torn header is cut off. When a crash during an append leaves fewer bytes of the
  next frame than a frame header, recovery of the last segment file returns all complete
  entries and cuts the file back to them.
\<close>

theorem torn_header_cut_off:
  assumes "encode_all (crc32 cd) (ser_entry cd) es = Inr bs"
    and "\<forall>e \<in> set es. storable (ser_entry cd) (de_entry cd) e"
    and "encode_framed_record (crc32 cd) (ser_entry cd) e = Inr frame"
    and "storable (ser_entry cd) (de_entry cd) e" and "0 < n" and "n < RAFT_FRAME_HEADER_SIZE"
    and "io_plan d = []" and "map_of (rlogs d) path = Some (bs @ take n frame)"
  shows "\<exists>segs d'. recover_segment cd True path d = (Inr (segs, es), d') \<and>
    map_of (rlogs d') path = Some bs"
proof -
  obtain p where p: "ser_entry cd e = Some p" using assms(4) by (auto simp: storable_def)
  have n: "n < length frame" using encode_framed_record_length [OF assms(3) p] assms(6) by simp
  obtain err where "scan_frames (crc32 cd) (de_entry cd) (bs @ take n frame) = (es, length bs, Some err)"
    using scan_torn [OF assms(1-5) n] by blast
  moreover have "read_rlog path d = (Inr (bs @ take n frame), d)"
    using assms(7,8) by (simp add: read_rlog_def io_then_def)
  ultimately show ?thesis using assms(6-8) n
    by (simp add: recover_segment_def io_then_def io_return_def open_existing_calm set_rlog_def
        AList.update_conv')
qed

theorem torn_header_cut_off_witness:
  "\<exists>bs frame segs d'.
     encode_all (crc32 demo_codec) (ser_entry demo_codec) [demo_entry] = Inr bs \<and>
     encode_framed_record (crc32 demo_codec) (ser_entry demo_codec) demo_entry = Inr frame \<and>
     recover_segment demo_codec True ''1.rlog''
       \<lparr>files = Map.empty, rlogs = [(''1.rlog'', bs @ take 5 frame)], io_plan = []\<rparr> = (Inr (segs, [demo_entry]), d') \<and>
     map_of (rlogs d') ''1.rlog'' = Some bs"
proof -
  obtain bs frame where e: "encode_all (crc32 demo_codec) (ser_entry demo_codec) [demo_entry] = Inr bs"
    "encode_framed_record (crc32 demo_codec) (ser_entry demo_codec) demo_entry = Inr frame"
    by (simp add: demo_codec_def demo_entry_def encode_framed_record_def)
  have "\<forall>e \<in> set [demo_entry]. storable (ser_entry demo_codec) (de_entry demo_codec) e"
    using demo_storable(3) by simp
  from torn_header_cut_off [OF e(1) this e(2) demo_storable(3), where n = 5 and path = "''1.rlog''" and
      d = "\<lparr>files = Map.empty, rlogs = [(''1.rlog'', bs @ take 5 frame)], io_plan = []\<rparr>"]
  obtain segs d' where "recover_segment demo_codec True ''1.rlog''
      \<lparr>files = Map.empty, rlogs = [(''1.rlog'', bs @ take 5 frame)], io_plan = []\<rparr> = (Inr (segs, [demo_entry]), d')"
    "map_of (rlogs d') ''1.rlog'' = Some bs"
    by (auto simp: RAFT_FRAME_HEADER_SIZE_def)
  with e show ?thesis by blast
qed

text \<open>A tail whose header is complete but whose payload is cut is refused instead.\<close>

lemma torn_payload_refused:
  assumes "encode_all (crc32 cd) (ser_entry cd) es = Inr bs"
    and "\<forall>e \<in> set es. storable (ser_entry cd) (de_entry cd) e"
    and "encode_framed_record (crc32 cd) (ser_entry cd) e = Inr frame"
    and "storable (ser_entry cd) (de_entry cd) e" and "RAFT_FRAME_HEADER_SIZE \<le> n" and "n < length frame"
    and "io_plan d = []" and "map_of (rlogs d) path = Some (bs @ take n frame)"
  shows "recover_segment cd b path d = (Inl (Internal ''Corrupted Raft log frame in segment''), d)"
proof -
  have n: "0 < n" using assms(5) by (simp add: RAFT_FRAME_HEADER_SIZE_def)
  obtain err where "scan_frames (crc32 cd) (de_entry cd) (bs @ take n frame) = (es, length bs, Some err)"
    using scan_torn [OF assms(1-4) n assms(6)] by blast
  moreover have "read_rlog path d = (Inr (bs @ take n frame), d)"
    using assms(7,8) by (simp add: read_rlog_def io_then_def)
  ultimately show ?thesis using assms(5,6)
    by (simp add: recover_segment_def io_then_def io_fail_def)
qed

end
