(* ===== verification/Raft_Durable.thy ===== *)
theory Raft_Durable
  imports Raft_Election Durable_Restart
begin

text \<open>
  Elections over the durable storage engine. The cached state of \<open>durable_ops\<close> meets the
  storage contract of the consensus layer for every pattern of I/O errors, so the election
  argument carries over. A crash with a restart of the process is a \<open>StorageFault\<close> to an
  engine that has the same term and vote, followed by \<open>Restart\<close>; that opening the directory
  again yields such an engine is the theorem on metadata in \<open>Durable_Restart\<close>.
\<close>

definition durable_hs :: "'m durable_raft_storage \<Rightarrow> raft_hard_state" where
  "durable_hs st = ms_hard_state (memory_cache st)"

definition durable_pg :: "'m durable_raft_storage \<Rightarrow> raft_persistent_progress" where
  "durable_pg st = ms_progress (memory_cache st)"

definition durable_lg :: "'m durable_raft_storage \<Rightarrow> 'm raft_log_entry list" where
  "durable_lg st = ms_log (memory_cache st)"

definition durable_fault :: "'m durable_raft_storage \<Rightarrow> 'm durable_raft_storage \<Rightarrow> bool" where
  "durable_fault st st' \<longleftrightarrow>
     durable_hs st' = durable_hs st \<and> (no_membership (durable_lg st) \<longrightarrow> no_membership (durable_lg st'))"

definition durable_fresh :: "'m codec \<Rightarrow> 'm durable_raft_storage \<Rightarrow> bool" where
  "durable_fresh cd st \<longleftrightarrow> (\<exists>plan d. durable_open cd (empty_disk plan) = (Inr st, d))"

lemma recover_meta_bare:
  "recover_meta crc de f dflt d = (Inr x, d') \<Longrightarrow> files d = Map.empty \<Longrightarrow> d' = d"
  by (simp add: recover_meta_def)

lemma recover_no_segments:
  assumes "durable_open cd (empty_disk plan) = (Inr st, d)"
  shows "durable_lg st = [sentinel]"
proof -
  let ?bare = "\<lambda>d. files d = Map.empty \<and> rlogs d = []"
  have tick: "?bare d' = ?bare d" if "io_tick d = (r, d')" for d r d'
    using io_tick_idle [OF that] by (simp add: idle_def)
  obtain d1 d2 h d3 p d4 sm d5 d6 d7 segs es where
    t: "io_tick (empty_disk plan) = (Inr (), d1)" "io_tick d1 = (Inr (), d2)"
    and m: "recover_meta (crc32 cd) (de_hs cd) StateFile hard_state_default d2 = (Inr h, d3)"
      "recover_meta (crc32 cd) (de_pg cd) ProgressFile progress_default d3 = (Inr p, d4)"
      "recover_meta (crc32 cd) (de_meta cd) SnapshotFile snapshot_meta_default d4 = (Inr sm, d5)"
    and l: "migrate_legacy cd d5 = (Inr (), d6)" "io_tick d6 = (Inr (), d7)"
    and r: "recover_segments cd (segment_paths d7) d7 = (Inr (segs, es), d)"
    and st: "st = \<lparr>ds_disk = d, ds_segments = segs, max_entries_per_segment = 10000,
               max_segment_bytes = 16 * 1024 * 1024, memory_cache = open_cache h p sm es\<rparr>"
    using assms by (rule durable_openE)
  have "?bare d2" using tick [OF t(1)] tick [OF t(2)] by (simp add: empty_disk_def)
  moreover from this have "d3 = d2" by (rule recover_meta_bare [OF m(1) conjunct1])
  moreover from calculation have "d4 = d2" using recover_meta_bare [OF m(2)] by simp
  moreover from calculation have "d5 = d2" using recover_meta_bare [OF m(3)] by simp
  ultimately have "?bare d6" using l(1) by (simp add: migrate_legacy_def)
  then have "segment_paths d7 = []" using tick [OF l(2)] by (simp add: segment_paths_def)
  with r st show ?thesis by (simp add: io_return_def durable_lg_def open_cache_def mem_new_def)
qed

lemma append_segmented_cache:
  "append_entries_segmented cd es st = (r, st') \<Longrightarrow> memory_cache st' = memory_cache st"
  using append_segmented_meta by blast

lemma truncate_segmented_cache:
  "truncate_suffix_segmented cd i st = (r, st') \<Longrightarrow> memory_cache st' = memory_cache st"
  using truncate_segmented_meta by blast

text \<open>The cache after an operation: unchanged, or what the memory storage makes of it.\<close>

lemma and_cache_cases:
  assumes "and_cache (on_disk f st) g = (r, st')"
  shows "(\<exists>e. r = Inl e) \<and> memory_cache st' = memory_cache st \<or> g (memory_cache st) = (r, memory_cache st')"
  using assms by (auto simp: and_cache_def on_disk_def split: prod.splits sum.splits)

lemma durable_append_cases:
  assumes "durable_append_entries cd st es = (r, st')"
  shows "(\<exists>e. r = Inl e) \<and> memory_cache st' = memory_cache st \<or>
    append_entries mem_ops (memory_cache st) es = (r, memory_cache st')"
proof -
  obtain r1 st1 where a: "append_entries_segmented cd es st = (r1, st1)" by fastforce
  with assms append_segmented_cache [OF a] show ?thesis
    by (cases r1) (auto simp: durable_append_entries_def and_cache_def split: prod.splits)
qed

lemma durable_truncate_cache:
  "memory_cache (snd (durable_truncate_suffix cd st i)) = snd (truncate_suffix mem_ops (memory_cache st) i)"
proof -
  let ?st = "st\<lparr>memory_cache := snd (truncate_suffix mem_ops (memory_cache st) i)\<rparr>"
  obtain r st1 where t: "truncate_suffix_segmented cd i ?st = (r, st1)" by fastforce
  then have "snd (durable_truncate_suffix cd st i) = st1"
    by (auto simp: durable_truncate_suffix_def storage_simps split: prod.splits if_splits)
  with truncate_segmented_cache [OF t] show ?thesis by simp
qed

lemma save_hs_cache:
  "durable_save_hard_state cd st h = (r, st') \<Longrightarrow>
     (\<exists>e. r = Inl e) \<and> memory_cache st' = memory_cache st \<or>
     save_hard_state mem_ops (memory_cache st) h = (r, memory_cache st')"
  unfolding durable_save_hard_state_def by (drule and_cache_cases)

lemma save_pg_cache:
  "durable_save_progress cd st p = (r, st') \<Longrightarrow>
     (\<exists>e. r = Inl e) \<and> memory_cache st' = memory_cache st \<or>
     save_progress mem_ops (memory_cache st) p = (r, memory_cache st')"
  unfolding durable_save_progress_def by (drule and_cache_cases)

lemma durable_ops_simps:
  "save_hard_state (durable_ops cd) = durable_save_hard_state cd"
  "save_progress (durable_ops cd) = durable_save_progress cd"
  "append_entries (durable_ops cd) = durable_append_entries cd"
  "truncate_suffix (durable_ops cd) = durable_truncate_suffix cd"
  "load_hard_state (durable_ops cd) st = Inr (durable_hs st)"
  "load_log_entries (durable_ops cd) st i = load_log_entries mem_ops (memory_cache st) i"
  by (simp_all add: durable_ops_def mem_ops_def durable_hs_def)

lemma durable_frame:
  "durable_hs (snd (durable_save_progress cd st p)) = durable_hs st"
  "durable_hs (snd (durable_append_entries cd st es)) = durable_hs st"
  "durable_hs (snd (durable_truncate_suffix cd st i)) = durable_hs st"
  "set (durable_lg (snd (durable_save_hard_state cd st h))) \<subseteq> set (durable_lg st)"
  "set (durable_lg (snd (durable_save_progress cd st p))) \<subseteq> set (durable_lg st)"
  "set (durable_lg (snd (durable_append_entries cd st es))) \<subseteq> set (durable_lg st) \<union> set es"
  "set (durable_lg (snd (durable_truncate_suffix cd st i))) \<subseteq> set (durable_lg st)"
proof -
  let ?mc = "memory_cache st"
  note F = mem.frame_hs [of ?mc] and G = mem.grow_lg [of ?mc]
  show "durable_hs (snd (durable_save_progress cd st p)) = durable_hs st"
    "set (durable_lg (snd (durable_save_progress cd st p))) \<subseteq> set (durable_lg st)"
    using F(1) [of p] G(2) [of p]
    by (cases "durable_save_progress cd st p", auto simp: durable_hs_def durable_lg_def dest!: save_pg_cache)+
  show "set (durable_lg (snd (durable_save_hard_state cd st h))) \<subseteq> set (durable_lg st)"
    using G(1) [of h]
    by (cases "durable_save_hard_state cd st h") (auto simp: durable_lg_def dest!: save_hs_cache)
  show "durable_hs (snd (durable_append_entries cd st es)) = durable_hs st"
    "set (durable_lg (snd (durable_append_entries cd st es))) \<subseteq> set (durable_lg st) \<union> set es"
    using F(2) [of es] G(3) [of es]
    by (cases "durable_append_entries cd st es", auto simp: durable_hs_def durable_lg_def dest!: durable_append_cases)+
  show "durable_hs (snd (durable_truncate_suffix cd st i)) = durable_hs st"
    "set (durable_lg (snd (durable_truncate_suffix cd st i))) \<subseteq> set (durable_lg st)"
    using F(3) [of i] G(4) [of i] by (simp_all add: durable_hs_def durable_lg_def durable_truncate_cache)
qed

interpretation df: faulty_storage "durable_ops cd" durable_hs durable_pg durable_lg "\<lambda>_. False"
  durable_fault "durable_fresh cd" for cd :: "'m codec"
proof unfold_locales
  fix st st' :: "'m durable_raft_storage" and h and e
  show "durable_hs st' = h" if "save_hard_state (durable_ops cd) st h = (Inr (), st')"
    using that mem.save_hs by (auto simp: durable_ops_simps durable_hs_def dest!: save_hs_cache)
  show "durable_hs st' = durable_hs st \<or> durable_hs st' = h"
    if "save_hard_state (durable_ops cd) st h = (Inl e, st')"
    using that mem.save_hs_err [of "memory_cache st" h e "memory_cache st'"]
    by (auto simp: durable_ops_simps durable_hs_def dest!: save_hs_cache)
  show "set ls \<subseteq> set (durable_lg st)" if "load_log_entries (durable_ops cd) st i = Inr ls" for i ls
    using that mem.grow_lg(5) by (simp add: durable_ops_simps durable_lg_def)
  show "no_membership (durable_lg st)" if "durable_fresh cd st"
    using that by (auto simp: durable_fresh_def no_membership_def sentinel_def dest!: recover_no_segments)
qed (auto simp: durable_ops_simps durable_frame durable_fault_def dest: durable_frame(4-7) [THEN subsetD])


definition durable_env :: "(nat, nat durable_raft_storage, nat list) raft_env" where
  "durable_env = \<lparr>env_storage = durable_ops demo_codec, env_apply = env_apply demo_env,
     env_mutation_id = env_mutation_id demo_env\<rparr>"

definition durable_new :: "nat durable_raft_storage" where
  "durable_new = \<lparr>ds_disk = empty_disk [], ds_segments = [], max_entries_per_segment = 10000,
     max_segment_bytes = 16 * 1024 * 1024,
     memory_cache = open_cache hard_state_default progress_default snapshot_meta_default []\<rparr>"

lemmas durable_eval =
  durable_env_def durable_new_def durable_ops_def durable_save_hard_state_def durable_save_progress_def
  durable_append_entries_def append_entries_segmented_def need_rotation_def and_cache_def on_disk_def
  write_atomic_framed_def encode_framed_record_def demo_codec_def io_simps open_cache_def empty_disk_def
  AList.update_conv' segment_meta_def

lemma durable_new_fresh: "durable_fresh demo_codec durable_new"
  unfolding durable_fresh_def durable_new_def using fresh_open by blast

definition durable_run :: "(nat, nat durable_raft_storage, nat list) action list" where
  "durable_run = [StorageFault 3 (durable_new\<lparr>ds_disk := empty_disk [Fails 3]\<rparr>), Elect 0 1, Elect 0 2]"


end
