(* ===== verification/Raft_Apply.thy ===== *)
theory Raft_Apply
  imports Raft_Cluster
begin

text \<open>
  Applying committed entries: the index-chasing loop of \<^verbatim>\<open>apply_committed_entries\<close> against a
  plain fold over the entries, and the recovery of a state machine from the stored log
  against the live application; the choices \<^verbatim>\<open>RaftCluster\<close> makes when it routes reads and
  transfers leadership.
\<close>

section \<open>The apply loop\<close>

fun apply_entries ::
  "('m, 'st, 'sm) raft_env \<Rightarrow> nat \<Rightarrow> 'm raft_log_entry list \<Rightarrow> nat \<Rightarrow> ('m, 'st, 'sm) raft_node \<Rightarrow>
     completion list \<Rightarrow> failure list \<Rightarrow>
     ('m, 'st, 'sm) raft_node \<times> nat \<times> completion list \<times> failure list" where
  "apply_entries env epoch [] applied n cs fs = (n, applied, cs, fs)"
| "apply_entries env epoch (e # es) applied n cs fs =
     (case apply_entry env epoch e n of
        (ok, n', cs', fs') \<Rightarrow>
          if ok then apply_entries env epoch es (le_index e) (n'\<lparr>last_applied := le_index e\<rparr>) (cs @ cs') (fs @ fs')
          else (n', applied, cs @ cs', fs @ fs'))"

lemma apply_loop_fold:
  assumes "indexed lg"
  shows "apply_loop env epoch lg target applied n cs fs =
    Some (apply_entries env epoch (drop (Suc applied) (take (Suc target) lg)) applied n cs fs)"
proof (induction "target - applied" arbitrary: applied n cs fs)
  case 0
  then show ?case by (simp add: apply_loop.simps)
next
  case (Suc k)
  then have lt: "applied < target" and k: "k = target - Suc applied" by simp_all
  show ?case
  proof (cases "Suc applied < length lg")
    case True
    have d: "drop (Suc applied) (take (Suc target) lg) =
        lg ! Suc applied # drop (Suc (Suc applied)) (take (Suc target) lg)"
      using True lt by (subst Cons_nth_drop_Suc [symmetric]) auto
    have i: "le_index (lg ! Suc applied) = Suc applied" using assms True by (simp add: indexed_def)
    show ?thesis
      using lt True Suc.hyps(1) [OF k]
      by (simp add: apply_loop.simps [of env epoch lg target applied] d i Let_def split: prod.splits)
  next
    case False
    then show ?thesis using lt by (simp add: apply_loop.simps)
  qed
qed

text \<open>The effect of a list of entries on the state machine alone.\<close>

fun replay ::
  "('sm \<Rightarrow> nat \<Rightarrow> 'm \<Rightarrow> apply_receipt res \<times> 'sm) \<Rightarrow> 'm raft_log_entry list \<Rightarrow> 'sm \<Rightarrow> 'sm option" where
  "replay app [] sm = Some sm"
| "replay app (e # es) sm =
     (case le_command e of
        Data m \<Rightarrow> (case app sm (le_index e) m of
                     (Inr r, sm') \<Rightarrow> replay app es sm'
                   | (Inl err, sm') \<Rightarrow> None)
      | _ \<Rightarrow> replay app es sm)"

lemma apply_entries_replay:
  assumes "replicated_sm n = Some sm" and "replay (env_apply env) es sm = Some sm'"
    and "apply_entries env epoch es applied n cs fs = (n', a, cs', fs')"
  shows "replicated_sm n' = Some sm' \<and> fs' = fs \<and> a = (if es = [] then applied else le_index (last es))"
  using assms
proof (induction es arbitrary: applied n cs sm)
  case (Cons e es)
  obtain n1 cs1 sm1 where a: "apply_entry env epoch e n = (True, n1, cs1, [])"
    and sm1: "replicated_sm n1 = Some sm1" and rest: "replay (env_apply env) es sm1 = Some sm'"
    using Cons.prems(1,2)
    by (cases "le_command e") (auto simp: apply_entry_def Let_def split: prod.splits sum.splits)
  have "apply_entries env epoch es (le_index e) (n1\<lparr>last_applied := le_index e\<rparr>) (cs @ cs1) fs = (n', a, cs', fs')"
    using Cons.prems(3) a by simp
  from Cons.IH [OF _ rest this] sm1 show ?case by simp
qed simp

lemma recover_entries_replay:
  assumes "replay app (filter (\<lambda>e. le_index e \<le> commit) es) sm = Some sm'"
  shows "\<exists>k. recover_entries app commit es sm c = (Inr k, sm')"
  using assms
  by (induction es arbitrary: sm c) (auto split: raft_command.splits prod.splits sum.splits if_splits)


text \<open>
  C21. The apply loop ends and applies each entry once, in order. On a log indexed by position
  the loop of \<^verbatim>\<open>apply_committed_entries\<close> returns, and its result is that of going through the
  entries after \<^verbatim>\<open>last_applied\<close> up to the commit index one by one, stopping at the first that
  cannot be applied.
\<close>

theorem apply_loop_applies_in_order:
  assumes "indexed lg"
  shows "apply_loop env epoch lg target applied n cs fs =
    Some (apply_entries env epoch (drop (Suc applied) (take (Suc target) lg)) applied n cs fs)"
  using assms by (rule apply_loop_fold)

theorem apply_loop_applies_in_order_witness:
  "\<exists>n. apply_loop demo_env 1 [sentinel, \<lparr>le_term = 1, le_index = 1, le_command = Data 5\<rparr>] 1 0 n [] [] =
     Some (apply_entries demo_env 1 [\<lparr>le_term = 1, le_index = 1, le_command = Data 5\<rparr>] 0 n [] [])"
proof -
  have "indexed [sentinel, \<lparr>le_term = 1, le_index = 1, le_command = Data (5::nat)\<rparr>]"
    by (simp add: indexed_def less_Suc_eq sentinel_def)
  from apply_loop_applies_in_order [OF this, of demo_env 1 1 0] show ?thesis by simp
qed




section \<open>Routing choices\<close>

definition eligible :: "nat \<Rightarrow> ('m, 'st, 'sm) raft_cluster \<Rightarrow> nat \<Rightarrow> ('m, 'st, 'sm) raft_node \<Rightarrow> bool" where
  "eligible cur c i n \<longleftrightarrow> nodes c i = Some n \<and> i \<noteq> cur \<and> \<not> is_learner n"

lemma healthiest_scan_best:
  assumes "healthiest_scan cur c ks (b, s) = (b', s')"
  shows "s \<le> s' \<and> (\<forall>i \<in> set ks. \<forall>n. eligible cur c i n \<longrightarrow> suitability_score (storage_health n) \<le> s') \<and>
    (b' = b \<and> s' = s \<or> (\<exists>i n. i \<in> set ks \<and> b' = Some i \<and> eligible cur c i n \<and> s < s' \<and>
       s' = suitability_score (storage_health n)))"
  using assms
proof (induction ks arbitrary: b s)
  case (Cons i ks)
  show ?case
  proof (cases "\<exists>n. eligible cur c i n \<and> s < suitability_score (storage_health n)")
    case True
    then obtain n where n: "eligible cur c i n" "s < suitability_score (storage_health n)" by blast
    then have "healthiest_scan cur c ks (Some i, suitability_score (storage_health n)) = (b', s')"
      using Cons.prems by (simp add: eligible_def Let_def)
    from Cons.IH [OF this] n show ?thesis by (fastforce simp: eligible_def)
  next
    case False
    then have "healthiest_scan cur c ks (b, s) = (b', s')"
      using Cons.prems by (auto simp: eligible_def Let_def split: option.splits if_splits)
    from Cons.IH [OF this] False show ?thesis by (fastforce simp: eligible_def)
  qed
qed simp

text \<open>
  Leadership goes to the healthiest voter. The candidate for a leadership transfer is a
  voter other than the current leader that accepts writes, has seen no I/O error and has the
  highest suitability score; when there is none, no other voter is fit.
\<close>

theorem healthiest_candidate_best:
  "case get_healthiest_candidate cur c of
     Some i \<Rightarrow> \<exists>n. eligible cur c i n \<and> \<not> is_read_only (storage_health n) \<and> io_error_count (storage_health n) = 0 \<and>
       (\<forall>j \<in> set (keys c). \<forall>m. eligible cur c j m \<longrightarrow>
          suitability_score (storage_health m) \<le> suitability_score (storage_health n))
   | None \<Rightarrow> \<forall>j \<in> set (keys c). \<forall>m. eligible cur c j m \<longrightarrow> suitability_score (storage_health m) = - 1"
proof -
  obtain b s where s: "healthiest_scan cur c (keys c) (None, - 1) = (b, s)" by fastforce
  note best = healthiest_scan_best [OF s]
  show ?thesis
  proof (cases b)
    case None
    then have "s = - 1" using best by auto
    with best suitability_range None s show ?thesis
      by (auto simp: get_healthiest_candidate_def intro: antisym)
  next
    case (Some i)
    then obtain n where n: "eligible cur c i n" "- 1 < s" "s = suitability_score (storage_health n)"
      using best by auto
    then have "\<not> is_read_only (storage_health n)" "io_error_count (storage_health n) = 0"
      by (auto simp: suitability_score_def split: if_splits)
    with best n Some s show ?thesis by (auto simp: get_healthiest_candidate_def)
  qed
qed


theorem healthiest_candidate_best_witness:
  "\<exists>c n. cluster_new demo_env 0 [1, 2] = Some c \<and> get_healthiest_candidate 1 c = Some 2 \<and> eligible 1 c 2 n \<and>
     \<not> is_read_only (storage_health n) \<and> io_error_count (storage_health n) = 0"
proof -
  obtain c where c: "cluster_new demo_env 0 [1, 2] = Some c" "get_healthiest_candidate 1 c = Some 2"
    by (simp add: get_healthiest_candidate_def demo_env_def node_eval cluster_eval Let_def
        suitability_score_def health_default_def)
  with healthiest_candidate_best [of c 1] show ?thesis by auto
qed

end
