(* ===== verification/Raft_Limits.thy ===== *)
theory Raft_Limits
  imports Raft_Election
begin

text \<open>
  Where the consensus code departs from the protocol it follows. Each lemma exhibits the
  behaviour on the model; the safety theorems of \<open>Raft_Safety\<close> exclude these situations by
  their hypotheses or are not touched by them.
\<close>

text \<open>Switches the injected failure of log writes of node \<open>i\<close>.\<close>

definition inject_log_fault ::
  "nat \<Rightarrow> bool \<Rightarrow> ('m, 'm memory_raft_storage, 'sm) raft_cluster \<Rightarrow>
     ('m, 'm memory_raft_storage, 'sm) raft_cluster option" where
  "inject_log_fault i b c =
     on_node i (\<lambda>n. Some (n\<lparr>storage := (storage n)\<lparr>fail_before_log_persist := b\<rparr>\<rparr>)) c"


text \<open>
  C28. A lagging follower is stuck. The index sent to a follower is never lowered after a rejected heartbeat: a follower whose
  log ends before it stays as it is, whatever the leader sends.
\<close>

theorem lagging_follower_stuck:
  assumes "nodes c lid = Some leader" and "nodes c p = Some n" and "p \<noteq> lid" and "lg \<noteq> []"
    and "log n \<noteq> []" and "length (log n) < peer_next leader p" and "peer_next leader p \<le> length lg"
  shows "\<exists>n'. heartbeat_peer env now lid t lc lg p (responses, c) = Some (responses, put p n' c) \<and> log n' = log n"
proof -
  obtain b n1 where a: "append_adopt_term env t n = (b, n1)" by fastforce
  have n1: "log n1 = log n"
    using a by (auto simp: append_adopt_term_def save_hs_def split: if_splits prod.splits bool.splits)
  let ?args = "append_args t lid lc lg (peer_next leader p)"
  have args: "ae_prev_log_index ?args = peer_next leader p - 1" "ae_term ?args = t" "ae_leader_id ?args = lid"
    using assms(6,7) by (auto simp: append_args_def Let_def)
  have no: "\<not> prev_matches ?args (log n)"
    using assms(6) args by (auto simp: prev_matches_def)
  have "append_accepted env ?args (follow lid now n1) =
      Some (append_reply (current_term n1) False (length (log n) - 1), follow lid now n1)"
    using no assms(5) n1 by (simp add: append_accepted_def follow_def Let_def)
  then have "\<exists>r n'. handle_append_entries env now ?args n = Some (r, n') \<and> \<not> aer_success r \<and> log n' = log n"
    using a n1 args by (cases b) (auto simp: handle_append_entries_def append_reply_def follow_def)
  with assms show ?thesis by (auto simp: heartbeat_peer_def Let_def)
qed

theorem lagging_follower_stuck_witness:
  "\<exists>c leader n n'. cluster_new demo_env 0 [1, 2] = Some c \<and> nodes c 1 = Some leader \<and> nodes c 2 = Some n \<and>
     heartbeat_peer demo_env 0 1 3 0 [sentinel, sentinel, sentinel] 2
       (1, put 1 (leader\<lparr>next_index := [2 \<mapsto> 3]\<rparr>) c) =
       Some (1, put 2 n' (put 1 (leader\<lparr>next_index := [2 \<mapsto> 3]\<rparr>) c)) \<and> log n' = log n"
proof -
  obtain c leader n where c: "cluster_new demo_env 0 [1, 2] = Some c" "nodes c 1 = Some leader"
    "nodes c 2 = Some n" "log n = [sentinel]"
    by (simp add: demo_env_def node_eval cluster_eval Let_def)
  let ?l = "leader\<lparr>next_index := [2 \<mapsto> 3]\<rparr>"
  have "nodes (put 1 ?l c) 1 = Some ?l" "nodes (put 1 ?l c) 2 = Some n" using c(3) by (simp_all add: put_def)
  from lagging_follower_stuck [OF this, of "[sentinel, sentinel, sentinel]" demo_env 0 3 0 1] c
  show ?thesis by (auto simp: peer_next_def)
qed

text \<open>
  \<^verbatim>\<open>RaftNode::linearizable_read_index\<close> opens a round and answers without waiting for any
  confirmation.
\<close>

lemma node_read_without_quorum:
  assumes "is_leader n" and "commit_index n \<le> last_applied n"
  shows "\<exists>n'. node_linearizable_read now ctx poll ReadIndex n = Some (Inr (commit_index n), n')"
  using assms by (simp add: node_linearizable_read_def read_at_commit_def Let_def)


end
