(* ===== verification/Wal.thy ===== *)
theory Wal
  imports Le_Bytes Holo_Prelude
begin

text \<open>
  The write-ahead log of the vector store, \<^verbatim>\<open>src/src/storage/wal.rs\<close>: frame headers, appends
  with their durability barrier, segment rotation, replay and truncation.

  The directory is the association list \<open>wal_files\<close> from segment number to contents (the
  file name is the number in decimal between a fixed prefix and suffix). Calls that can fail
  take their outcome from \<open>wal_plan\<close>; a failing write leaves a proper prefix of its bytes
  behind. Reads of an open segment give its bytes. Timing and the unused back-pressure counter are left out.
  Codec and checksum are third-party code and arguments. The crate is built with overflow
  checks, so an overflowing LSN is a panic, here \<open>None\<close>.
\<close>

section \<open>Records and frames\<close>

datatype wal_record_type = RecUpsert | RecDelete | RecMetadataUpdate | RecCheckpoint | RecClusterState

fun record_code :: "wal_record_type \<Rightarrow> 16 word" where
  "record_code RecUpsert = 1"
| "record_code RecDelete = 2"
| "record_code RecMetadataUpdate = 3"
| "record_code RecCheckpoint = 4"
| "record_code RecClusterState = 5"

definition record_type_from :: "16 word \<Rightarrow> wal_record_type option" where
  "record_type_from w =
     (if w = 1 then Some RecUpsert else if w = 2 then Some RecDelete
      else if w = 3 then Some RecMetadataUpdate else if w = 4 then Some RecCheckpoint
      else if w = 5 then Some RecClusterState else None)"

record wal_frame_header =
  wh_magic :: "byte list"
  wh_version :: "16 word"
  wh_record_type :: "16 word"
  wh_lsn :: "64 word"
  wh_prev_lsn :: "64 word"
  wh_payload_len :: "32 word"
  wh_crc32c :: "32 word"

definition WAL_MAGIC :: "byte list" where
  "WAL_MAGIC = [0x48, 0x57, 0x41, 0x4C]"

definition WAL_VERSION :: "16 word" where
  "WAL_VERSION = 1"

definition WAL_HEADER_SIZE :: nat where
  "WAL_HEADER_SIZE = 36"

definition wal_header_encode :: "wal_frame_header \<Rightarrow> byte list" where
  "wal_header_encode h =
     wh_magic h @ u16_to_le (wh_version h) @ u16_to_le (wh_record_type h) @ u64_to_le (wh_lsn h) @
     u64_to_le (wh_prev_lsn h) @ u32_to_le (wh_payload_len h) @ u32_to_le (wh_crc32c h) @ [0, 0, 0, 0]"

definition wal_header_decode :: "byte list \<Rightarrow> wal_frame_header res" where
  "wal_header_decode buf =
     (if slice 0 4 buf \<noteq> WAL_MAGIC
      then Inl (CorruptedSnapshot ''Invalid WAL frame magic identifier'')
      else if u16_from_le (slice 4 6 buf) \<noteq> WAL_VERSION
      then Inl (CorruptedSnapshot ''Unsupported WAL version'')
      else if record_type_from (u16_from_le (slice 6 8 buf)) = None
      then Inl (CorruptedSnapshot ''Unknown WAL record type'')
      else Inr \<lparr>wh_magic = slice 0 4 buf, wh_version = u16_from_le (slice 4 6 buf),
                wh_record_type = u16_from_le (slice 6 8 buf), wh_lsn = u64_from_le (slice 8 16 buf),
                wh_prev_lsn = u64_from_le (slice 16 24 buf), wh_payload_len = u32_from_le (slice 24 28 buf),
                wh_crc32c = u32_from_le (slice 28 32 buf)\<rparr>)"

datatype ('v, 'd) wal_mutation =
    WalUpsert string 'v "(string \<times> 'd) list option"
  | WalDelete string
  | WalMetadataUpdate string "(string \<times> 'd) list"
  | WalCheckpoint nat nat
  | WalClusterState nat "byte list"

fun record_type :: "('v, 'd) wal_mutation \<Rightarrow> wal_record_type" where
  "record_type (WalUpsert i v md) = RecUpsert"
| "record_type (WalDelete i) = RecDelete"
| "record_type (WalMetadataUpdate i md) = RecMetadataUpdate"
| "record_type (WalCheckpoint l g) = RecCheckpoint"
| "record_type (WalClusterState e bs) = RecClusterState"

datatype durability_policy = Memory | WalSync | WalGroupCommit | QuorumPolicy

record 'x wal_codec =
  wc_crc :: "byte list \<Rightarrow> 32 word"
  wc_ser :: "'x \<Rightarrow> byte list option"
  wc_de :: "byte list \<Rightarrow> 'x option"

section \<open>The manager\<close>

datatype wal_outcome = WalDone | WalFails nat

record wal_active_writer =
  ww_segment_id :: nat
  ww_bytes_written :: nat

record wal_manager =
  wal_files :: "(nat \<times> byte list) list"
  wal_max_segment_bytes :: nat
  current_lsn :: nat
  last_synced_lsn :: nat
  last_checkpoint_lsn :: nat
  wal_writer :: "wal_active_writer option"
  appends_total :: nat
  wal_bytes_written :: nat
  fsync_count :: nat
  recovered_records :: nat
  wal_plan :: "wal_outcome list"

definition wal_next :: "wal_manager \<Rightarrow> wal_outcome \<times> wal_manager" where
  "wal_next m = (case wal_plan m of [] \<Rightarrow> (WalDone, m) | x # xs \<Rightarrow> (x, m\<lparr>wal_plan := xs\<rparr>))"

definition wal_tick :: "wal_manager \<Rightarrow> bool \<times> wal_manager" where
  "wal_tick m = (case wal_next m of (WalDone, m') \<Rightarrow> (True, m') | (WalFails k, m') \<Rightarrow> (False, m'))"

text \<open>The contents of a segment; a file opened for appending is created when missing.\<close>

definition segment_bytes :: "nat \<Rightarrow> wal_manager \<Rightarrow> byte list" where
  "segment_bytes i m = (case map_of (wal_files m) i of None \<Rightarrow> [] | Some bs \<Rightarrow> bs)"

fun file_update :: "nat \<Rightarrow> byte list \<Rightarrow> (nat \<times> byte list) list \<Rightarrow> (nat \<times> byte list) list" where
  "file_update i bs [] = [(i, bs)]"
| "file_update i bs ((j, cs) # fs) = (if i = j then (i, bs) # fs else (j, cs) # file_update i bs fs)"

definition touch_segment :: "nat \<Rightarrow> wal_manager \<Rightarrow> wal_manager" where
  "touch_segment i m = m\<lparr>wal_files := file_update i (segment_bytes i m) (wal_files m)\<rparr>"

text \<open>An empty buffer is written without a call; a failing write leaves a proper prefix.\<close>

definition wal_write :: "nat \<Rightarrow> byte list \<Rightarrow> wal_manager \<Rightarrow> bool \<times> wal_manager" where
  "wal_write i bs m =
     (if bs = [] then (True, m)
      else case wal_next m of
        (WalDone, m') \<Rightarrow> (True, m'\<lparr>wal_files := file_update i (segment_bytes i m' @ bs) (wal_files m')\<rparr>)
      | (WalFails k, m') \<Rightarrow>
          (False, m'\<lparr>wal_files :=
             file_update i (segment_bytes i m' @ take (min k (length bs - 1)) bs) (wal_files m')\<rparr>))"

definition DEFAULT_MAX_SEGMENT_BYTES :: nat where
  "DEFAULT_MAX_SEGMENT_BYTES = 64 * 1024 * 1024"

definition wal_fresh :: "(nat \<times> byte list) list \<Rightarrow> wal_outcome list \<Rightarrow> wal_manager" where
  "wal_fresh fs plan =
     \<lparr>wal_files = fs, wal_max_segment_bytes = DEFAULT_MAX_SEGMENT_BYTES, current_lsn = 0,
      last_synced_lsn = 0, last_checkpoint_lsn = 0, wal_writer = None, appends_total = 0,
      wal_bytes_written = 0, fsync_count = 0, recovered_records = 0, wal_plan = plan\<rparr>"

text \<open>An unreadable directory counts as empty; the LSN restarts at zero.\<close>

definition init_active_segment :: "wal_manager \<Rightarrow> unit res \<times> wal_manager" where
  "init_active_segment m =
     (if wal_writer m \<noteq> None then (Inr (), m)
      else case wal_tick m of (readable, m1) \<Rightarrow>
        let seg_id = max (if readable then foldr max (map fst (wal_files m1)) 0 else 0) 1 in
        (case wal_tick m1 of
           (False, m2) \<Rightarrow> (Inl (IoError ''open''), m2)
         | (True, m2) \<Rightarrow>
             (case wal_tick (touch_segment seg_id m2) of
                (False, m3) \<Rightarrow> (Inl (IoError ''metadata''), m3)
              | (True, m3) \<Rightarrow>
                  (Inr (), m3\<lparr>wal_writer := Some \<lparr>ww_segment_id = seg_id,
                              ww_bytes_written = length (segment_bytes seg_id m3)\<rparr>,
                            current_lsn := 0, last_synced_lsn := 0\<rparr>))))"

definition wal_open :: "(nat \<times> byte list) list \<Rightarrow> wal_outcome list \<Rightarrow> unit res \<times> wal_manager" where
  "wal_open fs plan =
     (case wal_tick (wal_fresh fs plan) of
        (False, m) \<Rightarrow> (Inl (IoError ''create_dir''), m)
      | (True, m) \<Rightarrow> init_active_segment m)"

definition with_max_segment_bytes :: "nat \<Rightarrow> wal_manager \<Rightarrow> wal_manager" where
  "with_max_segment_bytes b m = m\<lparr>wal_max_segment_bytes := max b (1024 * 1024)\<rparr>"

definition sync_target_lsn :: "nat \<Rightarrow> wal_manager \<Rightarrow> unit res \<times> wal_manager" where
  "sync_target_lsn target m =
     (if target \<le> last_synced_lsn m then (Inr (), m)
      else
        (case (if wal_writer m = None then (True, m) else wal_tick m) of
           (False, m') \<Rightarrow> (Inl (IoError ''fsync''), m')
         | (True, m') \<Rightarrow>
             (Inr (), m'\<lparr>fsync_count := fsync_count m' + 1, last_synced_lsn := current_lsn m'\<rparr>)))"

text \<open>Rotation to the next segment when the active one is full.\<close>

definition rotate_writer :: "wal_active_writer \<Rightarrow> wal_manager \<Rightarrow> wal_active_writer res \<times> wal_manager" where
  "rotate_writer w m =
     (if ww_bytes_written w < wal_max_segment_bytes m then (Inr w, m)
      else
        let m1 = snd (wal_tick m); next_id = ww_segment_id w + 1 in
        (case wal_tick m1 of
           (False, m2) \<Rightarrow> (Inl (IoError ''open''), m2)
         | (True, m2) \<Rightarrow>
             (let w' = \<lparr>ww_segment_id = next_id, ww_bytes_written = 0\<rparr> in
              (Inr w', (touch_segment next_id m2)\<lparr>wal_writer := Some w'\<rparr>))))"

definition frame_header ::
  "('v, 'd) wal_mutation wal_codec \<Rightarrow> nat \<Rightarrow> ('v, 'd) wal_mutation \<Rightarrow> byte list \<Rightarrow> wal_frame_header" where
  "frame_header cd lsn x payload =
     \<lparr>wh_magic = WAL_MAGIC, wh_version = WAL_VERSION, wh_record_type = record_code (record_type x),
      wh_lsn = word_of_nat lsn, wh_prev_lsn = word_of_nat (lsn - 1),
      wh_payload_len = word_of_nat (length payload), wh_crc32c = wc_crc cd payload\<rparr>"

definition wal_append ::
  "('v, 'd) wal_mutation wal_codec \<Rightarrow> ('v, 'd) wal_mutation \<Rightarrow> durability_policy \<Rightarrow> wal_manager \<Rightarrow>
     (nat res \<times> wal_manager) option" where
  "wal_append cd x policy m =
     (if policy = Memory
      then if u64_max \<le> current_lsn m then None
           else Some (Inr (current_lsn m + 1), m\<lparr>current_lsn := current_lsn m + 1\<rparr>)
      else case wc_ser cd x of
        None \<Rightarrow> Some (Inl (CorruptedSnapshot ''Serialization error''), m)
      | Some payload \<Rightarrow>
          (case wal_writer m of
             None \<Rightarrow> None
           | Some w0 \<Rightarrow>
               (case rotate_writer w0 m of
                  (Inl e, m1) \<Rightarrow> Some (Inl e, m1)
                | (Inr w, m1) \<Rightarrow>
                    if u64_max \<le> current_lsn m1 then None
                    else
                      let target = current_lsn m1 + 1 in
                      (case wal_write (ww_segment_id w) (wal_header_encode (frame_header cd target x payload)) m1 of
                         (False, m2) \<Rightarrow> Some (Inl (IoError ''write''), m2)
                       | (True, m2) \<Rightarrow>
                           (case wal_write (ww_segment_id w) payload m2 of
                              (False, m3) \<Rightarrow> Some (Inl (IoError ''write''), m3)
                            | (True, m3) \<Rightarrow>
                                (let written = WAL_HEADER_SIZE + length payload;
                                     m4 = m3\<lparr>wal_writer := Some (w\<lparr>ww_bytes_written := ww_bytes_written w + written\<rparr>),
                                             current_lsn := target,
                                             wal_bytes_written := wal_bytes_written m3 + written,
                                             appends_total := appends_total m3 + 1\<rparr> in
                                 case sync_target_lsn target m4 of
                                   (Inl e, m5) \<Rightarrow> Some (Inl e, m5)
                                 | (Inr _, m5) \<Rightarrow> Some (Inr target, m5)))))))"

section \<open>Replay\<close>

record wal_recovery_summary =
  ws_start_lsn :: nat
  ws_last_applied_lsn :: nat
  ws_total_replayed :: nat
  ws_torn_records_skipped :: nat
  ws_active_segment_count :: nat

type_synonym 's replay_acc = "wal_recovery_summary \<times> nat \<times> 's"

definition count_torn :: "nat \<Rightarrow> 's replay_acc \<Rightarrow> 's replay_acc" where
  "count_torn n acc = (case acc of (sm, hi, s) \<Rightarrow>
     (sm\<lparr>ws_torn_records_skipped := ws_torn_records_skipped sm + n\<rparr>, hi, s))"

definition count_replayed :: "nat \<Rightarrow> wal_recovery_summary \<Rightarrow> wal_recovery_summary" where
  "count_replayed lsn sm =
     sm\<lparr>ws_total_replayed := ws_total_replayed sm + 1, ws_last_applied_lsn := lsn\<rparr>"

text \<open>
  The scan of one segment; \<open>rest\<close> is the file from the current offset on. Leaving the loop
  early counts the tail once at the break and once more after the loop.
\<close>

function replay_segment ::
  "('v, 'd) wal_mutation wal_codec \<Rightarrow> nat \<Rightarrow> (nat \<Rightarrow> ('v, 'd) wal_mutation \<Rightarrow> 's \<Rightarrow> unit res \<times> 's) \<Rightarrow>
     byte list \<Rightarrow> 's replay_acc \<Rightarrow> unit res \<times> 's replay_acc" where
  "replay_segment cd snap app rest acc =
     (if length rest < WAL_HEADER_SIZE
      then (Inr (), if rest = [] then acc else count_torn 1 acc)
      else case wal_header_decode (take WAL_HEADER_SIZE rest) of
        Inl _ \<Rightarrow>
          if length rest = WAL_HEADER_SIZE then (Inr (), count_torn 2 acc)
          else (Inl (CorruptedSnapshot ''Corrupted WAL header frame''), acc)
      | Inr h \<Rightarrow>
          let plen = unat (wh_payload_len h);
              payload = take plen (drop WAL_HEADER_SIZE rest);
              rest' = drop (WAL_HEADER_SIZE + plen) rest;
              lsn = unat (wh_lsn h) in
          if length rest < WAL_HEADER_SIZE + plen then (Inr (), count_torn 2 acc)
          else if wc_crc cd payload \<noteq> wh_crc32c h
          then if length rest = WAL_HEADER_SIZE + plen then (Inr (), count_torn 2 acc)
               else (Inl (CorruptedSnapshot ''CRC32C mismatch''), acc)
          else if lsn \<le> snap then replay_segment cd snap app rest' acc
          else case wc_de cd payload of
            None \<Rightarrow> (Inl (CorruptedSnapshot ''Payload deserialize error''), acc)
          | Some x \<Rightarrow>
              (case acc of (sm, hi, s) \<Rightarrow>
                 (case app lsn x s of
                    (Inl e, s') \<Rightarrow> (Inl e, (sm, hi, s'))
                  | (Inr _, s') \<Rightarrow>
                      replay_segment cd snap app rest' (count_replayed lsn sm, max hi lsn, s'))))"
  by pat_completeness auto
termination
  by (relation "measure (\<lambda>(cd, snap, app, rest, acc). length rest)") (auto simp: WAL_HEADER_SIZE_def)

declare replay_segment.simps [simp del]

fun replay_segments ::
  "('v, 'd) wal_mutation wal_codec \<Rightarrow> nat \<Rightarrow> (nat \<Rightarrow> ('v, 'd) wal_mutation \<Rightarrow> 's \<Rightarrow> unit res \<times> 's) \<Rightarrow>
     (nat \<times> byte list) list \<Rightarrow> 's replay_acc \<Rightarrow> wal_manager \<Rightarrow> unit res \<times> 's replay_acc \<times> wal_manager" where
  "replay_segments cd snap app [] acc m = (Inr (), acc, m)"
| "replay_segments cd snap app ((i, bs) # segs) acc m =
     (case wal_tick m of
        (False, m1) \<Rightarrow> replay_segments cd snap app segs acc m1
      | (True, m1) \<Rightarrow>
          (case wal_tick m1 of
             (False, m2) \<Rightarrow> (Inl (IoError ''metadata''), acc, m2)
           | (True, m2) \<Rightarrow>
               (case replay_segment cd snap app bs acc of
                  (Inl e, acc') \<Rightarrow> (Inl e, acc', m2)
                | (Inr _, acc') \<Rightarrow> replay_segments cd snap app segs acc' m2)))"

definition list_segments :: "wal_manager \<Rightarrow> (nat \<times> byte list) list \<times> wal_manager" where
  "list_segments m =
     (case wal_tick m of (readable, m1) \<Rightarrow> (if readable then sort_key fst (wal_files m1) else [], m1))"

definition wal_replay ::
  "('v, 'd) wal_mutation wal_codec \<Rightarrow> nat \<Rightarrow> (nat \<Rightarrow> ('v, 'd) wal_mutation \<Rightarrow> 's \<Rightarrow> unit res \<times> 's) \<Rightarrow>
     's \<Rightarrow> wal_manager \<Rightarrow> wal_recovery_summary res \<times> 's \<times> wal_manager" where
  "wal_replay cd snap app s m =
     (case list_segments m of (segs, m1) \<Rightarrow>
        (case replay_segments cd snap app segs
                (\<lparr>ws_start_lsn = snap, ws_last_applied_lsn = snap, ws_total_replayed = 0,
                  ws_torn_records_skipped = 0, ws_active_segment_count = length segs\<rparr>, snap, s) m1 of
           (Inl e, (sm, hi, s'), m2) \<Rightarrow> (Inl e, s', m2)
         | (Inr _, (sm, hi, s'), m2) \<Rightarrow>
             (Inr sm, s', m2\<lparr>current_lsn := hi, last_synced_lsn := hi,
                             recovered_records := ws_total_replayed sm\<rparr>)))"

section \<open>Truncation\<close>

function max_segment_lsn :: "byte list \<Rightarrow> nat \<Rightarrow> nat" where
  "max_segment_lsn rest mx =
     (if length rest < WAL_HEADER_SIZE then mx
      else case wal_header_decode (take WAL_HEADER_SIZE rest) of
        Inl _ \<Rightarrow> mx
      | Inr h \<Rightarrow> max_segment_lsn (drop (WAL_HEADER_SIZE + unat (wh_payload_len h)) rest)
                  (max mx (unat (wh_lsn h))))"
  by pat_completeness auto
termination
  by (relation "measure (\<lambda>(rest, mx). length rest)") (auto simp: WAL_HEADER_SIZE_def)

declare max_segment_lsn.simps [simp del]

definition remove_segment :: "nat \<Rightarrow> wal_manager \<Rightarrow> wal_manager" where
  "remove_segment i m = (case wal_tick m of
     (True, m') \<Rightarrow> m'\<lparr>wal_files := filter (\<lambda>f. fst f \<noteq> i) (wal_files m')\<rparr>
   | (False, m') \<Rightarrow> m')"

fun truncate_segments ::
  "nat \<Rightarrow> nat \<Rightarrow> (nat \<times> byte list) list \<Rightarrow> nat \<Rightarrow> wal_manager \<Rightarrow> nat res \<times> wal_manager" where
  "truncate_segments safe active [] deleted m = (Inr deleted, m)"
| "truncate_segments safe active ((i, bs) # segs) deleted m =
     (if active \<le> i then truncate_segments safe active segs deleted m
      else case wal_tick m of
        (False, m1) \<Rightarrow> truncate_segments safe active segs deleted m1
      | (True, m1) \<Rightarrow>
          (case wal_tick m1 of
             (False, m2) \<Rightarrow> (Inl (IoError ''metadata''), m2)
           | (True, m2) \<Rightarrow>
               (let mx = max_segment_lsn bs 0 in
                if 0 < mx \<and> mx \<le> safe
                then truncate_segments safe active segs (deleted + 1) (remove_segment i m2)
                else truncate_segments safe active segs deleted m2)))"

definition truncate_before :: "nat \<Rightarrow> wal_manager \<Rightarrow> nat res \<times> wal_manager" where
  "truncate_before safe m =
     (case list_segments m of (segs, m1) \<Rightarrow>
        let active = (case wal_writer m1 of None \<Rightarrow> u64_max | Some w \<Rightarrow> ww_segment_id w) in
        (case truncate_segments safe active segs 0 m1 of
           (Inl e, m2) \<Rightarrow> (Inl e, m2)
         | (Inr n, m2) \<Rightarrow> (Inr n, m2\<lparr>last_checkpoint_lsn := safe\<rparr>)))"

section \<open>Runs of the log\<close>

datatype ('v, 'd) wal_op =
    WalAppend "('v, 'd) wal_mutation" durability_policy
  | WalSyncTo nat
  | WalTruncate nat
  | WalRecover nat

definition collect :: "nat \<Rightarrow> 'x \<Rightarrow> (nat \<times> 'x) list \<Rightarrow> unit res \<times> (nat \<times> 'x) list" where
  "collect lsn x s = (Inr (), s @ [(lsn, x)])"

text \<open>\<open>WalRecover\<close> is a restart: the directory is opened again and replayed.\<close>

definition wal_step ::
  "('v, 'd) wal_mutation wal_codec \<Rightarrow> ('v, 'd) wal_op \<Rightarrow> wal_manager \<Rightarrow> wal_manager option" where
  "wal_step cd oper m = (case oper of
     WalAppend x policy \<Rightarrow> map_option snd (wal_append cd x policy m)
   | WalSyncTo l \<Rightarrow> Some (snd (sync_target_lsn l m))
   | WalTruncate l \<Rightarrow> Some (snd (truncate_before l m))
   | WalRecover snap \<Rightarrow>
       Some (snd (snd (wal_replay cd snap collect [] (snd (wal_open (wal_files m) (wal_plan m)))))))"

fun wal_run ::
  "('v, 'd) wal_mutation wal_codec \<Rightarrow> ('v, 'd) wal_op list \<Rightarrow> wal_manager \<Rightarrow> wal_manager option" where
  "wal_run cd [] m = Some m"
| "wal_run cd (oper # ops) m = Option.bind (wal_step cd oper m) (wal_run cd ops)"

text \<open>The records a run acknowledged as logged, with the sequence numbers it returned.\<close>

fun logged ::
  "('v, 'd) wal_mutation wal_codec \<Rightarrow> ('v, 'd) wal_op list \<Rightarrow> wal_manager \<Rightarrow>
     (nat \<times> ('v, 'd) wal_mutation) list" where
  "logged cd [] m = []"
| "logged cd (oper # ops) m =
     (case oper of
        WalAppend x policy \<Rightarrow>
          (case wal_append cd x policy m of
             Some (Inr l, _) \<Rightarrow> if policy = Memory then [] else [(l, x)]
           | _ \<Rightarrow> [])
      | _ \<Rightarrow> []) @
     (case wal_step cd oper m of None \<Rightarrow> [] | Some m' \<Rightarrow> logged cd ops m')"

end
