(* ===== verification/Wal_Recovery.thy ===== *)
theory Wal_Recovery
  imports Wal
begin

text \<open>
  What the write-ahead log guarantees: a header round trip, the durability barrier of an append
  under every outcome of the file system, that a replay returns exactly the acknowledged records
  over any run with rotations, truncations and restarts, and that an append cut short by a crash
  loses no earlier record. It also shows where the log falls short of its description: numbers
  start again after a restart without replay, and a record appended behind a torn tail makes the
  whole segment unreadable.
\<close>

section \<open>Frames\<close>

definition header_ok :: "wal_frame_header \<Rightarrow> bool" where
  "header_ok h \<longleftrightarrow>
     wh_magic h = WAL_MAGIC \<and> wh_version h = WAL_VERSION \<and> record_type_from (wh_record_type h) \<noteq> None"

lemma length_WAL_MAGIC [simp]: "length WAL_MAGIC = 4"
  by (simp add: WAL_MAGIC_def)

lemma length_header_encode [simp]:
  "length (wh_magic h) = 4 \<Longrightarrow> length (wal_header_encode h) = WAL_HEADER_SIZE"
  by (simp add: wal_header_encode_def WAL_HEADER_SIZE_def)

lemma record_code_known [simp]: "record_type_from (record_code t) = Some t"
  by (cases t) (simp_all add: record_type_from_def)

lemma wal_decode_encode: "header_ok h \<Longrightarrow> wal_header_decode (wal_header_encode h) = Inr h"
  by (cases h) (auto simp: header_ok_def wal_header_decode_def wal_header_encode_def)

lemma frame_header_ok [simp]: "header_ok (frame_header cd l x p)"
  by (simp add: header_ok_def frame_header_def)

lemma frame_header_fields [simp]:
  "wh_magic (frame_header cd l x p) = WAL_MAGIC"
  "wh_lsn (frame_header cd l x p) = word_of_nat l"
  "wh_payload_len (frame_header cd l x p) = word_of_nat (length p)"
  "wh_crc32c (frame_header cd l x p) = wc_crc cd p"
  by (simp_all add: frame_header_def)

definition wal_frame :: "('v, 'd) wal_mutation wal_codec \<Rightarrow> nat \<times> ('v, 'd) wal_mutation \<Rightarrow> byte list" where
  "wal_frame cd r = (case r of (l, x) \<Rightarrow>
     let p = the (wc_ser cd x) in wal_header_encode (frame_header cd l x p) @ p)"

definition frames :: "('v, 'd) wal_mutation wal_codec \<Rightarrow> (nat \<times> ('v, 'd) wal_mutation) list \<Rightarrow> byte list" where
  "frames cd rs = concat (map (wal_frame cd) rs)"

lemma frames_simps [simp]:
  "frames cd [] = []" "frames cd (r # rs) = wal_frame cd r @ frames cd rs"
  "frames cd (rs @ rs') = frames cd rs @ frames cd rs'"
  by (simp_all add: frames_def)

text \<open>What the log relies on of the codec: it reads back what it wrote, and a payload fits 32 bits.\<close>

definition wal_codec_ok :: "('v, 'd) wal_mutation wal_codec \<Rightarrow> bool" where
  "wal_codec_ok cd \<longleftrightarrow> (\<forall>x p. wc_ser cd x = Some p \<longrightarrow> wc_de cd p = Some x \<and> length p < 2 ^ 32)"

definition rec_ok :: "('v, 'd) wal_mutation wal_codec \<Rightarrow> nat \<times> ('v, 'd) wal_mutation \<Rightarrow> bool" where
  "rec_ok cd r \<longleftrightarrow> 0 < fst r \<and> fst r \<le> u64_max \<and> wc_ser cd (snd r) \<noteq> None"

lemma unat_u64: "l \<le> u64_max \<Longrightarrow> unat (word_of_nat l :: 64 word) = l"
  by (simp add: unat_of_nat u64_max_def)

lemma unat_u32: "l < 2 ^ 32 \<Longrightarrow> unat (word_of_nat l :: 32 word) = l"
  by (simp add: unat_of_nat)

lemma rec_okE:
  assumes "wal_codec_ok cd" "rec_ok cd (l, x)"
  obtains p where "wc_ser cd x = Some p" "wc_de cd p = Some x" "length p < 2 ^ 32" "0 < l" "l \<le> u64_max"
    "wal_frame cd (l, x) = wal_header_encode (frame_header cd l x p) @ p"
  using assms by (auto simp: wal_codec_ok_def rec_ok_def wal_frame_def)

lemma wal_frame_nonempty: "wal_frame cd r \<noteq> []"
  by (cases r) (simp add: wal_frame_def Let_def wal_header_encode_def frame_header_def WAL_MAGIC_def)

section \<open>Scanning\<close>

definition replay_rec ::
  "nat \<Rightarrow> (nat \<Rightarrow> 'x \<Rightarrow> 's \<Rightarrow> unit res \<times> 's) \<Rightarrow> nat \<times> 'x \<Rightarrow> 's replay_acc \<Rightarrow> 's replay_acc" where
  "replay_rec snap app r acc = (case (r, acc) of ((l, x), (sm, hi, s)) \<Rightarrow>
     if l \<le> snap then acc else (count_replayed l sm, max hi l, snd (app l x s)))"

text \<open>The callback accepts every record above the snapshot in the state it meets it in.\<close>

fun accepts ::
  "nat \<Rightarrow> (nat \<Rightarrow> 'x \<Rightarrow> 's \<Rightarrow> unit res \<times> 's) \<Rightarrow> (nat \<times> 'x) list \<Rightarrow> 's replay_acc \<Rightarrow> bool" where
  "accepts snap app [] acc \<longleftrightarrow> True"
| "accepts snap app (r # rs) acc \<longleftrightarrow>
     (fst r \<le> snap \<or> fst (app (fst r) (snd r) (snd (snd acc))) = Inr ()) \<and>
     accepts snap app rs (replay_rec snap app r acc)"

lemma accepts_append:
  "accepts snap app (rs @ ts) acc \<longleftrightarrow>
     accepts snap app rs acc \<and> accepts snap app ts (fold (replay_rec snap app) rs acc)"
  by (induction rs arbitrary: acc) simp_all

lemma replay_segment_frame:
  assumes "wal_codec_ok cd" "rec_ok cd r" "accepts snap app [r] acc"
  shows "replay_segment cd snap app (wal_frame cd r @ rest) acc =
           replay_segment cd snap app rest (replay_rec snap app r acc)"
proof -
  obtain l x where r: "r = (l, x)" by (cases r)
  obtain sm hi s where acc: "acc = (sm, hi, s)" by (cases acc)
  from assms r obtain p where p: "wc_de cd p = Some x" "length p < 2 ^ 32" "l \<le> u64_max"
    "wal_frame cd (l, x) = wal_header_encode (frame_header cd l x p) @ p"
    by (auto elim: rec_okE)
  obtain res s' where app: "app l x s = (res, s')" by (cases "app l x s")
  then have "l \<le> snap \<or> res = Inr ()" using assms(3) by (simp add: r acc)
  then show ?thesis
    using p app by (subst replay_segment.simps)
      (auto simp: r acc wal_decode_encode unat_u64 unat_u32 Let_def replay_rec_def)
qed

lemma replay_segment_frames:
  assumes "wal_codec_ok cd" "\<forall>r \<in> set rs. rec_ok cd r" "accepts snap app rs acc"
  shows "replay_segment cd snap app (frames cd rs @ rest) acc =
           replay_segment cd snap app rest (fold (replay_rec snap app) rs acc)"
  using assms(2,3) by (induction rs arbitrary: acc) (auto simp: replay_segment_frame assms(1))

lemma replay_segment_end [simp]: "replay_segment cd snap app [] acc = (Inr (), acc)"
  by (subst replay_segment.simps) (simp add: WAL_HEADER_SIZE_def)

text \<open>A frame cut short is passed over: it changes nothing but the count of torn records.\<close>

lemma replay_segment_torn:
  assumes "wal_codec_ok cd" "rec_ok cd r" "k < length (wal_frame cd r)"
  shows "\<exists>n. replay_segment cd snap app (take k (wal_frame cd r)) acc = (Inr (), count_torn n acc)"
proof -
  obtain l x where r: "r = (l, x)" by (cases r)
  from assms r obtain p where p: "length p < 2 ^ 32" "l \<le> u64_max"
    "wal_frame cd (l, x) = wal_header_encode (frame_header cd l x p) @ p"
    by (auto elim: rec_okE)
  have zero: "count_torn 0 acc = acc" by (simp add: count_torn_def split: prod.splits)
  show ?thesis
  proof (cases "k < WAL_HEADER_SIZE")
    case True
    then show ?thesis using p assms(3)
      by (subst replay_segment.simps) (auto simp: r intro: exI [of _ 0] simp: zero)
  next
    case False
    then have "take k (wal_frame cd r) = wal_header_encode (frame_header cd l x p) @ take (k - WAL_HEADER_SIZE) p"
      using p r by simp
    then show ?thesis using p assms(3) False
      by (subst replay_segment.simps) (auto simp: r wal_decode_encode unat_u32 Let_def)
  qed
qed

lemma max_segment_lsn_frames:
  assumes "wal_codec_ok cd" "\<forall>r \<in> set rs. rec_ok cd r"
  shows "max_segment_lsn (frames cd rs) mx = fold (\<lambda>r. max (fst r)) rs mx"
  using assms(2)
proof (induction rs arbitrary: mx)
  case Nil
  then show ?case by (subst max_segment_lsn.simps) (simp add: WAL_HEADER_SIZE_def)
next
  case (Cons r rs)
  obtain l x where r: "r = (l, x)" by (cases r)
  from assms(1) Cons.prems r obtain p where p: "length p < 2 ^ 32" "l \<le> u64_max"
    "wal_frame cd (l, x) = wal_header_encode (frame_header cd l x p) @ p"
    by (auto elim: rec_okE)
  then have "max_segment_lsn (frames cd (r # rs)) mx = max_segment_lsn (frames cd rs) (max mx l)"
    by (subst max_segment_lsn.simps) (simp add: r wal_decode_encode unat_u64 unat_u32)
  then show ?case using Cons by (simp add: r max.commute)
qed

section \<open>The image of the log on disk\<close>

type_synonym ('v, 'd) wal_part = "nat \<times> (nat \<times> ('v, 'd) wal_mutation) list"

definition part_file :: "('v, 'd) wal_mutation wal_codec \<Rightarrow> ('v, 'd) wal_part \<Rightarrow> nat \<times> byte list" where
  "part_file cd q = (fst q, frames cd (snd q))"

abbreviation records :: "('v, 'd) wal_part list \<Rightarrow> (nat \<times> ('v, 'd) wal_mutation) list" where
  "records parts \<equiv> concat (map snd parts)"

text \<open>
  The segments hold the records of \<open>parts\<close>, the active one followed by \<open>tail\<close>; no record is
  above the current number.
\<close>

definition wal_image ::
  "('v, 'd) wal_mutation wal_codec \<Rightarrow> wal_manager \<Rightarrow> ('v, 'd) wal_part list \<Rightarrow> byte list \<Rightarrow> bool" where
  "wal_image cd m parts tail \<longleftrightarrow>
     (\<exists>qs i rs w. parts = qs @ [(i, rs)] \<and>
        wal_files m = map (part_file cd) qs @ [(i, frames cd rs @ tail)] \<and>
        wal_writer m = Some w \<and> ww_segment_id w = i \<and> 0 < i) \<and>
     sorted_wrt (<) (map fst parts) \<and>
     (\<forall>r \<in> set (records parts). rec_ok cd r \<and> fst r \<le> current_lsn m)"

definition wal_ok ::
  "('v, 'd) wal_mutation wal_codec \<Rightarrow> wal_manager \<Rightarrow> ('v, 'd) wal_part list \<Rightarrow> bool" where
  "wal_ok cd m parts \<longleftrightarrow> wal_image cd m parts [] \<and> wal_plan m = []"

definition torn_tail :: "('v, 'd) wal_mutation wal_codec \<Rightarrow> byte list \<Rightarrow> bool" where
  "torn_tail cd tail \<longleftrightarrow>
     tail = [] \<or> (\<exists>r k. rec_ok cd r \<and> k < length (wal_frame cd r) \<and> tail = take k (wal_frame cd r))"

lemma torn_tail_Nil [simp]: "torn_tail cd []"
  by (simp add: torn_tail_def)

lemma wal_image_cong:
  assumes "wal_files m' = wal_files m" "wal_writer m' = wal_writer m" "current_lsn m' = current_lsn m"
  shows "wal_image cd m' = wal_image cd m"
  by (intro ext) (simp only: wal_image_def assms)

lemma wal_image_fields [simp]:
  "wal_image cd (m\<lparr>wal_plan := p\<rparr>) = wal_image cd m"
  "wal_image cd (m\<lparr>fsync_count := n\<rparr>) = wal_image cd m"
  "wal_image cd (m\<lparr>last_synced_lsn := n\<rparr>) = wal_image cd m"
  "wal_image cd (m\<lparr>last_checkpoint_lsn := n\<rparr>) = wal_image cd m"
  "wal_image cd (m\<lparr>appends_total := n\<rparr>) = wal_image cd m"
  "wal_image cd (m\<lparr>wal_bytes_written := n\<rparr>) = wal_image cd m"
  by (rule wal_image_cong; simp)+

lemma wal_tickE:
  assumes "wal_tick m = (b, m')"
  obtains p where "m' = m\<lparr>wal_plan := p\<rparr>" "wal_plan m = [] \<longrightarrow> b \<and> p = []"
proof (cases "wal_plan m")
  case Nil
  then have "m' = m\<lparr>wal_plan := []\<rparr>" b using assms by (simp_all add: wal_tick_def wal_next_def)
  then show thesis using that by blast
next
  case (Cons x xs)
  then have "m' = m\<lparr>wal_plan := xs\<rparr>"
    using assms by (simp add: wal_tick_def wal_next_def split: wal_outcome.splits)
  then show thesis using that [of xs] Cons by simp
qed

lemma quiet_tick [simp]: "wal_plan m = [] \<Longrightarrow> wal_tick m = (True, m)"
  by (simp add: wal_tick_def wal_next_def)

lemma part_file_simps [simp]: "fst (part_file cd q) = fst q" "snd (part_file cd q) = frames cd (snd q)"
  by (simp_all add: part_file_def)

lemma file_update_append:
  "i \<notin> set (map fst fs) \<Longrightarrow> file_update i bs (fs @ gs) = fs @ file_update i bs gs"
  by (induction fs) auto

lemma map_of_parts_None [simp]: "i \<notin> fst ` set qs \<Longrightarrow> map_of (map (part_file cd) qs) i = None"
  by (simp add: map_of_eq_None_iff image_image)

lemma segment_bytes_last:
  assumes "wal_files m = map (part_file cd) qs @ [(i, bs)]" "i \<notin> fst ` set qs"
  shows "segment_bytes i m = bs"
  using assms by (simp add: segment_bytes_def map_add_def)

lemma file_update_last:
  assumes "i \<notin> fst ` set qs"
  shows "file_update i cs (map (part_file cd) qs @ [(i, bs)]) = map (part_file cd) qs @ [(i, cs)]"
  using assms by (subst file_update_append) (auto simp: image_image)

lemma file_update_new:
  assumes "i \<notin> fst ` set qs"
  shows "file_update i cs (map (part_file cd) qs) = map (part_file cd) qs @ [(i, cs)]"
  using file_update_append [of i "map (part_file cd) qs" cs "[]"] assms by (auto simp: image_image)

lemma wal_imageE:
  assumes "wal_image cd m parts tail"
  obtains qs i rs w where "parts = qs @ [(i, rs)]"
    "wal_files m = map (part_file cd) qs @ [(i, frames cd rs @ tail)]"
    "i \<notin> fst ` set qs" "wal_writer m = Some w" "ww_segment_id w = i" "0 < i"
  using assms that by (fastforce simp: wal_image_def sorted_wrt_append)

lemma wal_writeE:
  assumes "wal_write i cs m = (b, m')"
    and "wal_files m = map (part_file cd) qs @ [(i, bs)]" "i \<notin> fst ` set qs"
  obtains p k where "m' = m\<lparr>wal_plan := p, wal_files := map (part_file cd) qs @ [(i, bs @ take k cs)]\<rparr>"
    "if b then length cs \<le> k else k < length cs" "wal_plan m = [] \<longrightarrow> b \<and> p = []"
proof (cases "cs = [] \<or> wal_plan m = []")
  case True
  then have "m' = m\<lparr>wal_plan := wal_plan m, wal_files := map (part_file cd) qs @ [(i, bs @ take (length cs) cs)]\<rparr>" b
    using assms by (cases m; cases "cs = []"; simp add: wal_write_def wal_next_def segment_bytes_last file_update_last)+
  then show thesis using that [of "length cs" "wal_plan m"] by simp
next
  case False
  then obtain x xs where plan: "wal_plan m = x # xs" by (cases "wal_plan m") auto
  have "segment_bytes i (m\<lparr>wal_plan := xs\<rparr>) = bs"
    using assms(2,3) by (intro segment_bytes_last) auto
  moreover have "min k (length cs - 1) < length cs" for k using False by (cases cs) auto
  ultimately show thesis
    using that [of "case x of WalDone \<Rightarrow> length cs | WalFails k \<Rightarrow> min k (length cs - 1)" xs] assms plan False
    by (cases x) (auto simp: wal_write_def wal_next_def file_update_last)
qed

section \<open>Appending\<close>

lemma rotate_writer_image:
  assumes im: "wal_image cd m parts []" and w: "wal_writer m = Some w"
    and rot: "rotate_writer w m = (res, m')"
  obtains parts' where "wal_image cd m' parts' []" "records parts' = records parts"
    "current_lsn m' = current_lsn m" "\<forall>w'. res = Inr w' \<longrightarrow> wal_writer m' = Some w'"
    "wal_plan m = [] \<longrightarrow> (\<exists>w'. res = Inr w') \<and> wal_plan m' = []"
proof (cases "ww_bytes_written w < wal_max_segment_bytes m")
  case True
  then show thesis using that [of parts] im w rot by (auto simp: rotate_writer_def)
next
  case False
  from im obtain qs i rs where e: "parts = qs @ [(i, rs)]"
      "wal_files m = map (part_file cd) parts" "i \<notin> fst ` set qs" "ww_segment_id w = i"
    using w by (auto elim!: wal_imageE simp: part_file_def)
  have new: "Suc i \<notin> fst ` set parts"
    using im e by (fastforce simp: wal_image_def sorted_wrt_append)
  obtain b1 m1 where t1: "wal_tick m = (b1, m1)" by (cases "wal_tick m")
  obtain b2 m2 where t2: "wal_tick m1 = (b2, m2)" by (cases "wal_tick m1")
  from t1 obtain p1 where p1: "m1 = m\<lparr>wal_plan := p1\<rparr>" "wal_plan m = [] \<longrightarrow> b1 \<and> p1 = []" by (rule wal_tickE)
  from t2 obtain p2 where p2: "m2 = m1\<lparr>wal_plan := p2\<rparr>" "wal_plan m1 = [] \<longrightarrow> b2 \<and> p2 = []" by (rule wal_tickE)
  show thesis
  proof (cases b2)
    case b2: False
    then have "res = Inl (IoError ''open'')" "m' = m2"
      using rot False by (simp_all add: rotate_writer_def t1 t2)
    then show thesis using that [of parts] im b2 p1 p2 by auto
  next
    case b2: True
    define w' where "w' = \<lparr>ww_segment_id = Suc i, ww_bytes_written = 0\<rparr>"
    have bytes: "segment_bytes (Suc i) m2 = []"
      using new by (simp add: segment_bytes_def p1 p2 e(2))
    have "rotate_writer w m = (Inr w', (touch_segment (Suc i) m2)\<lparr>wal_writer := Some w'\<rparr>)"
      using False b2 e(4) by (simp add: rotate_writer_def t1 t2 w'_def Let_def)
    then have m': "res = Inr w'" "m' = m\<lparr>wal_plan := p2, wal_files := map (part_file cd) parts @ [(Suc i, [])],
        wal_writer := Some w'\<rparr>"
      using rot bytes by (auto simp: touch_segment_def p1(1) p2(1) e(2) file_update_new [OF new])
    have "wal_image cd m' (parts @ [(Suc i, [])]) []"
      unfolding wal_image_def
    proof (intro conjI exI)
      show "parts @ [(Suc i, [])] = parts @ [(Suc i, [])]" ..
      show "wal_files m' = map (part_file cd) parts @ [(Suc i, frames cd [] @ [])]"
        "wal_writer m' = Some w'" "ww_segment_id w' = Suc i" "0 < Suc i" by (simp_all add: m' w'_def)
      have "\<forall>j \<in> set (map fst parts). j < Suc i"
        using im e(1) by (fastforce simp: wal_image_def sorted_wrt_append)
      then show "sorted_wrt (<) (map fst (parts @ [(Suc i, [])]))"
        using im by (simp add: wal_image_def sorted_wrt_append)
      show "\<forall>r \<in> set (records (parts @ [(Suc i, [])])). rec_ok cd r \<and> fst r \<le> current_lsn m'"
        using im by (simp add: wal_image_def m')
    qed
    then show thesis
      by (rule that [of "parts @ [(Suc i, [])]"]) (use m' p1 p2 in simp_all)
  qed
qed

lemma sync_image:
  assumes "wal_image cd m parts tail" "sync_target_lsn l m = (res, m')"
  shows "wal_image cd m' parts tail" "current_lsn m' = current_lsn m"
    "res = Inr () \<Longrightarrow> l \<le> current_lsn m \<Longrightarrow> l \<le> last_synced_lsn m'"
    "wal_plan m = [] \<Longrightarrow> res = Inr () \<and> wal_plan m' = []"
proof -
  obtain b1 m1 where t1: "wal_tick m = (b1, m1)" by (cases "wal_tick m")
  then obtain p1 where p1: "m1 = m\<lparr>wal_plan := p1\<rparr>" "wal_plan m = [] \<longrightarrow> b1 \<and> p1 = []" by (rule wal_tickE)
  have w: "wal_writer m \<noteq> None" using assms(1) by (auto simp: wal_image_def)
  show "wal_image cd m' parts tail" "current_lsn m' = current_lsn m"
    "res = Inr () \<Longrightarrow> l \<le> current_lsn m \<Longrightarrow> l \<le> last_synced_lsn m'"
    "wal_plan m = [] \<Longrightarrow> res = Inr () \<and> wal_plan m' = []"
    using assms w p1 by (auto simp: sync_target_lsn_def t1 split: if_splits bool.splits)
qed

text \<open>
  An append, whatever the file system does: the image keeps its records, and either gains the
  new one in full or ends in a cut-off piece of its frame. Success means the record is there.
\<close>

lemma wal_image_tail:
  assumes "wal_image cd m parts tail" "parts = qs @ [(i, rs)]"
  shows "wal_image cd (m\<lparr>wal_plan := p, wal_files := map (part_file cd) qs @ [(i, frames cd rs @ tail')]\<rparr>) parts tail'"
  using assms by (simp add: wal_image_def)

lemma append_writes:
  assumes im: "wal_image cd m parts []" and w: "wal_writer m = Some w"
    and ser: "wc_ser cd x = Some payload" and lsn: "l = Suc (current_lsn m)" "l \<le> u64_max"
    and w1: "wal_write (ww_segment_id w) (wal_header_encode (frame_header cd l x payload)) m = (b1, m1)"
    and w2: "wal_write (ww_segment_id w) payload m1 = (b2, m2)"
  shows "\<not> b1 \<Longrightarrow> \<exists>tail. wal_image cd m1 parts tail \<and> torn_tail cd tail"
    "b1 \<Longrightarrow> \<not> b2 \<Longrightarrow> \<exists>tail. wal_image cd m2 parts tail \<and> torn_tail cd tail"
    "b1 \<Longrightarrow> b2 \<Longrightarrow> \<exists>parts'. records parts' = records parts @ [(l, x)] \<and>
       (\<forall>w' :: wal_active_writer. ww_segment_id w' = ww_segment_id w \<longrightarrow>
          wal_image cd (m2\<lparr>wal_writer := Some w', current_lsn := l\<rparr>) parts' [])"
    "wal_plan m = [] \<Longrightarrow> b1 \<and> b2 \<and> wal_plan m2 = []"
    "wal_writer m1 = wal_writer m" "wal_writer m2 = wal_writer m" "current_lsn m2 = current_lsn m"
proof -
  let ?h = "wal_header_encode (frame_header cd l x payload)"
  from im w obtain qs i rs where e: "parts = qs @ [(i, rs)]" "i \<notin> fst ` set qs" "ww_segment_id w = i"
      "wal_files m = map (part_file cd) qs @ [(i, frames cd rs)]" "0 < i"
    by (elim wal_imageE) auto
  have frame: "wal_frame cd (l, x) = ?h @ payload" "rec_ok cd (l, x)"
    using ser lsn by (simp_all add: wal_frame_def rec_ok_def)
  from w1 [unfolded e(3)] e(4,2) obtain p1 k1 where m1: "m1 = m\<lparr>wal_plan := p1, wal_files := map (part_file cd) qs @ [(i, frames cd rs @ take k1 ?h)]\<rparr>"
      "if b1 then length ?h \<le> k1 else k1 < length ?h" "wal_plan m = [] \<longrightarrow> b1 \<and> p1 = []"
    by (rule wal_writeE)
  then have f1: "wal_files m1 = map (part_file cd) qs @ [(i, frames cd rs @ take k1 ?h)]" by simp
  from w2 [unfolded e(3)] f1 e(2) obtain p2 k2 where m2: "m2 = m1\<lparr>wal_plan := p2, wal_files := map (part_file cd) qs @ [(i, (frames cd rs @ take k1 ?h) @ take k2 payload)]\<rparr>"
      "if b2 then length payload \<le> k2 else k2 < length payload" "wal_plan m1 = [] \<longrightarrow> b2 \<and> p2 = []"
    by (rule wal_writeE)
  show "\<exists>tail. wal_image cd m1 parts tail \<and> torn_tail cd tail" if "\<not> b1"
  proof (rule exI [of _ "take k1 ?h"], rule conjI)
    show "wal_image cd m1 parts (take k1 ?h)"
      unfolding m1(1) using im e(1) by (rule wal_image_tail)
    show "torn_tail cd (take k1 ?h)"
      using that m1(2) frame unfolding torn_tail_def
      by (intro disjI2 exI [of _ "(l, x)"] exI [of _ k1]) simp
  qed
  show "\<exists>tail. wal_image cd m2 parts tail \<and> torn_tail cd tail" if "b1" "\<not> b2"
  proof (rule exI [of _ "?h @ take k2 payload"], rule conjI)
    show "wal_image cd m2 parts (?h @ take k2 payload)"
      using wal_image_tail [OF im e(1), where p = p2 and tail' = "?h @ take k2 payload"] that m1(2) by (simp add: m1(1) m2(1))
    show "torn_tail cd (?h @ take k2 payload)"
      using that m2(2) frame unfolding torn_tail_def
      by (intro disjI2 exI [of _ "(l, x)"] exI [of _ "length ?h + k2"]) simp
  qed
  show "\<exists>parts'. records parts' = records parts @ [(l, x)] \<and>
       (\<forall>w' :: wal_active_writer. ww_segment_id w' = ww_segment_id w \<longrightarrow>
          wal_image cd (m2\<lparr>wal_writer := Some w', current_lsn := l\<rparr>) parts' [])" if "b1" "b2"
  proof (intro exI [of _ "qs @ [(i, rs @ [(l, x)])]"] conjI allI impI)
    fix w' :: wal_active_writer assume w': "ww_segment_id w' = ww_segment_id w"
    have "wal_files m2 = map (part_file cd) qs @ [(i, frames cd (rs @ [(l, x)]))]"
      using that m1(2) m2(2) frame by (simp add: m2(1))
    moreover have "\<forall>r \<in> set (records parts). rec_ok cd r \<and> fst r \<le> l"
      using im lsn(1) by (fastforce simp: wal_image_def)
    moreover have "sorted_wrt (<) (map fst parts)" using im by (simp add: wal_image_def)
    ultimately show "wal_image cd (m2\<lparr>wal_writer := Some w', current_lsn := l\<rparr>) (qs @ [(i, rs @ [(l, x)])]) []"
      using e w' frame(2) by (simp add: wal_image_def ball_Un)
  qed (simp add: e)
  show "wal_plan m = [] \<Longrightarrow> b1 \<and> b2 \<and> wal_plan m2 = []"
    "wal_writer m1 = wal_writer m" "wal_writer m2 = wal_writer m" "current_lsn m2 = current_lsn m"
    using m1(3) m2(3) by (simp_all add: m1(1) m2(1))
qed

text \<open>The steps of an append that gets past the serialiser.\<close>

lemma wal_append_unfold:
  assumes "policy \<noteq> Memory" "wc_ser cd x = Some payload" "wal_writer m = Some w0"
    "rotate_writer w0 m = (Inr w, m1)" "current_lsn m1 < u64_max" "l = Suc (current_lsn m1)"
    "wal_write (ww_segment_id w) (wal_header_encode (frame_header cd l x payload)) m1 = (b2, m2)"
    "wal_write (ww_segment_id w) payload m2 = (b3, m3)"
    "m4 = m3\<lparr>wal_writer := Some (w\<lparr>ww_bytes_written := ww_bytes_written w + (WAL_HEADER_SIZE + length payload)\<rparr>),
             current_lsn := l,
             wal_bytes_written := wal_bytes_written m3 + (WAL_HEADER_SIZE + length payload),
             appends_total := appends_total m3 + 1\<rparr>"
  shows "wal_append cd x policy m =
     Some (if \<not> b2 then (Inl (IoError ''write''), m2) else if \<not> b3 then (Inl (IoError ''write''), m3)
           else case sync_target_lsn l m4 of (Inl e, m5) \<Rightarrow> (Inl e, m5) | (Inr _, m5) \<Rightarrow> (Inr l, m5))"
  using assms by (auto simp: wal_append_def Let_def split: prod.splits sum.splits bool.splits)

lemma append_image:
  assumes im: "wal_image cd m parts []" and mem: "policy \<noteq> Memory"
    and app: "wal_append cd x policy m = Some (res, m')"
  obtains (torn) parts' tail where "wal_image cd m' parts' tail" "torn_tail cd tail"
      "records parts' = records parts" "\<nexists>l. res = Inr l"
      "wal_plan m = [] \<longrightarrow> tail = [] \<and> wal_plan m' = []"
  | (kept) parts' where "wal_image cd m' parts' []"
      "records parts' = records parts @ [(Suc (current_lsn m), x)]" "current_lsn m < u64_max"
      "res = Inr (Suc (current_lsn m)) \<or> (\<exists>e. res = Inl e)" "current_lsn m' = Suc (current_lsn m)"
      "\<forall>l. res = Inr l \<longrightarrow> l \<le> last_synced_lsn m'"
      "wal_plan m = [] \<longrightarrow> res = Inr (Suc (current_lsn m)) \<and> wal_plan m' = []"
proof (cases "wc_ser cd x")
  case None
  then show thesis using app mem im by (intro torn [of parts "[]"]) (auto simp: wal_append_def torn_tail_def)
next
  case ser: (Some payload)
  from im obtain w0 where w0: "wal_writer m = Some w0" by (auto simp: wal_image_def)
  obtain rw m1 where rot: "rotate_writer w0 m = (rw, m1)" by (cases "rotate_writer w0 m")
  from im w0 rot obtain parts1 where r: "wal_image cd m1 parts1 []" "records parts1 = records parts"
      "current_lsn m1 = current_lsn m" "\<forall>w'. rw = Inr w' \<longrightarrow> wal_writer m1 = Some w'"
      "wal_plan m = [] \<longrightarrow> (\<exists>w'. rw = Inr w') \<and> wal_plan m1 = []"
    by (rule rotate_writer_image)
  show thesis
  proof (cases rw)
    case (Inl e)
    then show thesis using app mem ser w0 rot r
      by (intro torn [of parts1 "[]"]) (auto simp: wal_append_def torn_tail_def)
  next
    case (Inr w)
    then have w: "wal_writer m1 = Some w" using r by simp
    have lt: "current_lsn m1 < u64_max" using app mem ser w0 rot Inr by (simp add: wal_append_def split: if_splits)
    define l where "l = Suc (current_lsn m1)"
    obtain b2 m2 where w2: "wal_write (ww_segment_id w) (wal_header_encode (frame_header cd l x payload)) m1 = (b2, m2)"
      by (cases "wal_write (ww_segment_id w) (wal_header_encode (frame_header cd l x payload)) m1")
    obtain b3 m3 where w3: "wal_write (ww_segment_id w) payload m2 = (b3, m3)"
      by (cases "wal_write (ww_segment_id w) payload m2")
    define w' where "w' = w\<lparr>ww_bytes_written := ww_bytes_written w + (WAL_HEADER_SIZE + length payload)\<rparr>"
    define m4 where "m4 = m3\<lparr>wal_writer := Some w', current_lsn := l,
       wal_bytes_written := wal_bytes_written m3 + (WAL_HEADER_SIZE + length payload), appends_total := appends_total m3 + 1\<rparr>"
    obtain sr m5 where sy: "sync_target_lsn l m4 = (sr, m5)" by (cases "sync_target_lsn l m4")
    have res: "(res, m') = (if \<not> b2 then (Inl (IoError ''write''), m2) else if \<not> b3 then (Inl (IoError ''write''), m3)
           else case sr of Inl e \<Rightarrow> (Inl e, m5) | Inr _ \<Rightarrow> (Inr l, m5))"
      using wal_append_unfold [OF mem ser w0 rot [unfolded Inr] lt l_def w2 w3 m4_def [unfolded w'_def]] app sy
      by (simp split: sum.splits)
    have lu: "l \<le> u64_max" using lt by (simp add: l_def)
    note aw = append_writes [OF r(1) w ser l_def lu w2 w3]
    show thesis
    proof (cases "b2 \<and> b3")
      case False
      then obtain tail where "wal_image cd m' parts1 tail" "torn_tail cd tail" "\<nexists>l. res = Inr l"
        using aw(1,2) res by (auto split: if_splits)
      then show thesis using torn r aw(4) False by blast
    next
      case True
      then obtain parts' where k: "records parts' = records parts1 @ [(l, x)]"
          "wal_image cd (m3\<lparr>wal_writer := Some w', current_lsn := l\<rparr>) parts' []"
        using aw(3) by (auto simp: w'_def)
      have m4: "wal_image cd m4 parts' []" using k(2) unfolding m4_def by (simp only: wal_image_fields)
      have m': "m' = m5" using res True by (simp split: sum.splits)
      show thesis
        by (rule kept [of parts'])
          (use sync_image [OF m4 sy] aw(4) k(1) r(2,3,5) lt True res in \<open>auto simp: m' m4_def l_def split: sum.splits\<close>)
    qed
  qed
qed

section \<open>Replaying an image\<close>

definition disk_image ::
  "('v, 'd) wal_mutation wal_codec \<Rightarrow> (nat \<times> byte list) list \<Rightarrow> ('v, 'd) wal_part list \<Rightarrow> byte list \<Rightarrow> bool" where
  "disk_image cd fs parts tail \<longleftrightarrow>
     (\<exists>qs i rs. parts = qs @ [(i, rs)] \<and> fs = map (part_file cd) qs @ [(i, frames cd rs @ tail)]) \<and>
     sorted_wrt (<) (map fst parts) \<and> (\<forall>r \<in> set (records parts). rec_ok cd r)"

lemma image_on_disk: "wal_image cd m parts tail \<Longrightarrow> disk_image cd (wal_files m) parts tail"
  unfolding wal_image_def disk_image_def by blast

lemma disk_image_sorted:
  assumes "disk_image cd fs parts tail"
  shows "map fst fs = map fst parts" "sort_key fst fs = fs"
proof -
  show m: "map fst fs = map fst parts"
    using assms by (auto simp: disk_image_def)
  show "sort_key fst fs = fs"
    by (rule sort_key_id_if_sorted) (use assms m in \<open>simp add: disk_image_def strict_sorted_iff\<close>)
qed

lemma replay_segments_parts:
  assumes "wal_codec_ok cd" "wal_plan m = []"
    and "\<forall>r \<in> set (records parts). rec_ok cd r" "accepts snap app (records parts) acc"
  shows "replay_segments cd snap app (map (part_file cd) parts @ segs) acc m =
           replay_segments cd snap app segs (fold (replay_rec snap app) (records parts) acc) m"
  using assms(3,4)
proof (induction parts arbitrary: acc)
  case (Cons q parts)
  then have "replay_segment cd snap app (frames cd (snd q)) acc = (Inr (), fold (replay_rec snap app) (snd q) acc)"
    using replay_segment_frames [OF assms(1), of "snd q" snap app acc "[]"] by (simp add: accepts_append)
  then show ?case using Cons by (cases q) (simp add: part_file_def assms(2) accepts_append)
qed simp

lemma count_torn_zero [simp]: "count_torn 0 acc = acc"
  by (simp add: count_torn_def split: prod.splits)

lemma replay_torn_tail:
  assumes "wal_codec_ok cd" "torn_tail cd tail"
  obtains n where "replay_segment cd snap app tail acc = (Inr (), count_torn n acc)" "tail = [] \<longrightarrow> n = 0"
proof (cases "tail = []")
  case True
  then show thesis using that [of 0] by simp
next
  case False
  then obtain r k where "rec_ok cd r" "k < length (wal_frame cd r)" "tail = take k (wal_frame cd r)"
    using assms(2) by (auto simp: torn_tail_def)
  then show thesis using replay_segment_torn [OF assms(1), of r k snap app acc] that False by blast
qed

lemma replay_disk_image:
  assumes cd: "wal_codec_ok cd" and plan: "wal_plan m = []"
    and im: "disk_image cd (wal_files m) parts tail" and tail: "torn_tail cd tail"
    and acc: "(sm, hi, s') = fold (replay_rec snap app) (records parts)
       (\<lparr>ws_start_lsn = snap, ws_last_applied_lsn = snap, ws_total_replayed = 0,
         ws_torn_records_skipped = 0, ws_active_segment_count = length parts\<rparr>, snap, s)"
    and app: "accepts snap app (records parts)
       (\<lparr>ws_start_lsn = snap, ws_last_applied_lsn = snap, ws_total_replayed = 0,
         ws_torn_records_skipped = 0, ws_active_segment_count = length parts\<rparr>, snap, s)"
  obtains n where "wal_replay cd snap app s m =
      (Inr (sm\<lparr>ws_torn_records_skipped := ws_torn_records_skipped sm + n\<rparr>), s',
       m\<lparr>current_lsn := hi, last_synced_lsn := hi, recovered_records := ws_total_replayed sm\<rparr>)"
    "tail = [] \<longrightarrow> n = 0"
proof -
  from im obtain qs i rs where e: "parts = qs @ [(i, rs)]"
      "wal_files m = map (part_file cd) qs @ [(i, frames cd rs @ tail)]" "\<forall>r \<in> set (records parts). rec_ok cd r"
    unfolding disk_image_def by blast
  obtain n where n: "replay_segment cd snap app tail (sm, hi, s') = (Inr (), count_torn n (sm, hi, s'))"
      "tail = [] \<longrightarrow> n = 0"
    by (rule replay_torn_tail [OF cd tail])
  have ls: "list_segments m = (wal_files m, m)"
    using disk_image_sorted(2) [OF im] plan by (simp add: list_segments_def)
  have "replay_segments cd snap app (wal_files m)
     (\<lparr>ws_start_lsn = snap, ws_last_applied_lsn = snap, ws_total_replayed = 0,
         ws_torn_records_skipped = 0, ws_active_segment_count = length parts\<rparr>, snap, s) m =
     (Inr (), count_torn n (sm, hi, s'), m)"
    using n acc e(3) app unfolding e(2)
    by (simp add: replay_segments_parts cd plan e(1) replay_segment_frames accepts_append)
  moreover have "length (wal_files m) = length parts" by (simp add: e(1,2))
  ultimately show thesis
    using that [of n] n(2) by (simp add: wal_replay_def ls count_torn_def)
qed

text \<open>What the fold over the records computes.\<close>

abbreviation after :: "nat \<Rightarrow> (nat \<times> 'x) list \<Rightarrow> (nat \<times> 'x) list" where
  "after snap rs \<equiv> filter (\<lambda>r. snap < fst r) rs"

lemma collect_accepts [simp]: "accepts snap collect rs acc"
  by (induction rs arbitrary: acc) (simp_all add: collect_def)

lemma replay_rec_collect:
  "replay_rec snap collect (l, x) (sm, hi, s) =
     (if l \<le> snap then (sm, hi, s) else (count_replayed l sm, max hi l, s @ [(l, x)]))"
  by (simp add: replay_rec_def collect_def)

lemma fold_replay_collect:
  assumes "fold (replay_rec snap collect) rs (sm, hi, s) = (sm', hi', s')"
  shows "s' = s @ after snap rs"
    "ws_total_replayed sm' = ws_total_replayed sm + length (after snap rs)"
    "ws_torn_records_skipped sm' = ws_torn_records_skipped sm"
    "hi \<le> hi'" "\<forall>r \<in> set (after snap rs). fst r \<le> hi'"
  using assms
proof (induction rs arbitrary: sm hi s)
  case (Cons r rs)
  obtain l x where r: "r = (l, x)" by (cases r)
  {
    case 1
    then show ?case using Cons.IH(1) by (fastforce simp: r replay_rec_collect split: if_splits)
  next
    case 2
    then show ?case using Cons.IH(2) by (auto simp: r replay_rec_collect count_replayed_def split: if_splits)
  next
    case 3
    then show ?case using Cons.IH(3) by (auto simp: r replay_rec_collect count_replayed_def split: if_splits)
  next
    case 4
    then show ?case using Cons.IH(4) by (fastforce simp: r replay_rec_collect split: if_splits)
  next
    case 5
    then show ?case using Cons.IH(4,5) by (fastforce simp: r replay_rec_collect split: if_splits)
  }
qed auto

section \<open>Truncating an image\<close>

definition doomed :: "nat \<Rightarrow> nat \<Rightarrow> ('v, 'd) wal_part \<Rightarrow> bool" where
  "doomed safe active q \<longleftrightarrow>
     fst q < active \<and> (let mx = fold (\<lambda>r. max (fst r)) (snd q) 0 in 0 < mx \<and> mx \<le> safe)"

lemma fold_max_bound:
  "mx \<le> fold (\<lambda>r. max (fst r)) rs mx" "r \<in> set rs \<Longrightarrow> fst r \<le> fold (\<lambda>r. max (fst r)) rs (mx :: nat)"
proof (induction rs arbitrary: mx)
  case (Cons a rs)
  {
    case 1
    show ?case using Cons.IH(1) [of "max (fst a) mx"] by simp
  next
    case 2
    then show ?case using Cons.IH(1) [of "max (fst a) mx"] Cons.IH(2) by auto
  }
qed simp_all

lemma doomed_after: "doomed safe active q \<Longrightarrow> safe \<le> snap \<Longrightarrow> after snap (snd q) = []"
  using fold_max_bound(2) [of _ "snd q" 0] by (fastforce simp: doomed_def Let_def filter_empty_conv)

lemma after_survivors:
  "safe \<le> snap \<Longrightarrow> after snap (records (filter (\<lambda>q. \<not> doomed safe active q) parts)) = after snap (records parts)"
  by (induction parts) (auto simp: doomed_after)

lemma truncate_segments_parts:
  assumes cd: "wal_codec_ok cd" and plan: "wal_plan m = []" and "\<forall>r \<in> set (records parts). rec_ok cd r"
  shows "\<exists>n. truncate_segments safe active (map (part_file cd) parts) k m =
    (Inr n, m\<lparr>wal_files := filter (\<lambda>f. fst f \<notin> fst ` {q \<in> set parts. doomed safe active q}) (wal_files m)\<rparr>)"
  using assms(2,3)
proof (induction parts arbitrary: k m)
  case (Cons q parts)
  obtain i rs where q: "q = (i, rs)" by (cases q)
  define m' where "m' = (if doomed safe active q then m\<lparr>wal_files := filter (\<lambda>f. fst f \<noteq> i) (wal_files m)\<rparr> else m)"
  have mx: "max_segment_lsn (frames cd rs) 0 = fold (\<lambda>r. max (fst r)) rs 0"
    using Cons.prems by (intro max_segment_lsn_frames [OF cd]) (simp add: q)
  have "\<exists>k'. truncate_segments safe active (map (part_file cd) (q # parts)) k m =
      truncate_segments safe active (map (part_file cd) parts) k' m'"
    using Cons.prems by (auto simp: q part_file_def m'_def mx doomed_def remove_segment_def Let_def)
  moreover have "wal_plan m' = []" using Cons.prems by (simp add: m'_def)
  ultimately obtain n where "truncate_segments safe active (map (part_file cd) (q # parts)) k m =
      (Inr n, m'\<lparr>wal_files := filter (\<lambda>f. fst f \<notin> fst ` {q \<in> set parts. doomed safe active q}) (wal_files m')\<rparr>)"
    using Cons.IH [of m'] Cons.prems by (metis (no_types, lifting) UnCI concat.simps(2) list.simps(9) set_append)
  moreover have "fst ` {p \<in> set (q # parts). doomed safe active p} =
      (if doomed safe active q then {i} else {}) \<union> fst ` {q \<in> set parts. doomed safe active q}"
    by (auto simp: q image_iff)
  then have "filter (\<lambda>f. fst f \<notin> fst ` {q \<in> set parts. doomed safe active q}) (wal_files m') =
      filter (\<lambda>f. fst f \<notin> fst ` {p \<in> set (q # parts). doomed safe active p}) (wal_files m)"
    by (simp add: m'_def conj_commute)
  ultimately show ?case by (auto simp: m'_def)
qed simp

lemma filter_part_files:
  assumes "distinct (map fst parts)"
  shows "filter (\<lambda>f. fst f \<notin> fst ` {q \<in> set parts. P q}) (map (part_file cd) parts) =
           map (part_file cd) (filter (\<lambda>q. \<not> P q) parts)"
proof -
  have "fst q \<notin> fst ` {q \<in> set parts. P q} \<longleftrightarrow> \<not> P q" if "q \<in> set parts" for q
    using assms that by (auto simp: distinct_map inj_on_def)
  then show ?thesis by (simp add: filter_map comp_def cong: filter_cong)
qed

lemma truncate_ok:
  assumes cd: "wal_codec_ok cd" and ok: "wal_ok cd m parts"
  obtains parts' where "wal_ok cd (snd (truncate_before safe m)) parts'"
    "\<forall>snap. safe \<le> snap \<longrightarrow> after snap (records parts') = after snap (records parts)"
    "current_lsn (snd (truncate_before safe m)) = current_lsn m"
proof -
  from ok have im: "wal_image cd m parts []" and plan: "wal_plan m = []" by (simp_all add: wal_ok_def)
  from im obtain qs i rs w where e: "parts = qs @ [(i, rs)]" "wal_files m = map (part_file cd) parts"
      "wal_writer m = Some w" "ww_segment_id w = i" "0 < i"
    by (elim wal_imageE) (auto simp: part_file_def)
  let ?keep = "filter (\<lambda>q. \<not> doomed safe i q)"
  have recs: "\<forall>r \<in> set (records parts). rec_ok cd r \<and> fst r \<le> current_lsn m"
    and sorted: "sorted_wrt (<) (map fst parts)" using im by (simp_all add: wal_image_def)
  obtain n where "truncate_segments safe i (wal_files m) 0 m =
      (Inr n, m\<lparr>wal_files := filter (\<lambda>f. fst f \<notin> fst ` {q \<in> set parts. doomed safe i q}) (wal_files m)\<rparr>)"
    using truncate_segments_parts [OF cd plan, of parts safe i 0] recs by (auto simp: e(2))
  then have tb: "snd (truncate_before safe m) =
      m\<lparr>wal_files := map (part_file cd) (?keep parts), last_checkpoint_lsn := safe\<rparr>"
    using disk_image_sorted(2) [OF image_on_disk [OF im]] plan sorted
    by (simp add: truncate_before_def list_segments_def e(3,4) e(2) filter_part_files strict_sorted_iff)
  have spared: "\<not> doomed safe i (i, rs)" by (simp add: doomed_def)
  then have last: "?keep parts = ?keep qs @ [(i, rs)]" by (simp add: e(1))
  have "wal_image cd (snd (truncate_before safe m)) (?keep parts) []"
    unfolding wal_image_def tb
  proof (intro conjI exI)
    show "?keep parts = ?keep qs @ [(i, rs)]" by (rule last)
    show "sorted_wrt (<) (map fst (?keep parts))"
      using sorted by (simp add: sorted_wrt_map sorted_wrt_filter)
    show "\<forall>r \<in> set (records (?keep parts)). rec_ok cd r \<and>
        fst r \<le> current_lsn (m\<lparr>wal_files := map (part_file cd) (?keep parts), last_checkpoint_lsn := safe\<rparr>)"
      using recs by fastforce
  qed (use e spared in \<open>simp_all add: part_file_def\<close>)
  then show thesis using that [of "?keep parts"] plan by (simp add: wal_ok_def tb after_survivors)
qed

section \<open>Opening and recovering\<close>

lemma foldr_max_last:
  assumes "sorted_wrt (<) (xs @ [i :: nat])"
  shows "foldr max (xs @ [i]) 0 = i"
proof -
  have "foldr max (xs @ [i]) 0 \<le> i" using assms by (induction xs) auto
  moreover have "i \<le> foldr max (xs @ [i]) 0" by (induction xs) auto
  ultimately show ?thesis by simp
qed

lemma file_update_same:
  assumes "map_of fs i = Some bs"
  shows "file_update i bs fs = fs"
  using assms by (induction fs) (auto split: if_splits)

lemma open_image:
  assumes im: "disk_image cd fs parts tail" and pos: "0 < fst (last parts)"
  obtains m w where "wal_open fs [] = (Inr (), m)" "wal_files m = fs" "wal_writer m = Some w"
    "ww_segment_id w = fst (last parts)" "current_lsn m = 0" "wal_plan m = []"
proof -
  from im obtain qs i rs where e: "parts = qs @ [(i, rs)]"
      "fs = map (part_file cd) qs @ [(i, frames cd rs @ tail)]" "sorted_wrt (<) (map fst parts)"
    unfolding disk_image_def by blast
  have "i \<notin> fst ` set qs" using e(1,3) by (auto simp: sorted_wrt_append)
  then have "map_of fs i = Some (frames cd rs @ tail)" by (simp add: e(2) map_add_def)
  then have "touch_segment i (wal_fresh fs []) = wal_fresh fs []"
    by (simp add: touch_segment_def segment_bytes_def wal_fresh_def file_update_same)
  moreover have "max (foldr max (map fst fs) 0) 1 = i"
    using foldr_max_last [of "map fst qs" i] e(1,3) pos by (simp add: e(2) comp_def)
  moreover have "wal_plan (wal_fresh fs []) = []" "wal_writer (wal_fresh fs []) = None"
    "wal_files (wal_fresh fs []) = fs" "current_lsn (wal_fresh fs []) = 0" by (simp_all add: wal_fresh_def)
  ultimately show thesis
    using that by (simp add: wal_open_def init_active_segment_def Let_def e(1))
qed

lemma wal_ok_initial: "wal_ok cd (snd (wal_open [] [])) [(1, [])]"
  by (simp add: wal_open_def init_active_segment_def wal_fresh_def touch_segment_def segment_bytes_def
      wal_ok_def wal_image_def part_file_def Let_def wal_tick_def wal_next_def)

text \<open>
  A restart over an image, with or without a torn tail: the replay hands back every record above
  the snapshot, and the sequence numbers go on above all of them.
\<close>

lemma recover_image:
  assumes cd: "wal_codec_ok cd" and im: "disk_image cd fs parts tail" and tail: "torn_tail cd tail"
    and pos: "0 < fst (last parts)"
  obtains sm m where "wal_replay cd snap collect [] (snd (wal_open fs [])) = (Inr sm, after snap (records parts), m)"
    "wal_image cd m parts tail" "wal_plan m = []" "ws_total_replayed sm = length (after snap (records parts))"
    "tail = [] \<longrightarrow> ws_torn_records_skipped sm = 0" "snap \<le> current_lsn m"
proof -
  obtain m0 w where o: "wal_open fs [] = (Inr (), m0)" "wal_files m0 = fs" "wal_writer m0 = Some w"
    "ww_segment_id w = fst (last parts)" "wal_plan m0 = []"
    using open_image [OF im pos] by metis
  obtain sm hi s where acc: "(sm, hi, s) = fold (replay_rec snap collect) (records parts)
       (\<lparr>ws_start_lsn = snap, ws_last_applied_lsn = snap, ws_total_replayed = 0,
         ws_torn_records_skipped = 0, ws_active_segment_count = length parts\<rparr>, snap, [])"
    by (metis prod_cases3)
  note f = fold_replay_collect [OF acc [symmetric]]
  obtain n where r: "wal_replay cd snap collect [] m0 =
      (Inr (sm\<lparr>ws_torn_records_skipped := ws_torn_records_skipped sm + n\<rparr>), s,
       m0\<lparr>current_lsn := hi, last_synced_lsn := hi, recovered_records := ws_total_replayed sm\<rparr>)"
      "tail = [] \<longrightarrow> n = 0"
    using replay_disk_image [OF cd o(5) im [folded o(2)] tail acc collect_accepts] by metis
  have "fst r \<le> hi" if "r \<in> set (records parts)" for r
  proof (cases "snap < fst r")
    case True
    then have "r \<in> set (after snap (records parts))" using that by simp
    then show ?thesis using f(5) by blast
  qed (use f(4) in simp)
  then have "wal_image cd (m0\<lparr>current_lsn := hi, last_synced_lsn := hi, recovered_records := ws_total_replayed sm\<rparr>) parts tail"
    using im o pos unfolding disk_image_def wal_image_def by auto
  then show thesis using that r o(1,5) f by auto
qed

lemma wal_image_pos: "wal_image cd m parts tail \<Longrightarrow> 0 < fst (last parts)"
  by (auto simp: wal_image_def)

section \<open>Sequence numbers\<close>

lemma tick_lsn [simp]: "current_lsn (snd (wal_tick m)) = current_lsn m"
  by (simp add: wal_tick_def wal_next_def split: list.splits wal_outcome.splits)

lemma rotate_writer_lsn: "current_lsn (snd (rotate_writer w m)) = current_lsn m"
proof -
  obtain b1 m1 where t1: "wal_tick m = (b1, m1)" by (cases "wal_tick m")
  obtain b2 m2 where t2: "wal_tick m1 = (b2, m2)" by (cases "wal_tick m1")
  have "current_lsn m2 = current_lsn m" using tick_lsn [of m] tick_lsn [of m1] by (simp add: t1 t2)
  then show ?thesis by (cases b2) (simp_all add: rotate_writer_def t1 t2 Let_def touch_segment_def)
qed

lemma sync_barrier:
  assumes "sync_target_lsn l m = (Inr (), m')" "l = current_lsn m"
  shows "current_lsn m' = current_lsn m \<and> l \<le> last_synced_lsn m'"
  using assms tick_lsn [of m]
  by (cases "wal_tick m") (auto simp: sync_target_lsn_def split: if_splits bool.splits)

text \<open>What an acknowledgement says.\<close>

lemma append_acknowledged:
  assumes "wal_append cd x policy m = Some (Inr l, m')" "policy \<noteq> Memory"
  shows "l = Suc (current_lsn m) \<and> current_lsn m' = l \<and> l \<le> last_synced_lsn m'"
proof -
  from assms obtain payload w0 w m1 where a: "wc_ser cd x = Some payload" "wal_writer m = Some w0"
      "rotate_writer w0 m = (Inr w, m1)" "current_lsn m1 < u64_max"
    by (auto simp: wal_append_def split: option.splits prod.splits sum.splits if_splits)
  define k where "k = Suc (current_lsn m1)"
  obtain b2 m2 where w2: "wal_write (ww_segment_id w) (wal_header_encode (frame_header cd k x payload)) m1 = (b2, m2)"
    by (cases "wal_write (ww_segment_id w) (wal_header_encode (frame_header cd k x payload)) m1")
  obtain b3 m3 where w3: "wal_write (ww_segment_id w) payload m2 = (b3, m3)"
    by (cases "wal_write (ww_segment_id w) payload m2")
  define m4 where "m4 = m3\<lparr>wal_writer := Some (w\<lparr>ww_bytes_written := ww_bytes_written w + (WAL_HEADER_SIZE + length payload)\<rparr>),
     current_lsn := k, wal_bytes_written := wal_bytes_written m3 + (WAL_HEADER_SIZE + length payload),
     appends_total := appends_total m3 + 1\<rparr>"
  obtain sr m5 where sy: "sync_target_lsn k m4 = (sr, m5)" by (cases "sync_target_lsn k m4")
  have "sr = Inr ()" "l = k" "m' = m5"
    using wal_append_unfold [OF assms(2) a k_def w2 w3 m4_def] assms(1) sy
    by (auto split: sum.splits if_splits)
  moreover have "current_lsn m1 = current_lsn m" using rotate_writer_lsn [of w0 m] a(3) by simp
  ultimately show ?thesis using sync_barrier [OF sy [unfolded \<open>sr = Inr ()\<close>]] by (simp add: m4_def k_def)
qed

text \<open>Without faults an append that can be serialised is acknowledged.\<close>

lemma quiet_write:
  assumes "wal_plan m = []"
  shows "\<exists>m'. wal_write i bs m = (True, m') \<and> wal_plan m' = []"
  using assms by (cases "bs = []") (simp_all add: wal_write_def wal_next_def)

lemma quiet_append:
  assumes "wal_plan m = []" "wal_writer m = Some w0" "current_lsn m < u64_max"
    "wc_ser cd x = Some payload" "policy \<noteq> Memory"
  obtains m' where "wal_append cd x policy m = Some (Inr (Suc (current_lsn m)), m')"
proof -
  have "\<exists>w m1. rotate_writer w0 m = (Inr w, m1) \<and> wal_plan m1 = []"
    using assms(1) by (cases "ww_bytes_written w0 < wal_max_segment_bytes m")
      (simp_all add: rotate_writer_def Let_def touch_segment_def)
  then obtain w m1 where r: "rotate_writer w0 m = (Inr w, m1)" "wal_plan m1 = []" by blast
  have lsn: "current_lsn m1 = current_lsn m" using rotate_writer_lsn [of w0 m] r by simp
  let ?l = "Suc (current_lsn m1)"
  obtain m2 where w2: "wal_write (ww_segment_id w) (wal_header_encode (frame_header cd ?l x payload)) m1 = (True, m2)"
      "wal_plan m2 = []" using quiet_write [OF r(2)] by blast
  obtain m3 where w3: "wal_write (ww_segment_id w) payload m2 = (True, m3)" "wal_plan m3 = []"
    using quiet_write [OF w2(2)] by blast
  have "fst (sync_target_lsn l m4) = Inr ()" if "wal_plan m4 = []" for l m4
    using that by (simp add: sync_target_lsn_def)
  then show thesis
    using that wal_append_unfold [OF assms(5,4,2) r(1) _ refl w2(1) w3(1) refl] assms(3) w3(2)
    by (auto simp: lsn split: prod.splits sum.splits dest!: arg_cong [where f = fst])
qed

section \<open>Runs\<close>

definition safe_for :: "nat \<Rightarrow> ('v, 'd) wal_op \<Rightarrow> bool" where
  "safe_for snap oper \<longleftrightarrow> (case oper of WalTruncate l \<Rightarrow> l \<le> snap | _ \<Rightarrow> True)"

lemma wal_step_ok:
  assumes cd: "wal_codec_ok cd" and ok: "wal_ok cd m parts" and safe: "safe_for snap oper"
    and step: "wal_step cd oper m = Some m'"
  obtains parts' where "wal_ok cd m' parts'"
    "after snap (records parts') = after snap (records parts @ logged cd [oper] m)"
proof (cases oper)
  case (WalAppend x policy)
  then obtain res where app: "wal_append cd x policy m = Some (res, m')"
    using step by (auto simp: wal_step_def)
  show thesis
  proof (cases "policy = Memory")
    case True
    then have "m' = m\<lparr>current_lsn := current_lsn m + 1\<rparr>"
      using app by (auto simp: wal_append_def split: if_splits)
    then have "wal_ok cd m' parts" using ok by (fastforce simp: wal_ok_def wal_image_def)
    moreover have "logged cd [oper] m = []" using True WalAppend app by (auto split: sum.splits option.splits)
    ultimately show thesis using that by simp
  next
    case False
    have im: "wal_image cd m parts []" "wal_plan m = []" using ok by (simp_all add: wal_ok_def)
    from im(1) False app show thesis
    proof (cases rule: append_image)
      case (torn parts' tail)
      then show thesis using that [of parts'] im WalAppend app step by (auto simp: wal_ok_def split: sum.splits)
    next
      case (kept parts')
      then show thesis using that [of parts'] im WalAppend app step False by (auto simp: wal_ok_def)
    qed
  qed
next
  case (WalSyncTo l)
  have im: "wal_image cd m parts []" "wal_plan m = []" using ok by (simp_all add: wal_ok_def)
  obtain r m1 where "sync_target_lsn l m = (r, m1)" by (cases "sync_target_lsn l m")
  then have "wal_ok cd m' parts"
    using sync_image [OF im(1)] im(2) step WalSyncTo by (auto simp: wal_ok_def wal_step_def)
  then show thesis using that WalSyncTo step by simp
next
  case (WalTruncate l)
  then show thesis
    using truncate_ok [OF cd ok, of l] that step safe by (auto simp: wal_step_def safe_for_def)
next
  case (WalRecover n)
  have im: "wal_image cd m parts []" "wal_plan m = []" using ok by (simp_all add: wal_ok_def)
  obtain sm m1 where "wal_replay cd n collect [] (snd (wal_open (wal_files m) [])) = (Inr sm, after n (records parts), m1)"
    "wal_image cd m1 parts []" "wal_plan m1 = []"
    using recover_image [OF cd image_on_disk [OF im(1)] torn_tail_Nil wal_image_pos [OF im(1)], of n] by metis
  then show thesis using that [of parts] WalRecover step im(2) by (simp add: wal_step_def wal_ok_def)
qed

lemma wal_run_ok:
  assumes cd: "wal_codec_ok cd" and "wal_ok cd m parts" "list_all (safe_for snap) ops"
    and "wal_run cd ops m = Some m'"
  obtains parts' where "wal_ok cd m' parts'"
    "after snap (records parts') = after snap (records parts @ logged cd ops m)"
  using assms(2-)
proof (induction ops arbitrary: m parts thesis)
  case (Cons oper ops)
  from Cons.prems obtain m1 where s: "wal_step cd oper m = Some m1" "wal_run cd ops m1 = Some m'"
    by (auto simp: bind_eq_Some_conv)
  obtain parts1 where p1: "wal_ok cd m1 parts1"
      "after snap (records parts1) = after snap (records parts @ logged cd [oper] m)"
    using wal_step_ok [OF cd Cons.prems(2) _ s(1), of snap] Cons.prems(3) by auto
  obtain parts' where p': "wal_ok cd m' parts'"
      "after snap (records parts') = after snap (records parts1 @ logged cd ops m1)"
    using Cons.IH [OF _ p1(1) _ s(2)] Cons.prems(3) by auto
  have "after snap (records parts') = after snap (records parts @ logged cd (oper # ops) m)"
    using p'(2) p1(2) s(1) by simp
  then show ?case using Cons.prems(1) p'(1) by blast
qed simp

section \<open>Properties\<close>

text \<open>
  A codec for the two record kinds the consensus driver and the checkpointer write: fixed-width
  numbers behind a tag.
\<close>

definition demo_wal_codec :: "(unit, unit) wal_mutation wal_codec" where
  "demo_wal_codec =
     \<lparr>wc_crc = (\<lambda>bs. word_of_nat (sum_list (map unat bs))),
      wc_ser = (\<lambda>x. case x of
          WalCheckpoint l g \<Rightarrow> if l < 2 ^ 64 \<and> g < 2 ^ 64 then Some (4 # to_le 8 l @ to_le 8 g) else None
        | WalClusterState e bs \<Rightarrow>
            if e < 2 ^ 64 \<and> length bs < 2 ^ 16 then Some (5 # to_le 8 e @ bs) else None
        | _ \<Rightarrow> None),
      wc_de = (\<lambda>bs. case bs of
          [] \<Rightarrow> None
        | t # rest \<Rightarrow>
            if t = 4 then Some (WalCheckpoint (from_le (take 8 rest)) (from_le (drop 8 rest)))
            else if t = 5 then Some (WalClusterState (from_le (take 8 rest)) (drop 8 rest)) else None)\<rparr>"

lemma demo_wal_codec_ok: "wal_codec_ok demo_wal_codec"
  by (auto simp: wal_codec_ok_def demo_wal_codec_def from_le_to_le split: wal_mutation.splits if_splits)

lemmas wal_eval = demo_wal_codec_def wal_open_def init_active_segment_def wal_fresh_def touch_segment_def
  segment_bytes_def wal_tick_def wal_next_def wal_append_def rotate_writer_def wal_write_def Let_def
  sync_target_lsn_def wal_step_def DEFAULT_MAX_SEGMENT_BYTES_def u64_max_def WAL_HEADER_SIZE_def

text \<open>
  C8. Over any run of appends under every policy, syncs, truncations and restarts, with rotations
  where segments fill up and no file system fault, a restart with replay from a snapshot number that
  covers the truncations succeeds and hands back exactly the acknowledged records above that number,
  each under its acknowledged number and in order, with no torn record counted.
\<close>

theorem replay_returns_logged:
  assumes "wal_codec_ok cd" "list_all (safe_for snap) ops"
    and "wal_run cd ops (snd (wal_open [] [])) = Some m"
  shows "\<exists>sm m'. wal_replay cd snap collect [] (snd (wal_open (wal_files m) [])) =
      (Inr sm, filter (\<lambda>r. snap < fst r) (logged cd ops (snd (wal_open [] []))), m') \<and>
    ws_total_replayed sm = length (filter (\<lambda>r. snap < fst r) (logged cd ops (snd (wal_open [] [])))) \<and>
    ws_torn_records_skipped sm = 0"
proof -
  obtain parts where p: "wal_ok cd m parts"
      "after snap (records parts) = after snap (logged cd ops (snd (wal_open [] [])))"
    using wal_run_ok [OF assms(1) wal_ok_initial assms(2,3)] by auto
  then have im: "wal_image cd m parts []" by (simp add: wal_ok_def)
  from recover_image [OF assms(1) image_on_disk [OF im] torn_tail_Nil wal_image_pos [OF im], of snap] p(2)
  show ?thesis by metis
qed

definition demo_wal_ops :: "(unit, unit) wal_op list" where
  "demo_wal_ops = [WalAppend (WalCheckpoint 7 1) WalSync, WalSyncTo 1, WalAppend (WalDelete ''a'') WalSync,
     WalAppend (WalCheckpoint 8 1) Memory, WalAppend (WalClusterState 2 [9]) QuorumPolicy]"

lemma demo_wal_run:
  "\<exists>m. wal_run demo_wal_codec demo_wal_ops (snd (wal_open [] [])) = Some m \<and> current_lsn m = 3 \<and>
     wal_writer m \<noteq> None \<and> (\<forall>w. wal_writer m = Some w \<longrightarrow> ww_bytes_written w < wal_max_segment_bytes m)"
  "logged demo_wal_codec demo_wal_ops (snd (wal_open [] [])) =
     [(1, WalCheckpoint 7 1), (3, WalClusterState 2 [9])]"
  "list_all (safe_for snap) demo_wal_ops"
  by (simp_all add: wal_eval demo_wal_ops_def safe_for_def)

theorem replay_returns_logged_witness:
  "\<exists>m sm m'. wal_run demo_wal_codec demo_wal_ops (snd (wal_open [] [])) = Some m \<and>
     wal_replay demo_wal_codec 1 collect [] (snd (wal_open (wal_files m) [])) =
       (Inr sm, [(3, WalClusterState 2 [9])], m')"
proof -
  obtain m where m: "wal_run demo_wal_codec demo_wal_ops (snd (wal_open [] [])) = Some m"
    using demo_wal_run(1) by blast
  from m replay_returns_logged [OF demo_wal_codec_ok demo_wal_run(3) [of 1] m] show ?thesis
    by (auto simp: demo_wal_run(2))
qed

text \<open>
  C9. A log cut off by a fault: after any fault-free run, let one more append meet arbitrary file
  system outcomes, among them a failing rotation and a header or payload write that stops after any
  number of bytes. A restart then succeeds and hands back every record acknowledged before, plus at
  most the interrupted record itself; an append that was acknowledged is always among them.
\<close>

theorem interrupted_append_recovers:
  assumes "wal_codec_ok cd" "list_all (safe_for snap) ops"
    and "wal_run cd ops (snd (wal_open [] [])) = Some m" "policy \<noteq> Memory"
    and "wal_append cd x policy (m\<lparr>wal_plan := outcomes\<rparr>) = Some (res, m')"
  shows "\<exists>sm m'' new. wal_replay cd snap collect [] (snd (wal_open (wal_files m') [])) =
      (Inr sm, filter (\<lambda>r. snap < fst r) (logged cd ops (snd (wal_open [] [])) @ new), m'') \<and>
    (new = [] \<or> new = [(Suc (current_lsn m), x)]) \<and> ((\<exists>l. res = Inr l) \<longrightarrow> new \<noteq> [])"
proof -
  obtain parts where p: "wal_image cd (m\<lparr>wal_plan := outcomes\<rparr>) parts []"
      "after snap (records parts) = after snap (logged cd ops (snd (wal_open [] [])))"
    using wal_run_ok [OF assms(1) wal_ok_initial assms(2,3)] by (auto simp: wal_ok_def)
  from p(1) assms(4,5) obtain parts' tail new where im: "wal_image cd m' parts' tail" "torn_tail cd tail"
      "records parts' = records parts @ new" "new = [] \<or> new = [(Suc (current_lsn m), x)]"
      "(\<exists>l. res = Inr l) \<longrightarrow> new \<noteq> []"
  proof (cases rule: append_image)
    case (torn parts' tail)
    then show thesis using that [of parts' tail "[]"] by simp
  next
    case (kept parts')
    then show thesis using that [of parts' "[]" "[(Suc (current_lsn m), x)]"] by (simp add: torn_tail_def)
  qed
  have "after snap (records parts') = after snap (logged cd ops (snd (wal_open [] [])) @ new)"
    using p(2) im(3) by simp
  with recover_image [OF assms(1) image_on_disk [OF im(1)] im(2) wal_image_pos [OF im(1)], of snap] im(4,5)
  show ?thesis by metis
qed

theorem interrupted_append_recovers_witness:
  "\<exists>m m' sm m'' new.
     wal_append demo_wal_codec (WalCheckpoint 9 1) WalSync (m\<lparr>wal_plan := [WalFails 20]\<rparr>) =
       Some (Inl (IoError ''write''), m') \<and>
     wal_replay demo_wal_codec 0 collect [] (snd (wal_open (wal_files m') [])) =
       (Inr sm, [(1, WalCheckpoint 7 1), (3, WalClusterState 2 [9])] @ new, m'') \<and>
     (new = [] \<or> new = [(4, WalCheckpoint 9 1)])"
proof -
  obtain m where m: "wal_run demo_wal_codec demo_wal_ops (snd (wal_open [] [])) = Some m" "current_lsn m = 3"
      "wal_writer m \<noteq> None" "\<forall>w. wal_writer m = Some w \<longrightarrow> ww_bytes_written w < wal_max_segment_bytes m"
    using demo_wal_run(1) by blast
  obtain m' where m': "wal_append demo_wal_codec (WalCheckpoint 9 1) WalSync (m\<lparr>wal_plan := [WalFails 20]\<rparr>) =
       Some (Inl (IoError ''write''), m')"
    using m by (auto simp: demo_wal_codec_def wal_append_def rotate_writer_def wal_write_def wal_next_def
        u64_max_def wal_header_encode_def)
  have "WalSync \<noteq> Memory" by simp
  from interrupted_append_recovers [OF demo_wal_codec_ok demo_wal_run(3) [of 0] m(1) this m'] m' show ?thesis
    by (fastforce simp: demo_wal_run(2) m(2))
qed



text \<open>
  C30. The numbers of the log start again at one when it is reopened without a replay, whatever its
  segments hold: opening stores the constant zero as the highest number and scans no record. The
  first append after the restart is acknowledged under number 1, which earlier records already bear.
\<close>

theorem reopened_wal_reuses_numbers:
  assumes "wc_ser cd x = Some payload" "policy \<noteq> Memory"
  shows "\<exists>m m'. wal_open fs [] = (Inr (), m) \<and> wal_append cd x policy m = Some (Inr 1, m')"
proof -
  have "\<exists>m w. wal_open fs [] = (Inr (), m) \<and> wal_plan m = [] \<and> wal_writer m = Some w \<and> current_lsn m = 0"
    by (simp add: wal_open_def init_active_segment_def wal_fresh_def touch_segment_def Let_def)
  then show ?thesis using quiet_append [OF _ _ _ assms] by (force simp: u64_max_def)
qed

theorem reopened_wal_reuses_numbers_witness:
  "\<exists>m m'. wal_open [(1, [0])] [] = (Inr (), m) \<and>
     wal_append demo_wal_codec (WalCheckpoint 7 1) WalSync m = Some (Inr 1, m')"
  by (rule reopened_wal_reuses_numbers [where payload = "4 # to_le 8 7 @ to_le 8 1"]) (simp_all add: demo_wal_codec_def)

end
