(* ===== verification/Wal_Limits.thy ===== *)
theory Wal_Limits
  imports Wal_Recovery
begin

text \<open>
  A fault the write-ahead log does not survive: the bytes of an interrupted append are not cut off,
  so the next acknowledged record lies behind them and the segment can no longer be replayed.
\<close>

text \<open>
  A frame behind a torn one is read from the wrong offset: when fewer than eight bytes of the torn
  header are left, they shift a byte of the next header's magic into a checked field.
\<close>

lemma to_le_2: "to_le 2 x = [word_of_nat x, word_of_nat (x div 256)]"
  by (simp add: numeral_2_eq_2)

lemma record_code_bytes: "\<exists>c \<in> {1, 2, 3, 4, 5}. u16_to_le (record_code t) = [c, 0]"
  by (cases t) (simp_all add: u16_to_le_def to_le_2)

lemma decode_rejects:
  "slice 0 4 buf \<noteq> WAL_MAGIC \<or> u16_from_le (slice 4 6 buf) \<noteq> WAL_VERSION \<or>
     record_type_from (u16_from_le (slice 6 8 buf)) = None \<Longrightarrow> \<exists>e. wal_header_decode buf = Inl e"
  by (simp add: wal_header_decode_def)

lemma u16_from_le_pair: "u16_from_le [a, b] = word_of_nat (unat a + 256 * unat b)"
  by (simp add: u16_from_le_def)

lemma shifted_type: "record_type_from (u16_from_le [0x48, 0x57]) = None"
  by (simp add: u16_from_le_pair record_type_from_def)

lemma shifted_type_code: "c \<in> {1, 2, 3, 4, 5} \<Longrightarrow> record_type_from (u16_from_le [c, 0x48]) = None"
  by (elim insertE emptyE) (simp_all add: u16_from_le_pair record_type_from_def)

lemma shifted_fields:
  fixes c :: byte
  defines "buf \<equiv> \<lambda>k ys. take 36 (take k [0x48, 0x57, 0x41, 0x4C, 1, 0, c, 0] @ WAL_MAGIC @ ys)"
  shows "k \<in> {1, 2, 3} \<Longrightarrow> slice 0 4 (buf k ys) \<noteq> WAL_MAGIC"
    "k \<in> {4, 5} \<Longrightarrow> u16_from_le (slice 4 6 (buf k ys)) \<noteq> WAL_VERSION"
    "c \<in> {1, 2, 3, 4, 5} \<Longrightarrow> k \<in> {6, 7} \<Longrightarrow> record_type_from (u16_from_le (slice 6 8 (buf k ys))) = None"
proof -
  show "k \<in> {1, 2, 3} \<Longrightarrow> slice 0 4 (buf k ys) \<noteq> WAL_MAGIC"
    unfolding buf_def by (elim insertE emptyE) (simp_all add: slice_def WAL_MAGIC_def)
  show "k \<in> {4, 5} \<Longrightarrow> u16_from_le (slice 4 6 (buf k ys)) \<noteq> WAL_VERSION"
    unfolding buf_def
    by (elim insertE emptyE) (simp_all add: slice_def WAL_MAGIC_def u16_from_le_pair WAL_VERSION_def)
  have "slice 6 8 (buf 6 ys) = [0x48, 0x57]" "slice 6 8 (buf 7 ys) = [c, 0x48]"
    by (simp_all add: buf_def slice_def WAL_MAGIC_def)
  then show "record_type_from (u16_from_le (slice 6 8 (buf k ys))) = None" if "c \<in> {1, 2, 3, 4, 5}" "k \<in> {6, 7}"
    using that(2) shifted_type shifted_type_code [OF that(1)] by (elim insertE emptyE) (simp_all only:)
qed

lemma shifted_header_rejected:
  assumes "header_ok h" "wh_record_type h = record_code t" "0 < k" "k < 8"
  shows "\<exists>e. wal_header_decode (take WAL_HEADER_SIZE (take k (wal_header_encode h) @ WAL_MAGIC @ ys)) = Inl e"
proof -
  obtain c where c: "u16_to_le (record_code t) = [c, 0]" "c \<in> {1, 2, 3, 4, 5}" using record_code_bytes by blast
  have "u16_to_le WAL_VERSION = [1, 0]" by (simp add: WAL_VERSION_def u16_to_le_def to_le_2)
  then have "\<exists>zs. wal_header_encode h = [0x48, 0x57, 0x41, 0x4C, 1, 0, c, 0] @ zs"
    using assms(1,2) c(1) by (simp add: wal_header_encode_def header_ok_def WAL_MAGIC_def)
  then obtain zs where zs: "wal_header_encode h = [0x48, 0x57, 0x41, 0x4C, 1, 0, c, 0] @ zs" ..
  have enc: "take k (wal_header_encode h) = take k [0x48, 0x57, 0x41, 0x4C, 1, 0, c, 0]"
    unfolding zs take_append using assms(4) by simp
  have "k = 1 \<or> k = 2 \<or> k = 3 \<or> k = 4 \<or> k = 5 \<or> k = 6 \<or> k = 7"
    using assms(3,4) by (simp add: eval_nat_numeral less_Suc_eq)
  then have "k \<in> {1, 2, 3} \<or> k \<in> {4, 5} \<or> k \<in> {6, 7}" by blast
  then show ?thesis
    using shifted_fields [where k = k and c = c and ys = ys] c(2) unfolding enc WAL_HEADER_SIZE_def by (intro decode_rejects) metis
qed

text \<open>
  C31. An append fails after writing between one and seven bytes of its header; the log stays in
  use and the next append is acknowledged, under number 1. After a restart no replay succeeds,
  from whatever snapshot: the acknowledged record lies behind the torn bytes and the segment is
  reported as corrupted. Nothing truncates the torn tail, neither the failing append nor the replay.
\<close>

theorem record_behind_torn_tail_unreadable:
  assumes "wc_ser cd x = Some p" "wc_ser cd y = Some q" "policy \<noteq> Memory" "policy' \<noteq> Memory"
    and k: "0 < k" "k < 8"
  shows "\<exists>m1 m2 m3.
    wal_append cd x policy ((snd (wal_open [] []))\<lparr>wal_plan := [WalFails k]\<rparr>) = Some (Inl (IoError ''write''), m1) \<and>
    wal_append cd y policy' m1 = Some (Inr 1, m2) \<and>
    wal_replay cd snap app s (snd (wal_open (wal_files m2) [])) =
      (Inl (CorruptedSnapshot ''Corrupted WAL header frame''), s, m3)"
proof -
  let ?hx = "wal_header_encode (frame_header cd 1 x p)" and ?hy = "wal_header_encode (frame_header cd 1 y q)"
  define bs where "bs = take k ?hx @ ?hy @ q"
  have len: "length ?hx = 36" "length ?hy = 36" by (simp_all add: WAL_HEADER_SIZE_def)
  have hx: "?hx \<noteq> []" "min k (length ?hx - Suc 0) = k"
    using k unfolding length_0_conv [symmetric] len by simp_all
  have start: "(snd (wal_open [] []))\<lparr>wal_plan := [WalFails k]\<rparr> =
      (wal_fresh [(1, [])] [WalFails k])\<lparr>wal_writer := Some \<lparr>ww_segment_id = 1, ww_bytes_written = 0\<rparr>\<rparr>"
    by (simp add: wal_open_def init_active_segment_def wal_fresh_def touch_segment_def segment_bytes_def
        wal_tick_def wal_next_def Let_def)
  define m1 where "m1 = (wal_fresh [(1, take k ?hx)] [])\<lparr>wal_writer := Some \<lparr>ww_segment_id = 1, ww_bytes_written = 0\<rparr>\<rparr>"
  have a1: "wal_append cd x policy ((snd (wal_open [] []))\<lparr>wal_plan := [WalFails k]\<rparr>) = Some (Inl (IoError ''write''), m1)"
    unfolding start using assms(1,3) hx
    by (simp add: wal_append_def wal_fresh_def rotate_writer_def DEFAULT_MAX_SEGMENT_BYTES_def u64_max_def
        wal_write_def wal_next_def segment_bytes_def Let_def m1_def)
  have "\<exists>m2. wal_append cd y policy' m1 = Some (Inr 1, m2) \<and> wal_files m2 = [(1, bs)]"
    using assms(2,4) len
    by (cases "q = []") (simp_all add: wal_append_def wal_fresh_def rotate_writer_def DEFAULT_MAX_SEGMENT_BYTES_def
        u64_max_def wal_write_def wal_next_def segment_bytes_def sync_target_lsn_def wal_tick_def Let_def m1_def bs_def)
  then obtain m2 where a2: "wal_append cd y policy' m1 = Some (Inr 1, m2)" "wal_files m2 = [(1, bs)]" by blast
  have "?hy = WAL_MAGIC @ drop 4 ?hy" by (simp add: wal_header_encode_def)
  then have bs: "bs = take k ?hx @ WAL_MAGIC @ drop 4 ?hy @ q" unfolding bs_def by (metis append.assoc)
  have "wh_record_type (frame_header cd 1 x p) = record_code (record_type x)" by (simp add: frame_header_def)
  from shifted_header_rejected [OF frame_header_ok this k] obtain e
    where e: "wal_header_decode (take WAL_HEADER_SIZE bs) = Inl e" unfolding bs by blast
  have "length bs = k + 36 + length q" using len k by (simp add: bs_def)
  then have seg: "replay_segment cd snap app bs acc = (Inl (CorruptedSnapshot ''Corrupted WAL header frame''), acc)" for acc
    using e k by (subst replay_segment.simps) (simp add: WAL_HEADER_SIZE_def)
  have "\<exists>m3. wal_replay cd snap app s (snd (wal_open (wal_files m2) [])) =
      (Inl (CorruptedSnapshot ''Corrupted WAL header frame''), s, m3)"
    unfolding a2(2)
    by (simp add: wal_open_def init_active_segment_def wal_fresh_def touch_segment_def segment_bytes_def
        wal_tick_def wal_next_def Let_def wal_replay_def list_segments_def seg)
  then show ?thesis using a1 a2(1) by blast
qed

theorem record_behind_torn_tail_unreadable_witness:
  "\<exists>m1 m2 m3.
    wal_append demo_wal_codec (WalCheckpoint 7 1) WalSync ((snd (wal_open [] []))\<lparr>wal_plan := [WalFails 5]\<rparr>) =
      Some (Inl (IoError ''write''), m1) \<and>
    wal_append demo_wal_codec (WalCheckpoint 8 1) WalSync m1 = Some (Inr 1, m2) \<and>
    wal_replay demo_wal_codec 0 collect [] (snd (wal_open (wal_files m2) [])) =
      (Inl (CorruptedSnapshot ''Corrupted WAL header frame''), [], m3)"
  by (rule record_behind_torn_tail_unreadable
      [where p = "4 # to_le 8 7 @ to_le 8 1" and q = "4 # to_le 8 8 @ to_le 8 1"])
    (simp_all add: demo_wal_codec_def)

end
