(* ===== verification/Bitmap.thy ===== *)
theory Bitmap
  imports Holo_Prelude "HOL-Library.Word"
begin

text \<open>
  The compressed bitmap of 32-bit numbers that tiles and segments use is third-party code: its
  operations are a record, an argument of the definitions that call them, and \<open>bitmap_ok\<close> is the
  documented behaviour the proofs rely on. A bitmap kept as a list shows that it can be met.
\<close>

record 'b bitmap_ops =
  bm_new :: 'b
  bm_insert :: "32 word \<Rightarrow> 'b \<Rightarrow> 'b"
  bm_contains :: "'b \<Rightarrow> 32 word \<Rightarrow> bool"
  bm_iter :: "'b \<Rightarrow> 32 word list"

text \<open>The behaviour relied on: it is a set of numbers that lists its members once.\<close>

definition bitmap_ok :: "'b bitmap_ops \<Rightarrow> bool" where
  "bitmap_ok bm \<longleftrightarrow>
     (\<forall>x. \<not> bm_contains bm (bm_new bm) x) \<and>
     (\<forall>b x y. bm_contains bm (bm_insert bm x b) y \<longleftrightarrow> y = x \<or> bm_contains bm b y) \<and>
     (\<forall>b. distinct (bm_iter bm b) \<and> (\<forall>x. x \<in> set (bm_iter bm b) \<longleftrightarrow> bm_contains bm b x))"

lemma bitmap_okD:
  assumes "bitmap_ok bm"
  shows "\<not> bm_contains bm (bm_new bm) x"
    "bm_contains bm (bm_insert bm x b) y \<longleftrightarrow> y = x \<or> bm_contains bm b y"
    "distinct (bm_iter bm b)" "x \<in> set (bm_iter bm b) \<longleftrightarrow> bm_contains bm b x"
  using assms by (simp_all add: bitmap_ok_def)

text \<open>A bitmap kept as a list of its members.\<close>

definition list_bitmap :: "32 word list bitmap_ops" where
  "list_bitmap = \<lparr>bm_new = [], bm_insert = (\<lambda>x b. if x \<in> set b then b else x # b),
     bm_contains = (\<lambda>b x. x \<in> set b), bm_iter = (\<lambda>b. remdups b)\<rparr>"

lemma list_bitmap_ok: "bitmap_ok list_bitmap"
  by (auto simp: bitmap_ok_def list_bitmap_def)

end
