(* ===== verification/Hypercube.thy ===== *)
theory Hypercube
  imports Bitmap "HOL-Library.AList"
begin

text \<open>
  The tensor space of \<^verbatim>\<open>src/src/vector/hypercube.rs\<close>: bounding boxes, the Morton encoder, dense
  tiles and the space of tiles with its snapshot.

  Coordinates are natural numbers, Morton codes 64-bit words, local offsets 32-bit words. The cell
  type is a parameter with its default value \<open>zero\<close>. The compressed bitmap that records the
  occupied offsets is third-party code: a record of its operations is an argument. A shift by 64
  or more and an overflowing product panic, the value \<open>None\<close>. The hash map of tiles is an
  association list; its order is the iteration order.
\<close>

unbundle bit_operations_syntax

type_synonym coordinate_nd = "nat list"

section \<open>Bounding boxes\<close>

record hypercube_bounding_box =
  min_coords :: coordinate_nd
  max_coords :: coordinate_nd

definition bbox_new :: "coordinate_nd \<Rightarrow> coordinate_nd \<Rightarrow> hypercube_bounding_box option" where
  "bbox_new lo hi =
     (if length lo \<noteq> length hi \<or> lo = [] then None
      else if list_all (\<lambda>(a, b). a \<le> b) (zip lo hi)
      then Some \<lparr>min_coords = lo, max_coords = hi\<rparr> else None)"

definition bbox_contains :: "hypercube_bounding_box \<Rightarrow> coordinate_nd \<Rightarrow> bool" where
  "bbox_contains b cs \<longleftrightarrow>
     length cs = length (min_coords b) \<and>
     list_all (\<lambda>i. min_coords b ! i \<le> cs ! i \<and> cs ! i \<le> max_coords b ! i) [0..<length cs]"

definition bbox_dimensions :: "hypercube_bounding_box \<Rightarrow> nat" where
  "bbox_dimensions b = length (min_coords b)"

section \<open>Morton codes\<close>

record morton_encoder_nd =
  enc_dimensions :: nat
  bits_per_dim :: nat

definition morton_new :: "nat \<Rightarrow> morton_encoder_nd" where
  "morton_new n =
     \<lparr>enc_dimensions = n, bits_per_dim = (if 0 < n then max (min (64 div n) 21) 1 else 1)\<rparr>"

fun encode_dims :: "nat \<Rightarrow> nat \<Rightarrow> nat \<Rightarrow> coordinate_nd \<Rightarrow> 64 word \<Rightarrow> 64 word option" where
  "encode_dims n k i [] w = Some w"
| "encode_dims n k i (c # cs) w =
     (if n \<le> i then Some w
      else if 64 \<le> k * n + i then None
      else encode_dims n k (Suc i) cs (w OR push_bit (k * n + i) (word_of_nat (drop_bit k c AND 1))))"

fun encode_bits :: "nat \<Rightarrow> nat list \<Rightarrow> coordinate_nd \<Rightarrow> 64 word \<Rightarrow> 64 word option" where
  "encode_bits n [] cs w = Some w"
| "encode_bits n (k # ks) cs w = Option.bind (encode_dims n k 0 cs w) (encode_bits n ks cs)"

definition morton_encode :: "morton_encoder_nd \<Rightarrow> coordinate_nd \<Rightarrow> 64 word option" where
  "morton_encode e cs = encode_bits (enc_dimensions e) [0..<bits_per_dim e] cs 0"

fun clear_dims :: "nat \<Rightarrow> coordinate_nd \<Rightarrow> coordinate_nd" where
  "clear_dims n [] = []"
| "clear_dims 0 (v # vs) = v # vs"
| "clear_dims (Suc n) (v # vs) = 0 # clear_dims n vs"

fun decode_dims :: "nat \<Rightarrow> nat \<Rightarrow> nat \<Rightarrow> 64 word \<Rightarrow> coordinate_nd \<Rightarrow> coordinate_nd option" where
  "decode_dims n k i w [] = Some []"
| "decode_dims n k i w (v # vs) =
     (if n \<le> i then Some (v # vs)
      else if 64 \<le> k * n + i then None
      else map_option (Cons (v OR push_bit k (unat (drop_bit (k * n + i) w AND 1))))
             (decode_dims n k (Suc i) w vs))"

fun decode_bits :: "nat \<Rightarrow> nat list \<Rightarrow> 64 word \<Rightarrow> coordinate_nd \<Rightarrow> coordinate_nd option" where
  "decode_bits n [] w out = Some out"
| "decode_bits n (k # ks) w out = Option.bind (decode_dims n k 0 w out) (decode_bits n ks w)"

definition morton_decode :: "morton_encoder_nd \<Rightarrow> 64 word \<Rightarrow> coordinate_nd \<Rightarrow> coordinate_nd option" where
  "morton_decode e w out =
     decode_bits (enc_dimensions e) [0..<bits_per_dim e] w (clear_dims (enc_dimensions e) out)"

section \<open>Tiles\<close>

definition TILE_EDGE :: nat where "TILE_EDGE = 16"

definition TILE_SHIFT :: nat where "TILE_SHIFT = 4"

definition TILE_MASK :: nat where "TILE_MASK = 15"

record ('f, 'b) hyper_tile =
  tile_origin :: coordinate_nd
  dense_buffer :: "'f list"
  occupancy :: 'b

definition tile_new :: "'b bitmap_ops \<Rightarrow> 'f \<Rightarrow> coordinate_nd \<Rightarrow> nat \<Rightarrow> ('f, 'b) hyper_tile" where
  "tile_new bm zero orig cap =
     \<lparr>tile_origin = orig, dense_buffer = replicate cap zero, occupancy = bm_new bm\<rparr>"

definition resize_to :: "nat \<Rightarrow> 'f \<Rightarrow> 'f list \<Rightarrow> 'f list" where
  "resize_to n x xs = (if length xs < n then xs @ replicate (n - length xs) x else xs)"

definition tile_set :: "'b bitmap_ops \<Rightarrow> 'f \<Rightarrow> 32 word \<Rightarrow> 'f \<Rightarrow> ('f, 'b) hyper_tile \<Rightarrow> ('f, 'b) hyper_tile" where
  "tile_set bm zero l v t =
     t\<lparr>dense_buffer := (resize_to (unat l + 1) zero (dense_buffer t))[unat l := v],
       occupancy := bm_insert bm l (occupancy t)\<rparr>"

definition tile_get :: "'b bitmap_ops \<Rightarrow> 32 word \<Rightarrow> ('f, 'b) hyper_tile \<Rightarrow> 'f option" where
  "tile_get bm l t =
     (if bm_contains bm (occupancy t) l
      then if unat l < length (dense_buffer t) then Some (dense_buffer t ! unat l) else None
      else None)"

section \<open>The tensor space\<close>

record ('f, 'b) hypercube_tensor_space =
  hc_shape :: coordinate_nd
  hc_strides :: "nat list"
  hc_encoder :: morton_encoder_nd
  tile_capacity :: nat
  hc_tiles :: "(64 word \<times> ('f, 'b) hyper_tile) list"

definition checked_mul :: "nat \<Rightarrow> nat \<Rightarrow> nat option" where
  "checked_mul a b = (if a * b \<le> u64_max then Some (a * b) else None)"

fun row_strides :: "coordinate_nd \<Rightarrow> nat list option" where
  "row_strides [] = Some []"
| "row_strides [d] = Some [1]"
| "row_strides (d # d' # ds) =
     Option.bind (row_strides (d' # ds)) (\<lambda>ss. map_option (\<lambda>p. p # ss) (checked_mul (hd ss) d'))"

definition space_new :: "coordinate_nd \<Rightarrow> ('f, 'b) hypercube_tensor_space option" where
  "space_new shape =
     map_option (\<lambda>ss. \<lparr>hc_shape = shape, hc_strides = ss, hc_encoder = morton_new (length shape),
                       tile_capacity = TILE_EDGE ^ min (length shape) 5, hc_tiles = []\<rparr>)
       (row_strides shape)"

definition split_tile_coord ::
  "('f, 'b) hypercube_tensor_space \<Rightarrow> coordinate_nd \<Rightarrow> (coordinate_nd \<times> 32 word) option" where
  "split_tile_coord sp cs =
     map_option (\<lambda>w. (map (\<lambda>c. push_bit TILE_SHIFT (drop_bit TILE_SHIFT c)) cs, ucast w))
       (morton_encode (hc_encoder sp) (map (\<lambda>c. c AND TILE_MASK) cs))"

definition coords_in_shape :: "coordinate_nd \<Rightarrow> coordinate_nd \<Rightarrow> bool" where
  "coords_in_shape shape cs \<longleftrightarrow> list_all2 (<) cs shape"

definition set_voxel ::
  "'b bitmap_ops \<Rightarrow> 'f \<Rightarrow> coordinate_nd \<Rightarrow> 'f \<Rightarrow> ('f, 'b) hypercube_tensor_space \<Rightarrow>
     (unit res \<times> ('f, 'b) hypercube_tensor_space) option" where
  "set_voxel bm zero cs v sp =
     (if length cs \<noteq> length (hc_shape sp)
      then Some (Inl (InvalidRequest ''Dimension mismatch''), sp)
      else if \<not> coords_in_shape (hc_shape sp) cs
      then Some (Inl (InvalidRequest ''Coordinate index out of bounds''), sp)
      else Option.bind (split_tile_coord sp cs) (\<lambda>(orig, l).
        map_option (\<lambda>key.
            let t = (case map_of (hc_tiles sp) key of
                       None \<Rightarrow> tile_new bm zero orig (tile_capacity sp) | Some t \<Rightarrow> t) in
            (Inr (), sp\<lparr>hc_tiles := AList.update key (tile_set bm zero l v t) (hc_tiles sp)\<rparr>))
          (morton_encode (hc_encoder sp) orig)))"

definition get_voxel ::
  "'b bitmap_ops \<Rightarrow> ('f, 'b) hypercube_tensor_space \<Rightarrow> coordinate_nd \<Rightarrow> 'f option option" where
  "get_voxel bm sp cs =
     (if length cs \<noteq> length (hc_shape sp) then Some None
      else if \<not> coords_in_shape (hc_shape sp) cs then Some None
      else Option.bind (split_tile_coord sp cs) (\<lambda>(orig, l).
        map_option (\<lambda>key. Option.bind (map_of (hc_tiles sp) key) (tile_get bm l))
          (morton_encode (hc_encoder sp) orig)))"

definition tile_overlaps :: "nat \<Rightarrow> hypercube_bounding_box \<Rightarrow> ('f, 'b) hyper_tile \<Rightarrow> bool" where
  "tile_overlaps n b t \<longleftrightarrow>
     list_all (\<lambda>d. \<not> (tile_origin t ! d + TILE_EDGE - 1 < min_coords b ! d \<or>
                       max_coords b ! d < tile_origin t ! d)) [0..<n]"

text \<open>The occupied offsets of one tile; the buffer for the local coordinates is reused.\<close>

fun slice_tile ::
  "'b bitmap_ops \<Rightarrow> morton_encoder_nd \<Rightarrow> hypercube_bounding_box \<Rightarrow> ('f, 'b) hyper_tile \<Rightarrow> 32 word list \<Rightarrow>
     coordinate_nd \<Rightarrow> ((coordinate_nd \<times> 'f) list \<times> coordinate_nd) option" where
  "slice_tile bm e b t [] buf = Some ([], buf)"
| "slice_tile bm e b t (l # ls) buf =
     (case tile_get bm l t of
        None \<Rightarrow> slice_tile bm e b t ls buf
      | Some v \<Rightarrow>
          Option.bind (morton_decode e (ucast l) buf) (\<lambda>buf'.
            let global = map2 (+) (tile_origin t) buf' in
            map_option (\<lambda>(rs, buf''). (if bbox_contains b global then (global, v) # rs else rs, buf''))
              (slice_tile bm e b t ls buf')))"

fun slice_tiles ::
  "'b bitmap_ops \<Rightarrow> morton_encoder_nd \<Rightarrow> hypercube_bounding_box \<Rightarrow> ('f, 'b) hyper_tile list \<Rightarrow>
     coordinate_nd \<Rightarrow> (coordinate_nd \<times> 'f) list option" where
  "slice_tiles bm e b [] buf = Some []"
| "slice_tiles bm e b (t # ts) buf =
     (if tile_overlaps (length buf) b t
      then Option.bind (slice_tile bm e b t (bm_iter bm (occupancy t)) buf) (\<lambda>(rs, buf').
             map_option ((@) rs) (slice_tiles bm e b ts buf'))
      else slice_tiles bm e b ts buf)"

definition slice_subvolume ::
  "'b bitmap_ops \<Rightarrow> hypercube_bounding_box \<Rightarrow> ('f, 'b) hypercube_tensor_space \<Rightarrow>
     (coordinate_nd \<times> 'f) list res option" where
  "slice_subvolume bm b sp =
     (if bbox_dimensions b \<noteq> length (hc_shape sp)
      then Some (Inl (InvalidRequest ''Bounding box dimensions do not match tensor dimensions''))
      else map_option Inr
             (slice_tiles bm (hc_encoder sp) b (map snd (hc_tiles sp)) (replicate (length (hc_shape sp)) 0)))"

fun total_volume :: "coordinate_nd \<Rightarrow> nat \<Rightarrow> nat option" where
  "total_volume [] p = Some p"
| "total_volume (d # ds) p = Option.bind (checked_mul p d) (total_volume ds)"

section \<open>Snapshots\<close>

record ('f, 'b) hypercube_snapshot =
  sn_shape :: coordinate_nd
  sn_strides :: "nat list"
  sn_tiles :: "(64 word \<times> ('f, 'b) hyper_tile) list"

definition space_snapshot :: "('f, 'b) hypercube_tensor_space \<Rightarrow> ('f, 'b) hypercube_snapshot" where
  "space_snapshot sp = \<lparr>sn_shape = hc_shape sp, sn_strides = hc_strides sp, sn_tiles = hc_tiles sp\<rparr>"

definition snapshot_get_voxel ::
  "'b bitmap_ops \<Rightarrow> ('f, 'b) hypercube_snapshot \<Rightarrow> coordinate_nd \<Rightarrow> 'f option option" where
  "snapshot_get_voxel bm sn cs =
     (if length cs \<noteq> length (sn_shape sn) then Some None
      else if \<not> coords_in_shape (sn_shape sn) cs then Some None
      else
        let e = morton_new (length (sn_shape sn)) in
        Option.bind (morton_encode e (map (\<lambda>c. c mod TILE_EDGE) cs)) (\<lambda>w.
          map_option (\<lambda>key. Option.bind (map_of (sn_tiles sn) key) (tile_get bm (ucast w)))
            (morton_encode e (map (\<lambda>c. c div TILE_EDGE * TILE_EDGE) cs))))"

end
