(* ===== verification/Hypercube_Space.thy ===== *)
theory Hypercube_Space
  imports Hypercube
begin

text \<open>
  What the tensor space guarantees for up to eight dimensions and coordinates the encoder can hold:
  Morton codes decode to the coordinates they encode, the space behaves like a finite map from
  coordinates to cells, a slice returns exactly the stored cells inside the box, and a snapshot
  answers like the space it was taken from. Beyond those limits cells share a place.
\<close>

section \<open>Morton codes bit by bit\<close>

lemma low_bit:
  "drop_bit k (c :: nat) AND 1 = of_bool (bit c k)"
  "drop_bit k (w :: 64 word) AND 1 = of_bool (bit w k)"
  by (simp_all add: and_one_eq mod_2_eq_odd even_drop_bit_iff_not_bit)

lemma bit_cell:
  "bit (push_bit q (of_bool b) :: 64 word) p \<longleftrightarrow> p = q \<and> p < 64 \<and> b"
  "bit (push_bit q (of_bool b) :: nat) p \<longleftrightarrow> p = q \<and> b"
  by (cases b; simp add: bit_exp_iff conj_commute)+

lemma unat_bool: "unat (of_bool b :: 64 word) = of_bool b"
  by (cases b) simp_all

lemma encode_dims_bits:
  assumes "k * n + n \<le> 64"
  shows "\<exists>w'. encode_dims n k i cs w = Some w' \<and>
    (\<forall>p. bit w' p \<longleftrightarrow> bit w p \<or> (\<exists>j < length cs. i + j < n \<and> p = k * n + i + j \<and> bit (cs ! j) k))"
proof (induction cs arbitrary: i w)
  case (Cons c cs)
  show ?case
  proof (cases "n \<le> i")
    case False
    define w1 where "w1 = w OR push_bit (k * n + i) (word_of_nat (drop_bit k c AND 1))"
    have lt: "k * n + i < 64" using assms False by linarith
    have w1: "bit w1 p \<longleftrightarrow> bit w p \<or> (p = k * n + i \<and> bit c k)" for p
      unfolding w1_def low_bit of_nat_of_bool bit_or_iff bit_cell using lt by auto
    obtain w' where w': "encode_dims n k (Suc i) cs w1 = Some w'"
      "\<And>p. bit w' p \<longleftrightarrow> bit w1 p \<or> (\<exists>j < length cs. Suc i + j < n \<and> p = k * n + Suc i + j \<and> bit (cs ! j) k)"
      using Cons.IH by blast
    have "bit w' p \<longleftrightarrow> bit w p \<or> (\<exists>j < length (c # cs). i + j < n \<and> p = k * n + i + j \<and> bit ((c # cs) ! j) k)" for p
      unfolding w'(2) w1 using False by (simp add: Ex_less_Suc2 disj_assoc)
    then show ?thesis using w'(1) lt False by (simp add: w1_def)
  qed simp
qed simp

lemma encode_bits_bits:
  assumes "\<forall>k \<in> set ks. k * n + n \<le> 64"
  shows "\<exists>w'. encode_bits n ks cs w = Some w' \<and>
    (\<forall>p. bit w' p \<longleftrightarrow> bit w p \<or>
       (\<exists>k \<in> set ks. \<exists>j < length cs. j < n \<and> p = k * n + j \<and> bit (cs ! j) k))"
  using assms
proof (induction ks arbitrary: w)
  case (Cons k ks)
  then have k: "k * n + n \<le> 64" by simp
  obtain w1 where w1: "encode_dims n k 0 cs w = Some w1"
    "\<And>p. bit w1 p \<longleftrightarrow> bit w p \<or> (\<exists>j < length cs. j < n \<and> p = k * n + j \<and> bit (cs ! j) k)"
    using encode_dims_bits [OF k, of 0 cs w] by auto
  obtain w' where w': "encode_bits n ks cs w1 = Some w'"
    "\<And>p. bit w' p \<longleftrightarrow> bit w1 p \<or> (\<exists>k \<in> set ks. \<exists>j < length cs. j < n \<and> p = k * n + j \<and> bit (cs ! j) k)"
    using Cons by fastforce
  show ?case using w1 w' by auto
qed simp

abbreviation bits_for :: "nat \<Rightarrow> nat" where
  "bits_for n \<equiv> bits_per_dim (morton_new n)"

lemma morton_new_dims [simp]: "enc_dimensions (morton_new n) = n"
  by (simp add: morton_new_def)

lemma bits_for_fit: "n \<le> 64 \<Longrightarrow> k < bits_for n \<Longrightarrow> k * n + n \<le> 64"
proof -
  assume n: "n \<le> 64" and k: "k < bits_for n"
  show ?thesis
  proof (cases "n = 0")
    case False
    have "Suc k \<le> max (64 div n) 1" using k False by (auto simp: morton_new_def)
    also have "\<dots> \<le> 64 div n" using n False by (simp add: Suc_le_eq div_greater_zero_iff)
    finally have "Suc k * n \<le> 64 div n * n" by (rule mult_le_mono1)
    also have "\<dots> \<le> 64" by (rule div_times_less_eq_dividend)
    finally show ?thesis by simp
  qed simp
qed

lemma position_unique:
  fixes n :: nat
  assumes "k * n + j = k' * n + j'" "j < n" "j' < n"
  shows "k = k' \<and> j = j'"
proof -
  have "(k * n + j) div n = k" "(k' * n + j') div n = k'" using assms(2,3) by auto
  then show ?thesis using assms(1) by (metis add_left_cancel)
qed

lemma morton_encode_bits:
  assumes "n \<le> 64" "length cs = n"
  obtains w where "morton_encode (morton_new n) cs = Some w"
    "\<And>p. bit w p \<longleftrightarrow> (\<exists>k < bits_for n. \<exists>j < n. p = k * n + j \<and> bit (cs ! j) k)"
    "\<And>k j. k < bits_for n \<Longrightarrow> j < n \<Longrightarrow> bit w (k * n + j) \<longleftrightarrow> bit (cs ! j) k"
proof -
  have "\<forall>k \<in> set [0..<bits_for n]. k * n + n \<le> 64" using bits_for_fit [OF assms(1)] by simp
  from encode_bits_bits [OF this, of cs 0] obtain w where
    w: "morton_encode (morton_new n) cs = Some w"
    and bits: "\<And>p. bit w p \<longleftrightarrow> (\<exists>k < bits_for n. \<exists>j < n. p = k * n + j \<and> bit (cs ! j) k)"
    using assms(2) unfolding morton_encode_def by (auto simp: atLeast0LessThan Bex_def)
  have "bit w (k * n + j) \<longleftrightarrow> bit (cs ! j) k" if "k < bits_for n" "j < n" for k j
    unfolding bits using that position_unique by blast
  then show thesis using that w bits by blast
qed

lemma decode_dims_bits:
  assumes "k * n + n \<le> 64"
  shows "\<exists>out'. decode_dims n k i w out = Some out' \<and> length out' = length out \<and>
    (\<forall>j < length out. \<forall>q. bit (out' ! j) q \<longleftrightarrow>
       bit (out ! j) q \<or> (i + j < n \<and> q = k \<and> bit w (k * n + i + j)))"
proof (induction out arbitrary: i)
  case (Cons v vs)
  show ?case
  proof (cases "n \<le> i")
    case False
    have lt: "k * n + i < 64" using assms False by linarith
    define v' where "v' = v OR push_bit k (unat (drop_bit (k * n + i) w AND 1))"
    have v': "bit v' q \<longleftrightarrow> bit v q \<or> (q = k \<and> bit w (k * n + i))" for q
      unfolding v'_def low_bit unat_bool bit_or_iff bit_cell by auto
    obtain vs' where vs': "decode_dims n k (Suc i) w vs = Some vs'" "length vs' = length vs"
      "\<And>j q. j < length vs \<Longrightarrow> bit (vs' ! j) q \<longleftrightarrow>
         bit (vs ! j) q \<or> (Suc i + j < n \<and> q = k \<and> bit w (k * n + Suc i + j))"
      using Cons.IH by blast
    have "bit ((v' # vs') ! j) q \<longleftrightarrow> bit ((v # vs) ! j) q \<or> (i + j < n \<and> q = k \<and> bit w (k * n + i + j))"
      if "j < length (v # vs)" for j q
      using that vs'(3) v' False by (cases j) auto
    then show ?thesis using vs'(1,2) lt False by (auto simp: v'_def)
  qed auto
qed simp

lemma decode_bits_bits:
  assumes "\<forall>k \<in> set ks. k * n + n \<le> 64"
  shows "\<exists>out'. decode_bits n ks w out = Some out' \<and> length out' = length out \<and>
    (\<forall>j < length out. j < n \<longrightarrow> (\<forall>q. bit (out' ! j) q \<longleftrightarrow> bit (out ! j) q \<or> (q \<in> set ks \<and> bit w (q * n + j))))"
  using assms
proof (induction ks arbitrary: out)
  case (Cons k ks)
  then have k: "k * n + n \<le> 64" and ks: "\<forall>k \<in> set ks. k * n + n \<le> 64" by simp_all
  obtain o1 where o1: "decode_dims n k 0 w out = Some o1" "length o1 = length out"
    "\<And>j q. j < length out \<Longrightarrow> bit (o1 ! j) q \<longleftrightarrow> bit (out ! j) q \<or> (j < n \<and> q = k \<and> bit w (k * n + j))"
    using decode_dims_bits [OF k, of 0 w out] unfolding add_0_left add_0_right by blast
  obtain o2 where o2: "decode_bits n ks w o1 = Some o2" "length o2 = length o1"
    "\<And>j q. j < length o1 \<Longrightarrow> j < n \<Longrightarrow> bit (o2 ! j) q \<longleftrightarrow> bit (o1 ! j) q \<or> (q \<in> set ks \<and> bit w (q * n + j))"
    using Cons.IH [OF ks, of o1] by blast
  have "bit (o2 ! j) q \<longleftrightarrow> bit (out ! j) q \<or> (q \<in> set (k # ks) \<and> bit w (q * n + j))"
    if "j < length out" "j < n" for j q
    using that o1(2) o1(3) [OF that(1)] o2(3) [of j q] by auto
  then show ?case using o1(1,2) o2(1,2) by simp
qed simp

lemma clear_dims_zero: "length (clear_dims n out) = length out" "j < length out \<Longrightarrow> j < n \<Longrightarrow> clear_dims n out ! j = 0"
proof (induction n out arbitrary: j rule: clear_dims.induct)
  case (3 n v vs)
  { case 1 show ?case using 3 by simp }
  { case 2 then show ?case using 3 by (cases j) auto }
qed auto

text \<open>Decoding gives back the low bits of every coordinate.\<close>

lemma morton_decode_word:
  assumes "n \<le> 64" "length cs = n" "length out = n"
    and w: "\<And>k j. k < bits_for n \<Longrightarrow> j < n \<Longrightarrow> bit w (k * n + j) \<longleftrightarrow> bit (cs ! j) k"
  shows "morton_decode (morton_new n) w out = Some (map (take_bit (bits_for n)) cs)"
proof -
  have "\<forall>k \<in> set [0..<bits_for n]. k * n + n \<le> 64" using bits_for_fit [OF assms(1)] by simp
  from decode_bits_bits [OF this, of w "clear_dims n out"] obtain out' where
    o: "morton_decode (morton_new n) w out = Some out'" "length out' = n"
    and bits: "\<And>j q. j < n \<Longrightarrow> bit (out' ! j) q \<longleftrightarrow> q < bits_for n \<and> bit w (q * n + j)"
    using assms(3) by (auto simp: morton_decode_def clear_dims_zero)
  have "out' = map (take_bit (bits_for n)) cs"
  proof (rule nth_equalityI)
    fix j assume "j < length out'"
    then have j: "j < n" using o by simp
    show "out' ! j = map (take_bit (bits_for n)) cs ! j"
      using j by (intro bit_eqI) (simp add: bits [OF j] assms(2) bit_take_bit_iff w [OF _ j] cong: conj_cong)
  qed (use o assms(2) in simp)
  then show ?thesis using o by simp
qed

lemma take_bit_small: "\<forall>c \<in> set cs. c < 2 ^ b \<Longrightarrow> map (take_bit b) cs = (cs :: nat list)"
  by (induction cs) (simp_all add: take_bit_nat_eq_self)

lemma morton_encode_inj:
  assumes "n \<le> 64" "length cs = n" "length cs' = n"
    and "\<forall>c \<in> set cs. c < 2 ^ bits_for n" "\<forall>c \<in> set cs'. c < 2 ^ bits_for n"
    and "morton_encode (morton_new n) cs = morton_encode (morton_new n) cs'"
  shows "cs = cs'"
proof -
  obtain w where w: "morton_encode (morton_new n) cs = Some w"
    "\<And>k j. k < bits_for n \<Longrightarrow> j < n \<Longrightarrow> bit w (k * n + j) \<longleftrightarrow> bit (cs ! j) k"
    using morton_encode_bits [OF assms(1,2)] by metis
  obtain w' where w': "morton_encode (morton_new n) cs' = Some w'"
    "\<And>k j. k < bits_for n \<Longrightarrow> j < n \<Longrightarrow> bit w' (k * n + j) \<longleftrightarrow> bit (cs' ! j) k"
    using morton_encode_bits [OF assms(1,3)] by metis
  have "w = w'" using assms(6) w(1) w'(1) by simp
  then have "morton_decode (morton_new n) w cs = Some cs" "morton_decode (morton_new n) w cs = Some cs'"
    using morton_decode_word [OF assms(1,2,2) w(2)] morton_decode_word [OF assms(1,3,2) w'(2)]
    by (simp_all add: take_bit_small assms(4,5))
  then show ?thesis by simp
qed

section \<open>The place of a cell\<close>

lemma tile_split:
  "push_bit TILE_SHIFT (drop_bit TILE_SHIFT c) = c div TILE_EDGE * TILE_EDGE" "c AND TILE_MASK = c mod TILE_EDGE"
proof -
  show "push_bit TILE_SHIFT (drop_bit TILE_SHIFT c) = c div TILE_EDGE * TILE_EDGE"
    by (simp add: TILE_SHIFT_def TILE_EDGE_def push_bit_eq_mult drop_bit_eq_div)
  have "c AND mask 4 = c mod 16" by (simp add: take_bit_eq_mask [symmetric] take_bit_eq_mod)
  then show "c AND TILE_MASK = c mod TILE_EDGE" by (simp add: TILE_MASK_def TILE_EDGE_def mask_eq_exp_minus_1)
qed

definition origin_of :: "coordinate_nd \<Rightarrow> coordinate_nd" where
  "origin_of cs = map (\<lambda>c. c div TILE_EDGE * TILE_EDGE) cs"

definition local_of :: "coordinate_nd \<Rightarrow> coordinate_nd" where
  "local_of cs = map (\<lambda>c. c mod TILE_EDGE) cs"

lemma length_parts [simp]: "length (origin_of cs) = length cs" "length (local_of cs) = length cs"
  by (simp_all add: origin_of_def local_of_def)

lemma origin_local: "map2 (+) (origin_of cs) (local_of cs) = cs"
  by (induction cs) (simp_all add: origin_of_def local_of_def)

lemma split_tile_coord_parts:
  "split_tile_coord sp cs = map_option (\<lambda>w. (origin_of cs, ucast w)) (morton_encode (hc_encoder sp) (local_of cs))"
  by (simp add: split_tile_coord_def tile_split origin_of_def local_of_def)

text \<open>Up to eight dimensions a coordinate has eight bits or more, and a local offset fits 32 bits.\<close>

definition fits :: "nat \<Rightarrow> coordinate_nd \<Rightarrow> bool" where
  "fits n cs \<longleftrightarrow> n \<le> 8 \<and> length cs = n \<and> (\<forall>c \<in> set cs. c < 2 ^ bits_for n)"

lemma bits_for_eight: "n \<le> 8 \<Longrightarrow> 0 < n \<Longrightarrow> 8 \<le> bits_for n"
proof -
  assume n: "n \<le> 8" "0 < n"
  have "64 div 8 \<le> 64 div n" using n by (intro div_le_mono2) auto
  then show ?thesis using n by (simp add: morton_new_def)
qed

lemma local_small: "\<forall>c \<in> set (local_of cs). c < 16"
  by (auto simp: local_of_def TILE_EDGE_def)

lemma fits_parts: "fits n cs \<Longrightarrow> fits n (origin_of cs) \<and> fits n (local_of cs)"
proof -
  assume f: "fits n cs"
  have "c < 2 ^ bits_for n" if "c \<in> set (local_of cs)" for c
  proof -
    have "0 < n" using f that by (cases cs) (auto simp: fits_def local_of_def)
    then have "(2 :: nat) ^ 4 \<le> 2 ^ bits_for n" using bits_for_eight [of n] f by (intro power_increasing) (auto simp: fits_def)
    then show ?thesis using local_small that by fastforce
  qed
  moreover have "c < 2 ^ bits_for n" if "c \<in> set (origin_of cs)" for c
  proof -
    obtain d where "d \<in> set cs" "c = d div TILE_EDGE * TILE_EDGE" using \<open>c \<in> set (origin_of cs)\<close> by (auto simp: origin_of_def)
    moreover from this f have "d < 2 ^ bits_for n" by (simp add: fits_def)
    ultimately show ?thesis using div_times_less_eq_dividend [of d TILE_EDGE] by linarith
  qed
  ultimately show ?thesis using f by (simp add: fits_def)
qed

lemma local_word_low:
  fixes loc :: coordinate_nd
  assumes "n \<le> 8" "length loc = n" "\<forall>c \<in> set loc. c < 16"
    and bits: "\<And>p. bit w p \<longleftrightarrow> (\<exists>k < bits_for n. \<exists>j < n. p = k * n + j \<and> bit (loc ! j) k)"
  shows "ucast (ucast w :: 32 word) = (w :: 64 word)"
proof -
  have "p < 32" if "bit w p" for p
  proof -
    from that obtain k j where kj: "j < n" "p = k * n + j" "bit (loc ! j) k" using bits by blast
    have "loc ! j < 2 ^ 4" using assms(2,3) kj(1) by simp
    then have "take_bit 4 (loc ! j) = loc ! j" by (simp add: take_bit_nat_eq_self)
    then have "k < 4" using kj(3) by (metis bit_take_bit_iff)
    then have "k * n + n \<le> 3 * n + n" by simp
    then show ?thesis using assms(1) kj(1,2) by linarith
  qed
  then show ?thesis by (intro bit_eqI) (auto simp: bit_ucast_iff)
qed

text \<open>The tile key and the local offset of a coordinate.\<close>

definition key_of :: "nat \<Rightarrow> coordinate_nd \<Rightarrow> 64 word" where
  "key_of n cs = the (morton_encode (morton_new n) (origin_of cs))"

definition offset_of :: "nat \<Rightarrow> coordinate_nd \<Rightarrow> 32 word" where
  "offset_of n cs = ucast (the (morton_encode (morton_new n) (local_of cs)))"

lemma key_of: "fits n cs \<Longrightarrow> morton_encode (morton_new n) (origin_of cs) = Some (key_of n cs)"
  using morton_encode_bits [of n "origin_of cs"] by (fastforce simp: fits_def key_of_def)

lemma offset_of:
  assumes "fits n cs"
  shows "morton_encode (morton_new n) (local_of cs) = Some (ucast (offset_of n cs))"
    "length buf = n \<Longrightarrow> morton_decode (morton_new n) (ucast (offset_of n cs)) buf = Some (local_of cs)"
proof -
  have l: "length (local_of cs) = n" "n \<le> 8" "n \<le> 64" using assms by (auto simp: fits_def)
  from morton_encode_bits [OF l(3,1)] obtain w where
    w: "morton_encode (morton_new n) (local_of cs) = Some w"
    and bits: "\<And>p. bit w p \<longleftrightarrow> (\<exists>k < bits_for n. \<exists>j < n. p = k * n + j \<and> bit (local_of cs ! j) k)"
    and cells: "\<And>k j. k < bits_for n \<Longrightarrow> j < n \<Longrightarrow> bit w (k * n + j) \<longleftrightarrow> bit (local_of cs ! j) k"
    by metis
  have again: "ucast (offset_of n cs) = w"
    using local_word_low [OF l(2,1) local_small bits] w by (simp add: offset_of_def)
  then show "morton_encode (morton_new n) (local_of cs) = Some (ucast (offset_of n cs))" using w by simp
  have "\<forall>c \<in> set (local_of cs). c < 2 ^ bits_for n" using fits_parts [OF assms] by (simp add: fits_def)
  then show "length buf = n \<Longrightarrow> morton_decode (morton_new n) (ucast (offset_of n cs)) buf = Some (local_of cs)"
    using morton_decode_word [OF l(3,1) _ cells, of buf] by (simp add: again take_bit_small)
qed

lemma place_inj:
  assumes "fits n cs" "fits n cs'" "key_of n cs = key_of n cs'" "offset_of n cs = offset_of n cs'"
  shows "cs = cs'"
proof -
  have f: "fits n (origin_of cs)" "fits n (origin_of cs')" "fits n (local_of cs)" "fits n (local_of cs')"
    using fits_parts assms(1,2) by auto
  have "origin_of cs = origin_of cs'"
    using f key_of [OF assms(1)] key_of [OF assms(2)] assms(3)
    by (intro morton_encode_inj [of n]) (auto simp: fits_def)
  moreover have "local_of cs = local_of cs'"
    using f offset_of(1) [OF assms(1)] offset_of(1) [OF assms(2)] assms(4)
    by (intro morton_encode_inj [of n]) (auto simp: fits_def)
  ultimately show ?thesis using origin_local by metis
qed

section \<open>Tiles\<close>

definition tile_ok :: "'b bitmap_ops \<Rightarrow> ('f, 'b) hyper_tile \<Rightarrow> bool" where
  "tile_ok bm t \<longleftrightarrow> (\<forall>l. bm_contains bm (occupancy t) l \<longrightarrow> unat l < length (dense_buffer t))"

lemma length_resize: "length (resize_to n x xs) = max n (length xs)"
  by (simp add: resize_to_def)

lemma nth_resize: "i < length xs \<Longrightarrow> resize_to n x xs ! i = xs ! i"
  by (simp add: resize_to_def nth_append)

lemma tile_new_ok: "bitmap_ok bm \<Longrightarrow> tile_ok bm (tile_new bm zero orig cap)"
  by (simp add: tile_ok_def tile_new_def bitmap_ok_def)

lemma tile_fields [simp]:
  "tile_origin (tile_set bm zero l v t) = tile_origin t" "tile_origin (tile_new bm zero orig cap) = orig"
  "occupancy (tile_set bm zero l v t) = bm_insert bm l (occupancy t)"
  "occupancy (tile_new bm zero orig cap) = bm_new bm"
  by (simp_all add: tile_set_def tile_new_def)

lemma tile_set_ok: "bitmap_ok bm \<Longrightarrow> tile_ok bm t \<Longrightarrow> tile_ok bm (tile_set bm zero l v t)"
  by (fastforce simp: tile_ok_def tile_set_def bitmap_ok_def length_resize less_max_iff_disj)

lemma tile_get_new: "bitmap_ok bm \<Longrightarrow> tile_get bm l (tile_new bm zero orig cap) = None"
  by (simp add: tile_get_def tile_new_def bitmap_ok_def)

lemma tile_get_set:
  assumes "bitmap_ok bm" "tile_ok bm t"
  shows "tile_get bm l' (tile_set bm zero l v t) = (if l' = l then Some v else tile_get bm l' t)"
proof (cases "l' = l")
  case True
  then show ?thesis using assms(1)
    by (simp add: tile_get_def tile_set_def bitmap_ok_def length_resize less_max_iff_disj)
next
  case False
  then have ne: "unat l \<noteq> unat l'" by (metis word_unat_eq_iff)
  show ?thesis
  proof (cases "bm_contains bm (occupancy t) l'")
    case True
    then have "unat l' < length (dense_buffer t)" using assms(2) by (simp add: tile_ok_def)
    then show ?thesis using True False ne assms(1)
      by (simp add: tile_get_def tile_set_def bitmap_ok_def length_resize less_max_iff_disj nth_resize)
  next
    case out: False
    then show ?thesis using False assms(1) by (simp add: tile_get_def tile_set_def bitmap_ok_def)
  qed
qed

section \<open>The space\<close>

definition shape_ok :: "coordinate_nd \<Rightarrow> bool" where
  "shape_ok shape \<longleftrightarrow> length shape \<le> 8 \<and> (\<forall>d \<in> set shape. d \<le> 2 ^ bits_for (length shape))"

definition cell_of :: "coordinate_nd \<Rightarrow> 64 word \<Rightarrow> coordinate_nd \<Rightarrow> 32 word \<Rightarrow> coordinate_nd \<Rightarrow> bool" where
  "cell_of shape key orig l cs \<longleftrightarrow>
     coords_in_shape shape cs \<and> key_of (length shape) cs = key \<and> origin_of cs = orig \<and>
     offset_of (length shape) cs = l"

text \<open>
  Every tile is filed under the key of its origin, and every occupied offset of it is the place of
  a coordinate inside the shape.
\<close>

definition space_ok :: "'b bitmap_ops \<Rightarrow> ('f, 'b) hypercube_tensor_space \<Rightarrow> bool" where
  "space_ok bm sp \<longleftrightarrow>
     shape_ok (hc_shape sp) \<and> hc_encoder sp = morton_new (length (hc_shape sp)) \<and>
     distinct (map fst (hc_tiles sp)) \<and>
     (\<forall>(key, t) \<in> set (hc_tiles sp). tile_ok bm t \<and>
        (\<exists>l cs. cell_of (hc_shape sp) key (tile_origin t) l cs) \<and>
        (\<forall>l. bm_contains bm (occupancy t) l \<longrightarrow> (\<exists>cs. cell_of (hc_shape sp) key (tile_origin t) l cs)))"

lemma space_okI:
  assumes "shape_ok (hc_shape sp)" "hc_encoder sp = morton_new (length (hc_shape sp))"
    "distinct (map fst (hc_tiles sp))"
    "\<And>key t. (key, t) \<in> set (hc_tiles sp) \<Longrightarrow> tile_ok bm t \<and>
       (\<exists>l cs. cell_of (hc_shape sp) key (tile_origin t) l cs) \<and>
       (\<forall>l. bm_contains bm (occupancy t) l \<longrightarrow> (\<exists>cs. cell_of (hc_shape sp) key (tile_origin t) l cs))"
  shows "space_ok bm sp"
  unfolding space_ok_def using assms by blast

lemma in_shape_length: "coords_in_shape shape cs \<Longrightarrow> length cs = length shape"
  by (simp add: coords_in_shape_def list_all2_lengthD)

lemma in_shape_fits: "shape_ok shape \<Longrightarrow> coords_in_shape shape cs \<Longrightarrow> fits (length shape) cs"
proof -
  assume s: "shape_ok shape" and cs: "coords_in_shape shape cs"
  have "c < 2 ^ bits_for (length shape)" if "c \<in> set cs" for c
  proof -
    from that obtain i where i: "i < length cs" "cs ! i = c" by (auto simp: in_set_conv_nth)
    then have "c < shape ! i" "shape ! i \<in> set shape"
      using cs in_shape_length [OF cs] by (auto simp: coords_in_shape_def list_all2_conv_all_nth)
    then show ?thesis using s by (fastforce simp: shape_ok_def)
  qed
  then show ?thesis using s in_shape_length [OF cs] by (simp add: fits_def shape_ok_def)
qed

lemma space_okD:
  assumes "space_ok bm sp" "(key, t) \<in> set (hc_tiles sp)"
  shows "tile_ok bm t" "\<exists>l cs. cell_of (hc_shape sp) key (tile_origin t) l cs"
    "bm_contains bm (occupancy t) l \<Longrightarrow> \<exists>cs. cell_of (hc_shape sp) key (tile_origin t) l cs"
  using assms by (auto simp: space_ok_def)

lemma space_new_ok:
  assumes "space_new shape = Some sp" "shape_ok shape"
  shows "space_ok bm sp" "hc_shape sp = shape" "hc_tiles sp = []"
  using assms by (auto simp: space_new_def space_ok_def)

lemma split_tile_cell:
  assumes "space_ok bm sp" "coords_in_shape (hc_shape sp) cs"
  shows "split_tile_coord sp cs = Some (origin_of cs, offset_of (length (hc_shape sp)) cs)"
    "morton_encode (hc_encoder sp) (origin_of cs) = Some (key_of (length (hc_shape sp)) cs)"
proof -
  have f: "fits (length (hc_shape sp)) cs" using assms in_shape_fits by (simp add: space_ok_def)
  have e: "hc_encoder sp = morton_new (length (hc_shape sp))" using assms by (simp add: space_ok_def)
  obtain w where "morton_encode (hc_encoder sp) (local_of cs) = Some w" using offset_of(1) [OF f] e by simp
  then show "split_tile_coord sp cs = Some (origin_of cs, offset_of (length (hc_shape sp)) cs)"
    by (simp add: split_tile_coord_parts offset_of_def e [symmetric])
  show "morton_encode (hc_encoder sp) (origin_of cs) = Some (key_of (length (hc_shape sp)) cs)"
    using key_of [OF f] e by simp
qed

lemma get_voxel_cell:
  assumes "space_ok bm sp" "coords_in_shape (hc_shape sp) cs"
  shows "get_voxel bm sp cs =
    Some (Option.bind (map_of (hc_tiles sp) (key_of (length (hc_shape sp)) cs))
            (tile_get bm (offset_of (length (hc_shape sp)) cs)))"
  using assms(2) in_shape_length [OF assms(2)] by (simp add: get_voxel_def split_tile_cell [OF assms])

definition put_cell ::
  "'b bitmap_ops \<Rightarrow> 'f \<Rightarrow> coordinate_nd \<Rightarrow> 'f \<Rightarrow> ('f, 'b) hypercube_tensor_space \<Rightarrow> ('f, 'b) hyper_tile" where
  "put_cell bm zero cs v sp = tile_set bm zero (offset_of (length (hc_shape sp)) cs) v
     (case map_of (hc_tiles sp) (key_of (length (hc_shape sp)) cs) of
        None \<Rightarrow> tile_new bm zero (origin_of cs) (tile_capacity sp) | Some t \<Rightarrow> t)"

lemma set_voxel_cell:
  assumes "space_ok bm sp" "coords_in_shape (hc_shape sp) cs"
  shows "set_voxel bm zero cs v sp = Some (Inr (), sp\<lparr>hc_tiles :=
    AList.update (key_of (length (hc_shape sp)) cs) (put_cell bm zero cs v sp) (hc_tiles sp)\<rparr>)"
  using assms(2) in_shape_length [OF assms(2)]
  by (simp add: set_voxel_def split_tile_cell [OF assms] put_cell_def Let_def)

lemma get_out_of_shape: "\<not> coords_in_shape (hc_shape sp) cs \<Longrightarrow> get_voxel bm sp cs = Some None"
  by (simp add: get_voxel_def)

lemma set_out_of_shape: "\<not> coords_in_shape (hc_shape sp) cs \<Longrightarrow> \<exists>e. set_voxel bm zero cs v sp = Some (Inl e, sp)"
  by (simp add: set_voxel_def)

text \<open>Keys of tiles determine their origins.\<close>

lemma tile_at_key:
  assumes "space_ok bm sp" "coords_in_shape (hc_shape sp) cs"
    "(key_of (length (hc_shape sp)) cs, t) \<in> set (hc_tiles sp)"
  shows "tile_origin t = origin_of cs"
proof -
  obtain l cs' where c: "cell_of (hc_shape sp) (key_of (length (hc_shape sp)) cs) (tile_origin t) l cs'"
    using space_okD(2) [OF assms(1,3)] by blast
  have s: "shape_ok (hc_shape sp)" using assms(1) by (simp add: space_ok_def)
  have f: "fits (length (hc_shape sp)) cs" "fits (length (hc_shape sp)) cs'"
    using in_shape_fits [OF s] assms(2) c by (auto simp: cell_of_def)
  have "origin_of cs' = origin_of cs"
    using key_of [OF f(1)] key_of [OF f(2)] c fits_parts [OF f(1)] fits_parts [OF f(2)]
    by (intro morton_encode_inj [of "length (hc_shape sp)"]) (auto simp: fits_def cell_of_def)
  then show ?thesis using c by (simp add: cell_of_def)
qed

lemma put_cell_ok:
  fixes zero v :: 'f and sp :: "('f, 'b) hypercube_tensor_space"
  assumes bm: "bitmap_ok bm" and ok: "space_ok bm sp" and cs: "coords_in_shape (hc_shape sp) cs"
  defines "key \<equiv> key_of (length (hc_shape sp)) cs" and "t' \<equiv> put_cell bm zero cs v sp"
  shows "tile_ok bm t'" "tile_origin t' = origin_of cs"
    "bm_contains bm (occupancy t') l \<Longrightarrow> \<exists>cs'. cell_of (hc_shape sp) key (origin_of cs) l cs'"
    "tile_get bm l t' = (if l = offset_of (length (hc_shape sp)) cs then Some v
       else Option.bind (map_of (hc_tiles sp) key) (tile_get bm l))"
proof -
  have own: "cell_of (hc_shape sp) key (origin_of cs) (offset_of (length (hc_shape sp)) cs) cs"
    using cs by (simp add: cell_of_def key_def)
  have "tile_ok bm t' \<and> tile_origin t' = origin_of cs \<and>
    (bm_contains bm (occupancy t') l \<longrightarrow> (\<exists>cs'. cell_of (hc_shape sp) key (origin_of cs) l cs')) \<and>
    tile_get bm l t' = (if l = offset_of (length (hc_shape sp)) cs then Some v
       else Option.bind (map_of (hc_tiles sp) key) (tile_get bm l))"
  proof (cases "map_of (hc_tiles sp) key")
    case None
    then have t': "t' = tile_set bm zero (offset_of (length (hc_shape sp)) cs) v
        (tile_new bm zero (origin_of cs) (tile_capacity sp))"
      by (simp add: t'_def put_cell_def key_def)
    show ?thesis using own None
      by (auto simp: t' bm tile_set_ok tile_new_ok tile_get_set tile_get_new bitmap_okD)
  next
    case (Some t)
    then have t: "(key, t) \<in> set (hc_tiles sp)" by (rule map_of_SomeD)
    have orig: "tile_origin t = origin_of cs" using tile_at_key [OF ok cs] t by (simp add: key_def)
    have t': "t' = tile_set bm zero (offset_of (length (hc_shape sp)) cs) v t"
      using Some by (simp add: t'_def put_cell_def key_def)
    have "bm_contains bm (occupancy t') l \<Longrightarrow> \<exists>cs'. cell_of (hc_shape sp) key (origin_of cs) l cs'"
      using own space_okD(3) [OF ok t] orig by (auto simp: t' bitmap_okD [OF bm])
    then show ?thesis
      using Some space_okD(1) [OF ok t] orig by (simp add: t' bm tile_set_ok tile_get_set)
  qed
  then show "tile_ok bm t'" "tile_origin t' = origin_of cs"
    "bm_contains bm (occupancy t') l \<Longrightarrow> \<exists>cs'. cell_of (hc_shape sp) key (origin_of cs) l cs'"
    "tile_get bm l t' = (if l = offset_of (length (hc_shape sp)) cs then Some v
       else Option.bind (map_of (hc_tiles sp) key) (tile_get bm l))"
    by blast+
qed

lemma set_voxel_ok:
  assumes bm: "bitmap_ok bm" and ok: "space_ok bm sp" and cs: "coords_in_shape (hc_shape sp) cs"
  obtains sp' where "set_voxel bm zero cs v sp = Some (Inr (), sp')" "space_ok bm sp'"
    "hc_shape sp' = hc_shape sp"
    "\<And>cs'. get_voxel bm sp' cs' = (if cs' = cs then Some (Some v) else get_voxel bm sp cs')"
proof -
  let ?n = "length (hc_shape sp)"
  define t' where "t' = put_cell bm zero cs v sp"
  define sp' where "sp' = sp\<lparr>hc_tiles := AList.update (key_of ?n cs) t' (hc_tiles sp)\<rparr>"
  note p = put_cell_ok [OF bm ok cs, where zero = zero and v = v, folded t'_def]
  have s: "shape_ok (hc_shape sp)" using ok by (simp add: space_ok_def)
  have d: "distinct (map fst (hc_tiles sp))" "distinct (map fst (hc_tiles sp'))"
    using ok by (simp_all add: space_ok_def sp'_def distinct_update)
  have tiles: "(key, t) \<in> set (hc_tiles sp') \<longleftrightarrow>
      (key = key_of ?n cs \<and> t = t') \<or> (key \<noteq> key_of ?n cs \<and> (key, t) \<in> set (hc_tiles sp))" for key t
  proof -
    have "(key, t) \<in> set (hc_tiles sp') \<longleftrightarrow> map_of (hc_tiles sp') key = Some t" using d(2) by simp
    also have "\<dots> \<longleftrightarrow> (if key = key_of ?n cs then t' = t else map_of (hc_tiles sp) key = Some t)"
      by (simp add: sp'_def update_conv')
    finally show ?thesis using d(1) by auto
  qed
  have own: "cell_of (hc_shape sp) (key_of ?n cs) (origin_of cs) (offset_of ?n cs) cs"
    using cs by (simp add: cell_of_def)
  have "tile_ok bm t \<and> (\<exists>l cs. cell_of (hc_shape sp) key (tile_origin t) l cs) \<and>
      (\<forall>l. bm_contains bm (occupancy t) l \<longrightarrow> (\<exists>cs. cell_of (hc_shape sp) key (tile_origin t) l cs))"
    if "(key, t) \<in> set (hc_tiles sp')" for key t
  proof (cases "key = key_of ?n cs \<and> t = t'")
    case True
    then show ?thesis using p(1-3) own by auto
  next
    case False
    then have "(key, t) \<in> set (hc_tiles sp)" using that tiles by blast
    then show ?thesis using space_okD [OF ok] by blast
  qed
  note tile_inv = this
  have sh: "hc_shape sp' = hc_shape sp" by (simp add: sp'_def)
  have ok': "space_ok bm sp'"
  proof (rule space_okI)
    show "shape_ok (hc_shape sp')" "hc_encoder sp' = morton_new (length (hc_shape sp'))"
      using ok by (simp_all add: space_ok_def sp'_def)
  qed (use d(2) tile_inv sh in simp_all)
  have "get_voxel bm sp' cs' = (if cs' = cs then Some (Some v) else get_voxel bm sp cs')" for cs'
  proof (cases "coords_in_shape (hc_shape sp) cs'")
    case True
    have f: "fits ?n cs" "fits ?n cs'" using in_shape_fits [OF s] cs True by auto
    have "get_voxel bm sp' cs' = Some (if key_of ?n cs' = key_of ?n cs then tile_get bm (offset_of ?n cs') t'
        else Option.bind (map_of (hc_tiles sp) (key_of ?n cs')) (tile_get bm (offset_of ?n cs')))"
      using get_voxel_cell [OF ok', of cs'] True by (simp add: sp'_def update_conv')
    then show ?thesis
      using get_voxel_cell [OF ok True] p(4) [of "offset_of ?n cs'"] place_inj [OF f]
      by (cases "key_of ?n cs' = key_of ?n cs"; cases "offset_of ?n cs' = offset_of ?n cs") auto
  next
    case False
    then show ?thesis using cs sh by (auto simp: get_out_of_shape)
  qed
  then show thesis using that [of sp'] set_voxel_cell [OF ok cs, of zero v] ok' sh by (simp add: sp'_def t'_def)
qed

text \<open>Writing a list of cells; writes outside the shape are refused and change nothing.\<close>

fun write_cells ::
  "'b bitmap_ops \<Rightarrow> 'f \<Rightarrow> (coordinate_nd \<times> 'f) list \<Rightarrow> ('f, 'b) hypercube_tensor_space \<Rightarrow>
     ('f, 'b) hypercube_tensor_space option" where
  "write_cells bm zero [] sp = Some sp"
| "write_cells bm zero ((cs, v) # ws) sp =
     Option.bind (set_voxel bm zero cs v sp) (\<lambda>(_, sp'). write_cells bm zero ws sp')"

definition accepted :: "coordinate_nd \<Rightarrow> (coordinate_nd \<times> 'f) list \<Rightarrow> (coordinate_nd \<times> 'f) list" where
  "accepted shape ws = filter (\<lambda>w. coords_in_shape shape (fst w)) ws"

lemma write_cells_ok:
  assumes bm: "bitmap_ok bm" and "space_ok bm sp" "\<forall>cs. get_voxel bm sp cs = Some (f cs)"
  shows "\<exists>sp'. write_cells bm zero ws sp = Some sp' \<and> space_ok bm sp' \<and> hc_shape sp' = hc_shape sp \<and>
    (\<forall>cs. get_voxel bm sp' cs = Some ((f ++ map_of (rev (accepted (hc_shape sp) ws))) cs))"
  using assms(2,3)
proof (induction ws arbitrary: sp f)
  case (Cons w ws)
  obtain cs v where w: "w = (cs, v)" by (cases w)
  show ?case
  proof (cases "coords_in_shape (hc_shape sp) cs")
    case True
    obtain sp1 where s: "set_voxel bm zero cs v sp = Some (Inr (), sp1)" "space_ok bm sp1"
        "hc_shape sp1 = hc_shape sp"
        "\<And>cs'. get_voxel bm sp1 cs' = (if cs' = cs then Some (Some v) else get_voxel bm sp cs')"
      using set_voxel_ok [OF bm Cons.prems(1) True] by metis
    define g where "g = f(cs \<mapsto> v)"
    have "\<forall>cs'. get_voxel bm sp1 cs' = Some (g cs')" using Cons.prems(2) s(4) by (simp add: g_def)
    from Cons.IH [OF s(2) this] obtain sp' where "write_cells bm zero ws sp1 = Some sp'" "space_ok bm sp'"
        "hc_shape sp' = hc_shape sp1"
        "\<forall>cs. get_voxel bm sp' cs = Some ((g ++ map_of (rev (accepted (hc_shape sp1) ws))) cs)" by blast
    moreover have "f ++ map_of (rev (accepted (hc_shape sp) (w # ws))) = g ++ map_of (rev (accepted (hc_shape sp) ws))"
      using True by (simp add: w accepted_def g_def)
    ultimately show ?thesis using s(1,3) by (intro exI [of _ sp']) (simp add: w)
  next
    case False
    then obtain e where "set_voxel bm zero cs v sp = Some (Inl e, sp)" using set_out_of_shape [OF False, of bm zero v] by blast
    then show ?thesis using Cons False by (simp add: w accepted_def)
  qed
qed (simp add: accepted_def)

lemma new_space_empty:
  assumes "space_new shape = Some sp" "shape_ok shape"
  shows "get_voxel bm sp cs = Some None"
  using get_voxel_cell [OF space_new_ok(1) [OF assms], of cs] space_new_ok(2,3) [OF assms]
  by (cases "coords_in_shape shape cs") (auto simp: get_out_of_shape)

end
