(* ===== verification/Hypercube_Slice.thy ===== *)
theory Hypercube_Slice
  imports Hypercube_Space
begin

text \<open>
  Slices and snapshots of the tensor space, and the properties of the component.
\<close>

section \<open>Slices\<close>

text \<open>The cells of a tile that a slice may report: inside the box, under the key of the tile, occupied.\<close>

definition tile_hit ::
  "'b bitmap_ops \<Rightarrow> coordinate_nd \<Rightarrow> hypercube_bounding_box \<Rightarrow> 64 word \<times> ('f, 'b) hyper_tile \<Rightarrow>
     coordinate_nd \<Rightarrow> 'f \<Rightarrow> bool" where
  "tile_hit bm shape b kt cs v \<longleftrightarrow>
     bbox_contains b cs \<and> coords_in_shape shape cs \<and> key_of (length shape) cs = fst kt \<and>
     tile_get bm (offset_of (length shape) cs) (snd kt) = Some v"

lemma cell_coordinates:
  assumes "shape_ok shape" "cell_of shape key orig l cs" "length buf = length shape"
  shows "morton_decode (morton_new (length shape)) (ucast l) buf = Some (local_of cs)"
    "map2 (+) orig (local_of cs) = cs"
proof -
  have f: "fits (length shape) cs" using in_shape_fits assms(1,2) by (simp add: cell_of_def)
  show "morton_decode (morton_new (length shape)) (ucast l) buf = Some (local_of cs)"
    using offset_of(2) [OF f assms(3)] assms(2) by (simp add: cell_of_def)
  show "map2 (+) orig (local_of cs) = cs"
    using origin_local [of cs] assms(2) by (simp add: cell_of_def)
qed

lemma slice_tile_cells:
  assumes s: "shape_ok shape"
    and "\<forall>l \<in> set ls. tile_get bm l t = Some (v l) \<and> cell_of shape key (tile_origin t) l (g l)"
    and "length buf = length shape"
  shows "\<exists>buf'. length buf' = length shape \<and>
    slice_tile bm (morton_new (length shape)) b t ls buf =
      Some (map (\<lambda>l. (g l, v l)) (filter (\<lambda>l. bbox_contains b (g l)) ls), buf')"
  using assms(2,3)
proof (induction ls arbitrary: buf)
  case (Cons l ls)
  then have c: "tile_get bm l t = Some (v l)" "cell_of shape key (tile_origin t) l (g l)" by simp_all
  note d = cell_coordinates [OF s c(2) Cons.prems(2)]
  have len: "length (local_of (g l)) = length shape" using c(2) in_shape_length by (simp add: cell_of_def)
  have rest: "\<forall>l \<in> set ls. tile_get bm l t = Some (v l) \<and> cell_of shape key (tile_origin t) l (g l)"
    using Cons.prems(1) by simp
  from Cons.IH [OF rest len] obtain buf' where "length buf' = length shape"
    "slice_tile bm (morton_new (length shape)) b t ls (local_of (g l)) =
       Some (map (\<lambda>l. (g l, v l)) (filter (\<lambda>l. bbox_contains b (g l)) ls), buf')"
    by blast
  then show ?case by (simp add: c(1) d)
qed simp

lemma slice_tile_hits:
  assumes bm: "bitmap_ok bm" and ok: "space_ok bm sp" and t: "(key, t) \<in> set (hc_tiles sp)"
    and buf: "length buf = length (hc_shape sp)"
  obtains rs buf' where
    "slice_tile bm (hc_encoder sp) b t (bm_iter bm (occupancy t)) buf = Some (rs, buf')"
    "length buf' = length (hc_shape sp)" "distinct (map fst rs)"
    "\<And>cs v. (cs, v) \<in> set rs \<longleftrightarrow> tile_hit bm (hc_shape sp) b (key, t) cs v"
proof -
  let ?sh = "hc_shape sp" and ?ls = "bm_iter bm (occupancy t)"
  let ?n = "length ?sh"
  have s: "shape_ok ?sh" and e: "hc_encoder sp = morton_new ?n" using ok by (simp_all add: space_ok_def)
  define v where "v l = the (tile_get bm l t)" for l
  have occ: "l \<in> set ?ls \<longleftrightarrow> bm_contains bm (occupancy t) l" for l using bitmap_okD(4) [OF bm] by blast
  have v: "tile_get bm l t = (if l \<in> set ?ls then Some (v l) else None)" for l
    using space_okD(1) [OF ok t] by (auto simp: v_def occ tile_get_def tile_ok_def)
  have "\<forall>l. \<exists>cs. l \<in> set ?ls \<longrightarrow> cell_of ?sh key (tile_origin t) l cs"
    using space_okD(3) [OF ok t] occ by blast
  then obtain g where g: "\<And>l. l \<in> set ?ls \<Longrightarrow> cell_of ?sh key (tile_origin t) l (g l)" by metis
  define rs where "rs = map (\<lambda>l. (g l, v l)) (filter (\<lambda>l. bbox_contains b (g l)) ?ls)"
  obtain buf' where sl: "length buf' = ?n" "slice_tile bm (hc_encoder sp) b t ?ls buf = Some (rs, buf')"
    using slice_tile_cells [OF s _ buf, of ?ls bm t v key g b] v g unfolding e rs_def by auto
  have inj: "inj_on g (set ?ls)" using g by (metis (no_types, lifting) cell_of_def inj_onI)
  have "distinct (map fst rs)"
    using inj bitmap_okD(3) [OF bm, of "occupancy t"]
    by (auto simp: rs_def distinct_map comp_def intro: inj_on_subset)
  moreover have "(cs, x) \<in> set rs \<longleftrightarrow> tile_hit bm ?sh b (key, t) cs x" for cs x
  proof
    assume "(cs, x) \<in> set rs"
    then obtain l where l: "l \<in> set ?ls" "bbox_contains b (g l)" "cs = g l" "x = v l" by (auto simp: rs_def)
    then show "tile_hit bm ?sh b (key, t) cs x" using g [OF l(1)] v [of l] by (simp add: tile_hit_def cell_of_def)
  next
    assume h: "tile_hit bm ?sh b (key, t) cs x"
    let ?l = "offset_of ?n cs"
    have l: "?l \<in> set ?ls" "x = v ?l" using h v [of ?l] by (auto simp: tile_hit_def split: if_splits)
    have "g ?l = cs"
      using g [OF l(1)] h in_shape_fits [OF s] by (intro place_inj [of ?n]) (auto simp: cell_of_def tile_hit_def)
    then show "(cs, x) \<in> set rs" using l h by (force simp: rs_def tile_hit_def)
  qed
  ultimately show thesis using that sl by blast
qed

text \<open>A cell inside the box makes its tile overlap the box.\<close>

lemma hit_overlaps:
  assumes ok: "space_ok bm sp" and t: "(key, t) \<in> set (hc_tiles sp)"
    and h: "tile_hit bm (hc_shape sp) b (key, t) cs v"
  shows "tile_overlaps (length (hc_shape sp)) b t"
proof -
  have orig: "tile_origin t = origin_of cs" using tile_at_key [OF ok] t h by (auto simp: tile_hit_def)
  have len: "length cs = length (hc_shape sp)" using h in_shape_length by (auto simp: tile_hit_def)
  have "\<not> (tile_origin t ! d + TILE_EDGE - 1 < min_coords b ! d \<or> max_coords b ! d < tile_origin t ! d)"
    if d: "d < length (hc_shape sp)" for d
  proof -
    have "min_coords b ! d \<le> cs ! d" "cs ! d \<le> max_coords b ! d"
      using h d len by (simp_all add: tile_hit_def bbox_contains_def list_all_iff)
    moreover have "tile_origin t ! d = cs ! d div 16 * 16" using d len by (simp add: orig origin_of_def TILE_EDGE_def)
    moreover have "cs ! d \<le> cs ! d div 16 * 16 + 15" "cs ! d div 16 * 16 \<le> cs ! d" by auto
    ultimately show ?thesis unfolding TILE_EDGE_def by linarith
  qed
  then show ?thesis by (simp add: tile_overlaps_def list_all_iff)
qed

lemma slice_tiles_hits:
  assumes bm: "bitmap_ok bm" and ok: "space_ok bm sp" and "length buf = length (hc_shape sp)"
    and "distinct (map fst ts)" "set ts \<subseteq> set (hc_tiles sp)"
  shows "\<exists>rs. slice_tiles bm (hc_encoder sp) b (map snd ts) buf = Some rs \<and> distinct (map fst rs) \<and>
    (\<forall>cs v. (cs, v) \<in> set rs \<longleftrightarrow> (\<exists>kt \<in> set ts. tile_hit bm (hc_shape sp) b kt cs v))"
  using assms(3-5)
proof (induction ts arbitrary: buf)
  case (Cons kt ts)
  obtain key t where kt: "kt = (key, t)" by (cases kt)
  then have t: "(key, t) \<in> set (hc_tiles sp)" using Cons.prems by simp
  show ?case
  proof (cases "tile_overlaps (length (hc_shape sp)) b t")
    case True
    obtain rs1 buf1 where r1: "slice_tile bm (hc_encoder sp) b t (bm_iter bm (occupancy t)) buf = Some (rs1, buf1)"
        "length buf1 = length (hc_shape sp)" "distinct (map fst rs1)"
        "\<And>cs v. (cs, v) \<in> set rs1 \<longleftrightarrow> tile_hit bm (hc_shape sp) b (key, t) cs v"
      using slice_tile_hits [OF bm ok t Cons.prems(1)] by metis
    obtain rs2 where r2: "slice_tiles bm (hc_encoder sp) b (map snd ts) buf1 = Some rs2" "distinct (map fst rs2)"
        "\<And>cs v. (cs, v) \<in> set rs2 \<longleftrightarrow> (\<exists>kt \<in> set ts. tile_hit bm (hc_shape sp) b kt cs v)"
      using Cons.IH [OF r1(2)] Cons.prems by auto
    have "fst ` set rs1 \<inter> fst ` set rs2 = {}"
      using Cons.prems(2) r1(4) r2(3) by (force simp: kt tile_hit_def)
    then show ?thesis
      using r1 r2 True Cons.prems(1) by (auto simp: kt)
  next
    case False
    then have "\<not> tile_hit bm (hc_shape sp) b kt cs v" for cs v using hit_overlaps [OF ok t] kt by blast
    then show ?thesis using Cons False by (auto simp: kt)
  qed
qed simp

lemma voxel_is_hit:
  assumes ok: "space_ok bm sp"
  shows "bbox_contains b cs \<and> get_voxel bm sp cs = Some (Some v) \<longleftrightarrow>
    (\<exists>kt \<in> set (hc_tiles sp). tile_hit bm (hc_shape sp) b kt cs v)"
proof (cases "coords_in_shape (hc_shape sp) cs")
  case True
  have d: "distinct (map fst (hc_tiles sp))" using ok by (simp add: space_ok_def)
  show ?thesis
    using get_voxel_cell [OF ok True] True d
    by (auto simp: tile_hit_def bind_eq_Some_conv Bex_def)
next
  case False
  then show ?thesis by (auto simp: get_out_of_shape tile_hit_def)
qed

section \<open>Snapshots and coordinates out of range\<close>

lemma set_voxel_keeps:
  "set_voxel bm zero cs v sp = Some (r, sp') \<Longrightarrow> hc_shape sp' = hc_shape sp \<and> hc_encoder sp' = hc_encoder sp"
  by (auto simp: set_voxel_def Let_def bind_eq_Some_conv split: if_splits)

lemma write_cells_keeps:
  "write_cells bm zero ws sp = Some sp' \<Longrightarrow> hc_shape sp' = hc_shape sp \<and> hc_encoder sp' = hc_encoder sp"
  by (induction ws arbitrary: sp) (auto simp: bind_eq_Some_conv dest!: set_voxel_keeps)

lemma snapshot_cell:
  assumes "hc_encoder sp = morton_new (length (hc_shape sp))"
  shows "snapshot_get_voxel bm (space_snapshot sp) cs = get_voxel bm sp cs"
  by (simp add: snapshot_get_voxel_def get_voxel_def space_snapshot_def split_tile_coord_parts assms
      origin_of_def local_of_def Let_def split: option.splits) (simp add: map_option_case split: option.splits)

text \<open>A Morton code depends on the low bits of the coordinates only.\<close>

lemma morton_encode_low:
  assumes "n \<le> 64" "length cs = n" "length cs' = n"
    and low: "\<And>j k. j < n \<Longrightarrow> k < bits_for n \<Longrightarrow> bit (cs ! j) k = bit (cs' ! j) k"
  shows "morton_encode (morton_new n) cs = morton_encode (morton_new n) cs'"
proof -
  obtain w where w: "morton_encode (morton_new n) cs = Some w"
    "\<And>p. bit w p \<longleftrightarrow> (\<exists>k < bits_for n. \<exists>j < n. p = k * n + j \<and> bit (cs ! j) k)"
    using morton_encode_bits [OF assms(1,2)] by metis
  obtain w' where w': "morton_encode (morton_new n) cs' = Some w'"
    "\<And>p. bit w' p \<longleftrightarrow> (\<exists>k < bits_for n. \<exists>j < n. p = k * n + j \<and> bit (cs' ! j) k)"
    using morton_encode_bits [OF assms(1,3)] by metis
  have "w = w'" by (rule bit_eqI) (use w(2) w'(2) low in blast)
  then show ?thesis using w(1) w'(1) by simp
qed

lemma morton_encode_total: "n \<le> 64 \<Longrightarrow> length cs = n \<Longrightarrow> \<exists>w. morton_encode (morton_new n) cs = Some w"
  by (metis morton_encode_bits)

lemma bits_for_sixteen: "n \<le> 16 \<Longrightarrow> 4 \<le> bits_for n \<or> n = 0"
proof -
  assume n: "n \<le> 16"
  show ?thesis
  proof (cases "n = 0")
    case False
    have "64 div 16 \<le> 64 div n" using n False by (intro div_le_mono2) auto
    then show ?thesis using False by (simp add: morton_new_def)
  qed simp
qed

lemma same_low_place:
  assumes "n \<le> 16" "length cs = n" "length cs' = n"
    and low: "map (take_bit (bits_for n)) cs = map (take_bit (bits_for n)) cs'"
  shows "local_of cs = local_of cs'"
    "morton_encode (morton_new n) (origin_of cs) = morton_encode (morton_new n) (origin_of cs')"
proof -
  have b: "bit (cs ! j) k = bit (cs' ! j) k" if "j < n" "k < bits_for n" for j k
  proof -
    have "take_bit (bits_for n) (cs ! j) = take_bit (bits_for n) (cs' ! j)"
      using low that(1) assms(2,3) by (metis nth_map)
    then show ?thesis using that(2) by (metis bit_take_bit_iff)
  qed
  have "cs ! j mod 16 = cs' ! j mod 16" if "j < n" for j
  proof -
    have "4 \<le> bits_for n" using bits_for_sixteen [OF assms(1)] that by auto
    then have "take_bit 4 (cs ! j) = take_bit 4 (cs' ! j)"
      using b [OF that] by (intro bit_eqI) (auto simp: bit_take_bit_iff)
    then show ?thesis by (simp add: take_bit_eq_mod)
  qed
  then show "local_of cs = local_of cs'"
    using assms(2,3) by (intro nth_equalityI) (auto simp: local_of_def TILE_EDGE_def)
  show "morton_encode (morton_new n) (origin_of cs) = morton_encode (morton_new n) (origin_of cs')"
  proof (rule morton_encode_low)
    show "bit (origin_of cs ! j) k = bit (origin_of cs' ! j) k" if "j < n" "k < bits_for n" for j k
      using that b [of j k] assms(2,3)
      by (simp add: origin_of_def tile_split(1) [symmetric] bit_push_bit_iff bit_drop_bit_eq cong: conj_cong)
  qed (use assms in auto)
qed

section \<open>Strides\<close>

lemma row_strides_product:
  "row_strides shape = Some ss \<Longrightarrow>
     length ss = length shape \<and> (\<forall>i < length shape. ss ! i = prod_list (drop (Suc i) shape))"
proof (induction shape arbitrary: ss rule: row_strides.induct)
  case (3 d d' ds)
  then obtain rest where r: "row_strides (d' # ds) = Some rest" "ss = hd rest * d' # rest"
    by (auto simp: bind_eq_Some_conv checked_mul_def split: if_splits)
  from "3.IH" [OF r(1)] have len: "length rest = Suc (length ds)"
    and nth: "\<And>i. i < Suc (length ds) \<Longrightarrow> rest ! i = prod_list (drop i ds)" by auto
  have "hd rest = prod_list ds" using nth [of 0] len by (cases rest) auto
  then show ?case using len nth r(2) by (auto simp: nth_Cons split: nat.split)
qed auto

section \<open>Properties\<close>

definition demo_cells :: "(coordinate_nd \<times> int) list" where
  "demo_cells = [([2, 1, 40], 7), ([2, 1, 40], 9), ([8, 4, 60], 0), ([99, 0, 0], 5)]"

lemma demo_shape: "shape_ok [10, 5, 180]" "bits_for 3 = 21"
  by (simp_all add: shape_ok_def morton_new_def)

lemma demo_space: "\<exists>sp :: (int, 32 word list) hypercube_tensor_space. space_new [10, 5, 180] = Some sp"
  by (simp add: space_new_def checked_mul_def u64_max_def)

lemma demo_accepted: "accepted [10, 5, 180] demo_cells = [([2, 1, 40], 7), ([2, 1, 40], 9), ([8, 4, 60], 0)]"
  by (simp add: accepted_def demo_cells_def coords_in_shape_def)

lemma space_after_writes:
  assumes "bitmap_ok bm" "shape_ok shape" "space_new shape = Some sp0"
  obtains sp where "write_cells bm zero ws sp0 = Some sp" "space_ok bm sp" "hc_shape sp = shape"
    "\<And>cs. get_voxel bm sp cs = Some (map_of (rev (accepted shape ws)) cs)"
proof -
  have "\<forall>cs. get_voxel bm sp0 cs = Some (Map.empty cs)" using new_space_empty [OF assms(3,2)] by simp
  from write_cells_ok [OF assms(1) space_new_ok(1) [OF assms(3,2)] this, of zero ws] space_new_ok(2) [OF assms(3,2)]
  show thesis using that by auto
qed

text \<open>
  C11. For up to eight dimensions and a shape whose coordinates fit the encoder, a tensor space is a
  finite map: after any sequence of writes, none of which gets stuck, reading a coordinate gives the
  value written to it last, and nothing where no write inside the shape went. Writes outside the
  shape are refused and change nothing.
\<close>

theorem space_refines_map:
  assumes "bitmap_ok bm" "shape_ok shape" "space_new shape = Some sp0"
  shows "\<exists>sp. write_cells bm zero ws sp0 = Some sp \<and>
    (\<forall>cs. get_voxel bm sp cs = Some (map_of (rev (filter (\<lambda>w. coords_in_shape shape (fst w)) ws)) cs))"
  using space_after_writes [OF assms, of zero ws] unfolding accepted_def by metis

theorem space_refines_map_witness:
  "\<exists>sp0 sp. space_new [10, 5, 180] = Some sp0 \<and> write_cells list_bitmap 0 demo_cells sp0 = Some sp \<and>
     get_voxel list_bitmap sp [2, 1, 40] = Some (Some 9) \<and> get_voxel list_bitmap sp [99, 0, 0] = Some None"
proof -
  obtain sp0 :: "(int, 32 word list) hypercube_tensor_space" where sp0: "space_new [10, 5, 180] = Some sp0"
    using demo_space by blast
  from space_refines_map [OF list_bitmap_ok demo_shape(1) this, of 0 demo_cells] sp0 show ?thesis
    by (fastforce simp: demo_cells_def coords_in_shape_def)
qed



text \<open>
  C23. After any writes every tile is well formed: its origin has one multiple of the tile edge for
  each dimension, it is filed under the Morton code of that origin, keys are unique, and every
  occupied offset is an index of its buffer.
\<close>

theorem tiles_well_formed:
  assumes "bitmap_ok bm" "shape_ok shape" "space_new shape = Some sp0" "write_cells bm zero ws sp0 = Some sp"
  shows "distinct (map fst (hc_tiles sp)) \<and> (\<forall>key t. (key, t) \<in> set (hc_tiles sp) \<longrightarrow>
    morton_encode (hc_encoder sp) (tile_origin t) = Some key \<and> length (tile_origin t) = length shape \<and>
    list_all (\<lambda>c. TILE_EDGE dvd c) (tile_origin t) \<and>
    (\<forall>l. bm_contains bm (occupancy t) l \<longrightarrow> unat l < length (dense_buffer t)))"
proof -
  have sp: "space_ok bm sp" "hc_shape sp = shape"
    using space_after_writes [OF assms(1-3), of zero ws] assms(4) by force+
  have "morton_encode (hc_encoder sp) (tile_origin t) = Some key \<and> length (tile_origin t) = length shape \<and>
      list_all (\<lambda>c. TILE_EDGE dvd c) (tile_origin t) \<and> tile_ok bm t" if t: "(key, t) \<in> set (hc_tiles sp)" for key t
  proof -
    obtain l cs where c: "cell_of shape key (tile_origin t) l cs" using space_okD(2) [OF sp(1) t] sp(2) by auto
    have "morton_encode (hc_encoder sp) (origin_of cs) = Some (key_of (length shape) cs)"
      using split_tile_cell(2) [OF sp(1), of cs] c sp(2) by (simp add: cell_of_def)
    moreover have "tile_origin t = origin_of cs" "key_of (length shape) cs = key" "length cs = length shape"
      using c in_shape_length by (auto simp: cell_of_def)
    ultimately show ?thesis using space_okD(1) [OF sp(1) t] by (simp add: origin_of_def list_all_iff)
  qed
  then show ?thesis using sp(1) unfolding tile_ok_def space_ok_def by blast
qed

theorem tiles_well_formed_witness:
  "\<exists>sp0 sp. space_new [10, 5, 180] = Some sp0 \<and> write_cells list_bitmap (0 :: int) demo_cells sp0 = Some sp \<and>
     distinct (map fst (hc_tiles sp))"
proof -
  obtain sp0 :: "(int, 32 word list) hypercube_tensor_space" where sp0: "space_new [10, 5, 180] = Some sp0"
    using demo_space by blast
  obtain sp where sp: "write_cells list_bitmap 0 demo_cells sp0 = Some sp"
    using space_after_writes [OF list_bitmap_ok demo_shape(1) sp0, of 0 demo_cells] by metis
  from tiles_well_formed [OF list_bitmap_ok demo_shape(1) sp0 sp] sp0 sp show ?thesis by blast
qed

text \<open>
  C24. Up to 64 dimensions, coordinates that fit the bits of the encoder are encoded and decoded
  without loss, whatever the buffer for the result held before.
\<close>

theorem morton_round_trip:
  assumes "length cs = n" "n \<le> 64" "\<forall>c \<in> set cs. c < 2 ^ bits_per_dim (morton_new n)" "length out = n"
  shows "\<exists>w. morton_encode (morton_new n) cs = Some w \<and> morton_decode (morton_new n) w out = Some cs"
proof -
  obtain w where "morton_encode (morton_new n) cs = Some w"
    "\<And>k j. k < bits_for n \<Longrightarrow> j < n \<Longrightarrow> bit w (k * n + j) \<longleftrightarrow> bit (cs ! j) k"
    using morton_encode_bits [OF assms(2,1)] by metis
  then show ?thesis using morton_decode_word [OF assms(2,1,4), of w] take_bit_small [OF assms(3)] by simp
qed

theorem morton_round_trip_witness:
  "\<exists>w. morton_encode (morton_new 4) [5, 12, 30, 42] = Some w \<and>
     morton_decode (morton_new 4) w [1, 1, 1, 1] = Some [5, 12, 30, 42]"
  by (rule morton_round_trip) (simp_all add: morton_new_def)

text \<open>
  A snapshot answers every read like the space it was taken from, out-of-range reads included,
  whatever the shape; the two compute tile and offset by different arithmetic.
\<close>

theorem snapshot_answers_like_space:
  assumes "space_new shape = Some sp0" "write_cells bm zero ws sp0 = Some sp"
  shows "snapshot_get_voxel bm (space_snapshot sp) cs = get_voxel bm sp cs"
  using write_cells_keeps [OF assms(2)] assms(1) by (intro snapshot_cell) (auto simp: space_new_def)

theorem snapshot_answers_like_space_witness:
  "\<exists>sp0 sp. space_new [10, 5, 180] = Some sp0 \<and> write_cells list_bitmap (0 :: int) demo_cells sp0 = Some sp \<and>
     snapshot_get_voxel list_bitmap (space_snapshot sp) [2, 1, 40] = Some (Some 9)"
proof -
  obtain sp0 :: "(int, 32 word list) hypercube_tensor_space" where sp0: "space_new [10, 5, 180] = Some sp0"
    using demo_space by blast
  obtain sp where sp: "write_cells list_bitmap 0 demo_cells sp0 = Some sp"
      "\<And>cs. get_voxel list_bitmap sp cs = Some (map_of (rev (accepted [10, 5, 180] demo_cells)) cs)"
    using space_after_writes [OF list_bitmap_ok demo_shape(1) sp0, of 0 demo_cells] by metis
  from snapshot_answers_like_space [OF sp0 sp(1), of "[2, 1, 40]"] sp0 sp(1) show ?thesis
    by (auto simp: sp(2) demo_accepted)
qed

text \<open>
  C32. Coordinates that the shape admits but the encoder cannot hold share a cell: in a space of up
  to sixteen dimensions a value written at one coordinate is read back at every other coordinate of
  the shape that agrees with it on the encoded bits. With four dimensions these are the coordinates
  65536 apart.
\<close>

theorem coordinates_share_cells:
  assumes "bitmap_ok bm" "space_new shape = Some sp" "length shape \<le> 16"
    and "coords_in_shape shape cs" "coords_in_shape shape cs'"
    and "map (take_bit (bits_per_dim (morton_new (length shape)))) cs =
         map (take_bit (bits_per_dim (morton_new (length shape)))) cs'"
  shows "\<exists>sp'. set_voxel bm zero cs v sp = Some (Inr (), sp') \<and> get_voxel bm sp' cs' = Some (Some v)"
proof -
  have sp: "hc_shape sp = shape" "hc_encoder sp = morton_new (length shape)" "hc_tiles sp = []"
    using assms(2) by (auto simp: space_new_def)
  have len: "length cs = length shape" "length cs' = length shape" "length shape \<le> 64"
    using assms(3-5) in_shape_length by auto
  note same = same_low_place [OF assms(3) len(1,2) assms(6)]
  obtain w where w: "morton_encode (morton_new (length shape)) (local_of cs) = Some w"
    using morton_encode_total [OF len(3), of "local_of cs"] len(1) by auto
  obtain key where key: "morton_encode (morton_new (length shape)) (origin_of cs) = Some key"
    using morton_encode_total [OF len(3), of "origin_of cs"] len(1) by auto
  have "tile_get bm (ucast w) (tile_set bm zero (ucast w) v (tile_new bm zero (origin_of cs) (tile_capacity sp))) = Some v"
    by (simp add: tile_get_set tile_new_ok assms(1))
  then show ?thesis
    using assms(4,5) len sp w key same
    by (simp add: set_voxel_def get_voxel_def split_tile_coord_parts Let_def)
qed

theorem coordinates_share_cells_witness:
  "\<exists>sp sp'. space_new [65537, 1, 1, 1] = Some sp \<and>
     set_voxel list_bitmap (0 :: int) [65536, 0, 0, 0] 7 sp = Some (Inr (), sp') \<and>
     get_voxel list_bitmap sp' [0, 0, 0, 0] = Some (Some 7)"
proof -
  have "\<exists>sp :: (int, 32 word list) hypercube_tensor_space. space_new [65537, 1, 1, 1] = Some sp"
    by (simp add: space_new_def checked_mul_def u64_max_def)
  then obtain sp :: "(int, 32 word list) hypercube_tensor_space" where sp: "space_new [65537, 1, 1, 1] = Some sp" ..
  have b: "bits_for (length [65537 :: nat, 1, 1, 1]) = 16" by (simp add: morton_new_def)
  have "map (take_bit (bits_for (length [65537 :: nat, 1, 1, 1]))) [65536, 0, 0, 0] =
      map (take_bit (bits_for (length [65537 :: nat, 1, 1, 1]))) [0, 0, 0, 0 :: nat]"
    unfolding b by (simp add: take_bit_eq_mod)
  from coordinates_share_cells [OF list_bitmap_ok sp _ _ _ this, of 0 7] sp show ?thesis
    by (auto simp: coords_in_shape_def)
qed

end
