(* ===== verification/Vector_Segments.thy ===== *)
theory Vector_Segments
  imports Complex_Main Bitmap Wal "HOL-Library.Char_ord" "HOL-Library.List_Lexorder"
begin

text \<open>
  The segmented vector engine of \<^verbatim>\<open>src/src/storage/segment.rs\<close>: the mutable segment, frozen
  segments, upserts and deletes with rotation, compaction, search, snapshots and recovery from the
  write-ahead log.

  A frozen segment is shared between the engine and its snapshots, and its tombstones change behind
  the shared pointer; \<open>se_heap\<close> is the store of frozen segments, a pointer is the segment number.
  The vector type with its dimension and score, the Rivero index and the proof tree are arguments,
  collected in \<open>vector_ops\<close>; scores are compared by a linear order as \<^verbatim>\<open>total_cmp\<close> does. An index
  outside a vector panics, the value \<open>None\<close>. The write-ahead log is the model of theory \<open>Wal\<close>.
  The permits drawn from the I/O budget are discarded by the code and left out.
\<close>

section \<open>Arguments\<close>

record ('v, 'f, 'x, 'p) vector_ops =
  v_dimension :: "'v \<Rightarrow> nat"
  v_score :: "'v \<Rightarrow> 'v \<Rightarrow> 'f"
  v_normalized :: "'v \<Rightarrow> 'v"
  ri_new :: 'x
  ri_insert :: "nat \<Rightarrow> 'v \<Rightarrow> 32 word \<Rightarrow> 'x \<Rightarrow> 'x"
  ri_candidates :: "nat \<Rightarrow> 'v \<Rightarrow> 'x \<Rightarrow> 32 word list"
  pt_build :: "'v list \<Rightarrow> 32 word list \<Rightarrow> nat \<Rightarrow> 'p"
  pt_search :: "'v \<Rightarrow> nat \<Rightarrow> 'p \<Rightarrow> 'v list \<Rightarrow> (32 word \<Rightarrow> bool) \<Rightarrow> 32 word list \<Rightarrow> (32 word \<times> 'f) list"

datatype retrieval_contract =
    Exact
  | Certified
  | PacRelaxed rat rat
  | HighRecall rat
  | Budget nat
  | MultiVectorMaxSim nat nat

datatype semantic_rerank_plan = Auto | ExactSimd | LutzFastScan

section \<open>Ranking\<close>

text \<open>The comparison of the sorts: score descending, then slot or identifier ascending.\<close>

definition ranks_before :: "'k::linorder \<times> 'f::linorder \<Rightarrow> 'k \<times> 'f \<Rightarrow> bool" where
  "ranks_before a b \<longleftrightarrow> snd b < snd a \<or> snd a = snd b \<and> fst a \<le> fst b"

fun insert_ranked :: "'k::linorder \<times> 'f::linorder \<Rightarrow> ('k \<times> 'f) list \<Rightarrow> ('k \<times> 'f) list" where
  "insert_ranked a [] = [a]"
| "insert_ranked a (b # bs) = (if ranks_before a b then a # b # bs else b # insert_ranked a bs)"

definition ranked :: "('k::linorder \<times> 'f::linorder) list \<Rightarrow> ('k \<times> 'f) list" where
  "ranked xs = foldr insert_ranked xs []"

definition nth_opt :: "'a list \<Rightarrow> nat \<Rightarrow> 'a option" where
  "nth_opt xs i = (if i < length xs then Some (xs ! i) else None)"

fun all_some :: "'a option list \<Rightarrow> 'a list option" where
  "all_some [] = Some []"
| "all_some (x # xs) = do { y \<leftarrow> x; ys \<leftarrow> all_some xs; Some (y # ys) }"

text \<open>Scoring candidate slots, cutting to the first \<open>k\<close> and naming them.\<close>

definition score_slots ::
  "('v, 'f, 'x, 'p) vector_ops \<Rightarrow> 'v \<Rightarrow> 'v list \<Rightarrow> 32 word list \<Rightarrow> (32 word \<times> 'f) list option" where
  "score_slots vo q vs slots =
     all_some (map (\<lambda>s. map_option (\<lambda>v. (s, v_score vo q v)) (nth_opt vs (unat s))) slots)"

definition name_slots :: "string list \<Rightarrow> (32 word \<times> 'f) list \<Rightarrow> (string \<times> 'f) list option" where
  "name_slots names xs = all_some (map (\<lambda>(s, f). map_option (\<lambda>i. (i, f)) (nth_opt names (unat s))) xs)"

definition top_slots ::
  "('v, 'f::linorder, 'x, 'p) vector_ops \<Rightarrow> 'v \<Rightarrow> nat \<Rightarrow> 'v list \<Rightarrow> string list \<Rightarrow> 32 word list \<Rightarrow>
     (string \<times> 'f) list option" where
  "top_slots vo q k vs names slots =
     do { xs \<leftarrow> score_slots vo q vs slots; name_slots names (take k (ranked xs)) }"

text \<open>The slots below \<open>n\<close> as 32-bit numbers, without the tombstoned ones.\<close>

definition live_slots :: "'b bitmap_ops \<Rightarrow> 'b \<Rightarrow> nat \<Rightarrow> 32 word list" where
  "live_slots bm tombs n =
     filter (\<lambda>s. \<not> bm_contains bm tombs s) (map word_of_nat [0..<unat (word_of_nat n :: 32 word)])"

section \<open>The mutable segment\<close>

record ('v, 'x, 'b) mutable_segment =
  ms_id :: nat
  ms_dimension :: nat
  ms_max_capacity :: nat
  ms_vectors :: "'v list"
  ms_id_to_slot :: "string \<rightharpoonup> 32 word"
  ms_slot_to_id :: "string list"
  ms_tombstones :: 'b
  ms_territories :: 'x

definition ms_new ::
  "'b bitmap_ops \<Rightarrow> ('v, 'f, 'x, 'p) vector_ops \<Rightarrow> nat \<Rightarrow> nat \<Rightarrow> nat \<Rightarrow> ('v, 'x, 'b) mutable_segment" where
  "ms_new bm vo i dm cap =
     \<lparr>ms_id = i, ms_dimension = dm, ms_max_capacity = cap, ms_vectors = [], ms_id_to_slot = Map.empty,
      ms_slot_to_id = [], ms_tombstones = bm_new bm, ms_territories = ri_new vo\<rparr>"

definition ms_insert ::
  "'b bitmap_ops \<Rightarrow> ('v, 'f, 'x, 'p) vector_ops \<Rightarrow> string \<Rightarrow> 'v \<Rightarrow> ('v, 'x, 'b) mutable_segment \<Rightarrow>
     32 word res \<times> ('v, 'x, 'b) mutable_segment" where
  "ms_insert bm vo i v s =
     (if v_dimension vo v \<noteq> ms_dimension s
      then (Inl (DimensionMismatch (ms_dimension s) (v_dimension vo v)), s)
      else if ms_max_capacity s \<le> length (ms_vectors s) then (Inl (IndexFull (ms_max_capacity s)), s)
      else
        let tombs = (case ms_id_to_slot s i of
                       None \<Rightarrow> ms_tombstones s | Some old \<Rightarrow> bm_insert bm old (ms_tombstones s));
            slot = word_of_nat (length (ms_vectors s)) in
        (Inr slot,
         s\<lparr>ms_tombstones := tombs, ms_territories := ri_insert vo (ms_dimension s) v slot (ms_territories s),
           ms_slot_to_id := ms_slot_to_id s @ [i], ms_id_to_slot := (ms_id_to_slot s)(i \<mapsto> slot),
           ms_vectors := ms_vectors s @ [v]\<rparr>))"

definition ms_delete ::
  "'b bitmap_ops \<Rightarrow> string \<Rightarrow> ('v, 'x, 'b) mutable_segment \<Rightarrow> bool \<times> ('v, 'x, 'b) mutable_segment" where
  "ms_delete bm i s =
     (case ms_id_to_slot s i of
        Some slot \<Rightarrow> (True, s\<lparr>ms_tombstones := bm_insert bm slot (ms_tombstones s)\<rparr>)
      | None \<Rightarrow> (False, s))"

definition ms_is_full :: "('v, 'x, 'b) mutable_segment \<Rightarrow> bool" where
  "ms_is_full s \<longleftrightarrow> ms_max_capacity s \<le> length (ms_vectors s)"

definition ms_search ::
  "'b bitmap_ops \<Rightarrow> ('v, 'f::linorder, 'x, 'p) vector_ops \<Rightarrow> 'v \<Rightarrow> nat \<Rightarrow> semantic_rerank_plan \<Rightarrow>
     ('v, 'x, 'b) mutable_segment \<Rightarrow> (string \<times> 'f) list option" where
  "ms_search bm vo q k plan s =
     (if k = 0 \<or> ms_vectors s = [] then Some []
      else top_slots vo q k (ms_vectors s) (ms_slot_to_id s)
             (filter (\<lambda>c. unat c < length (ms_vectors s) \<and> \<not> bm_contains bm (ms_tombstones s) c)
                (ri_candidates vo (ms_dimension s) q (ms_territories s))))"

definition ms_search_with_contract ::
  "'b bitmap_ops \<Rightarrow> ('v, 'f::linorder, 'x, 'p) vector_ops \<Rightarrow> 'v \<Rightarrow> nat \<Rightarrow> retrieval_contract \<Rightarrow>
     ('v, 'x, 'b) mutable_segment \<Rightarrow> (string \<times> 'f) list option" where
  "ms_search_with_contract bm vo q k contract s =
     (if k = 0 \<or> ms_vectors s = [] then Some []
      else if contract = Exact \<or> contract = Certified
      then top_slots vo q k (ms_vectors s) (ms_slot_to_id s)
             (live_slots bm (ms_tombstones s) (length (ms_vectors s)))
      else ms_search bm vo q k Auto s)"

section \<open>Statistics\<close>

datatype segment_state = ActiveMutable | FlushedImmutable | Compacted

record segment_stats =
  st_segment_id :: nat
  st_state :: segment_state
  live_vectors :: nat
  deleted_vectors :: nat
  st_capacity :: nat
  memory_bytes :: nat

definition ms_stats :: "'b bitmap_ops \<Rightarrow> ('v, 'x, 'b) mutable_segment \<Rightarrow> segment_stats" where
  "ms_stats bm s =
     (let tot = length (ms_vectors s); deleted = length (bm_iter bm (ms_tombstones s)) in
      \<lparr>st_segment_id = ms_id s, st_state = ActiveMutable, live_vectors = tot - deleted,
       deleted_vectors = deleted, st_capacity = ms_max_capacity s,
       memory_bytes = tot * (ms_dimension s * 8 + 64)\<rparr>)"

section \<open>Frozen segments\<close>

record ('v, 'x, 'b, 'p) immutable_segment =
  is_id :: nat
  is_dimension :: nat
  is_vectors :: "'v list"
  is_id_to_slot :: "string \<rightharpoonup> 32 word"
  is_slot_to_id :: "string list"
  is_tombstones :: 'b
  is_territories :: 'x
  is_proof_tree :: 'p

text \<open>A fresh index over the given slots.\<close>

fun index_slots ::
  "('v, 'f, 'x, 'p) vector_ops \<Rightarrow> nat \<Rightarrow> 'v list \<Rightarrow> 32 word list \<Rightarrow> 'x \<Rightarrow> 'x option" where
  "index_slots vo dm vs [] x = Some x"
| "index_slots vo dm vs (s # ss) x =
     do { v \<leftarrow> nth_opt vs (unat s); index_slots vo dm vs ss (ri_insert vo dm v s x) }"

definition freeze ::
  "'b bitmap_ops \<Rightarrow> ('v, 'f, 'x, 'p) vector_ops \<Rightarrow> ('v, 'x, 'b) mutable_segment \<Rightarrow>
     ('v, 'x, 'b, 'p) immutable_segment option" where
  "freeze bm vo s =
     (let slots = live_slots bm (ms_tombstones s) (length (ms_vectors s)) in
      do { x \<leftarrow> index_slots vo (ms_dimension s) (ms_vectors s) slots (ri_new vo);
           Some \<lparr>is_id = ms_id s, is_dimension = ms_dimension s, is_vectors = ms_vectors s,
             is_id_to_slot = ms_id_to_slot s, is_slot_to_id = ms_slot_to_id s,
             is_tombstones = ms_tombstones s, is_territories = x,
             is_proof_tree = pt_build vo (ms_vectors s) slots (ms_dimension s)\<rparr> })"

definition is_delete ::
  "'b bitmap_ops \<Rightarrow> string \<Rightarrow> ('v, 'x, 'b, 'p) immutable_segment \<Rightarrow>
     bool \<times> ('v, 'x, 'b, 'p) immutable_segment" where
  "is_delete bm i s =
     (case is_id_to_slot s i of
        Some slot \<Rightarrow> (True, s\<lparr>is_tombstones := bm_insert bm slot (is_tombstones s)\<rparr>)
      | None \<Rightarrow> (False, s))"

definition is_stats :: "'b bitmap_ops \<Rightarrow> ('v, 'x, 'b, 'p) immutable_segment \<Rightarrow> segment_stats" where
  "is_stats bm s =
     (let tot = length (is_vectors s); deleted = length (bm_iter bm (is_tombstones s)) in
      \<lparr>st_segment_id = is_id s, st_state = FlushedImmutable, live_vectors = tot - deleted,
       deleted_vectors = deleted, st_capacity = tot,
       memory_bytes = tot * (is_dimension s * 8 + 64)\<rparr>)"

definition is_candidates ::
  "'b bitmap_ops \<Rightarrow> ('v, 'f, 'x, 'p) vector_ops \<Rightarrow> 'v \<Rightarrow> ('v, 'x, 'b, 'p) immutable_segment \<Rightarrow> 32 word list" where
  "is_candidates bm vo q s =
     filter (\<lambda>c. \<not> bm_contains bm (is_tombstones s) c)
       (ri_candidates vo (is_dimension s) q (is_territories s))"

definition is_search ::
  "'b bitmap_ops \<Rightarrow> ('v, 'f::linorder, 'x, 'p) vector_ops \<Rightarrow> 'v \<Rightarrow> nat \<Rightarrow> semantic_rerank_plan \<Rightarrow>
     ('v, 'x, 'b, 'p) immutable_segment \<Rightarrow> (string \<times> 'f) list option" where
  "is_search bm vo q k plan s =
     (if k = 0 \<or> is_vectors s = [] then Some []
      else top_slots vo q k (is_vectors s) (is_slot_to_id s) (is_candidates bm vo q s))"

definition is_search_with_contract ::
  "'b bitmap_ops \<Rightarrow> ('v, 'f::linorder, 'x, 'p) vector_ops \<Rightarrow> 'v \<Rightarrow> nat \<Rightarrow> retrieval_contract \<Rightarrow>
     ('v, 'x, 'b, 'p) immutable_segment \<Rightarrow> (string \<times> 'f) list option" where
  "is_search_with_contract bm vo q k contract s =
     (if k = 0 \<or> is_vectors s = [] then Some []
      else if contract = Exact
      then top_slots vo q k (is_vectors s) (is_slot_to_id s)
             (live_slots bm (is_tombstones s) (length (is_vectors s)))
      else if contract = Certified
      then name_slots (is_slot_to_id s)
             (pt_search vo (v_normalized vo q) k (is_proof_tree s) (is_vectors s)
                (bm_contains bm (is_tombstones s)) (is_candidates bm vo (v_normalized vo q) s))
      else is_search bm vo q k Auto s)"

section \<open>The engine\<close>

type_synonym 'd metadata = "string \<rightharpoonup> 'd"

record ('v, 'x, 'b, 'p, 'd) segmented_engine =
  se_dimension :: nat
  max_mutable_capacity :: nat
  next_segment_id :: nat
  se_generation :: nat
  active_mutable :: "('v, 'x, 'b) mutable_segment"
  immutable_segments :: "nat list"
  se_heap :: "nat \<rightharpoonup> ('v, 'x, 'b, 'p) immutable_segment"
  metadata_store :: "string \<rightharpoonup> 'd metadata"
  se_wal :: "wal_manager option"
  wal_durability :: durability_policy

definition se_new ::
  "'b bitmap_ops \<Rightarrow> ('v, 'f, 'x, 'p) vector_ops \<Rightarrow> nat \<Rightarrow> nat \<Rightarrow> ('v, 'x, 'b, 'p, 'd) segmented_engine" where
  "se_new bm vo dm cap =
     \<lparr>se_dimension = dm, max_mutable_capacity = cap, next_segment_id = 2, se_generation = 1,
      active_mutable = ms_new bm vo 1 dm cap, immutable_segments = [], se_heap = Map.empty,
      metadata_store = Map.empty, se_wal = None, wal_durability = WalSync\<rparr>"

definition active_generation :: "('v, 'x, 'b, 'p, 'd) segmented_engine \<Rightarrow> nat" where
  "active_generation e = se_generation e"

definition set_wal ::
  "wal_manager \<Rightarrow> durability_policy \<Rightarrow> ('v, 'x, 'b, 'p, 'd) segmented_engine \<Rightarrow>
     ('v, 'x, 'b, 'p, 'd) segmented_engine" where
  "set_wal w policy e = e\<lparr>se_wal := Some w, wal_durability := policy\<rparr>"

text \<open>Marks an identifier in the frozen segments the pointers name.\<close>

fun delete_frozen ::
  "'b bitmap_ops \<Rightarrow> string \<Rightarrow> nat list \<Rightarrow> (nat \<rightharpoonup> ('v, 'x, 'b, 'p) immutable_segment) \<Rightarrow>
     bool \<times> (nat \<rightharpoonup> ('v, 'x, 'b, 'p) immutable_segment)" where
  "delete_frozen bm i [] h = (False, h)"
| "delete_frozen bm i (r # rs) h =
     (case h r of
        None \<Rightarrow> delete_frozen bm i rs h
      | Some s \<Rightarrow>
          (case is_delete bm i s of (hit, s') \<Rightarrow>
             (case delete_frozen bm i rs (h(r \<mapsto> s')) of (found, h') \<Rightarrow> (hit \<or> found, h'))))"

definition delete_internal ::
  "'b bitmap_ops \<Rightarrow> string \<Rightarrow> ('v, 'x, 'b, 'p, 'd) segmented_engine \<Rightarrow>
     bool \<times> ('v, 'x, 'b, 'p, 'd) segmented_engine" where
  "delete_internal bm i e =
     (case ms_delete bm i (active_mutable e) of (hit, a) \<Rightarrow>
        (case delete_frozen bm i (immutable_segments e) (se_heap e) of (found, h) \<Rightarrow>
           (hit \<or> found, e\<lparr>active_mutable := a, se_heap := h\<rparr>)))"

definition rotate_active ::
  "'b bitmap_ops \<Rightarrow> ('v, 'f, 'x, 'p) vector_ops \<Rightarrow> ('v, 'x, 'b, 'p, 'd) segmented_engine \<Rightarrow>
     ('v, 'x, 'b, 'p, 'd) segmented_engine option" where
  "rotate_active bm vo e =
     do { frozen \<leftarrow> freeze bm vo (active_mutable e);
          Some (e\<lparr>se_heap := (se_heap e)(is_id frozen \<mapsto> frozen),
                  immutable_segments := immutable_segments e @ [is_id frozen],
                  next_segment_id := next_segment_id e + 1,
                  active_mutable := ms_new bm vo (next_segment_id e) (se_dimension e) (max_mutable_capacity e)\<rparr>) }"

text \<open>The insertion into the active segment, with one rotation when it is full.\<close>

definition insert_active ::
  "'b bitmap_ops \<Rightarrow> ('v, 'f, 'x, 'p) vector_ops \<Rightarrow> string \<Rightarrow> 'v \<Rightarrow> ('v, 'x, 'b, 'p, 'd) segmented_engine \<Rightarrow>
     (unit res \<times> ('v, 'x, 'b, 'p, 'd) segmented_engine) option" where
  "insert_active bm vo i v e =
     (case ms_insert bm vo i v (active_mutable e) of
        (Inr slot, a) \<Rightarrow> Some (Inr (), e\<lparr>active_mutable := a\<rparr>)
      | (Inl (IndexFull n), a) \<Rightarrow>
          do { e1 \<leftarrow> rotate_active bm vo e;
               case ms_insert bm vo i v (active_mutable e1) of
                 (Inr slot, a1) \<Rightarrow> Some (Inr (), e1\<lparr>active_mutable := a1\<rparr>)
               | (Inl err, a1) \<Rightarrow> Some (Inl err, e1\<lparr>active_mutable := a1\<rparr>) }
      | (Inl err, a) \<Rightarrow> Some (Inl err, e\<lparr>active_mutable := a\<rparr>))"

definition apply_upsert_unlogged ::
  "'b bitmap_ops \<Rightarrow> ('v, 'f, 'x, 'p) vector_ops \<Rightarrow> string \<Rightarrow> 'v \<Rightarrow> ('v, 'x, 'b, 'p, 'd) segmented_engine \<Rightarrow>
     (unit res \<times> ('v, 'x, 'b, 'p, 'd) segmented_engine) option" where
  "apply_upsert_unlogged bm vo i v e = insert_active bm vo i v (snd (delete_internal bm i e))"

definition apply_committed_upsert ::
  "'b bitmap_ops \<Rightarrow> ('v, 'f, 'x, 'p) vector_ops \<Rightarrow> string \<Rightarrow> 'v \<Rightarrow> 'd metadata option \<Rightarrow>
     ('v, 'x, 'b, 'p, 'd) segmented_engine \<Rightarrow> (unit res \<times> ('v, 'x, 'b, 'p, 'd) segmented_engine) option" where
  "apply_committed_upsert bm vo i v md e =
     do { (r, e1) \<leftarrow> apply_upsert_unlogged bm vo i v e;
          case r of
            Inl err \<Rightarrow> Some (Inl err, e1)
          | Inr _ \<Rightarrow> Some (Inr (), (case md of None \<Rightarrow> e1
                      | Some meta \<Rightarrow> e1\<lparr>metadata_store := (metadata_store e1)(i \<mapsto> meta)\<rparr>)) }"

definition apply_committed_metadata_patch ::
  "string \<Rightarrow> 'd metadata \<Rightarrow> ('v, 'x, 'b, 'p, 'd) segmented_engine \<Rightarrow> ('v, 'x, 'b, 'p, 'd) segmented_engine" where
  "apply_committed_metadata_patch i patch e =
     e\<lparr>metadata_store := (metadata_store e)
         (i \<mapsto> (case metadata_store e i of None \<Rightarrow> Map.empty | Some m \<Rightarrow> m) ++ patch)\<rparr>"

definition get_metadata :: "('v, 'x, 'b, 'p, 'd) segmented_engine \<Rightarrow> string \<Rightarrow> 'd metadata option" where
  "get_metadata e i = metadata_store e i"

definition apply_delete_unlogged ::
  "'b bitmap_ops \<Rightarrow> string \<Rightarrow> ('v, 'x, 'b, 'p, 'd) segmented_engine \<Rightarrow>
     bool \<times> ('v, 'x, 'b, 'p, 'd) segmented_engine" where
  "apply_delete_unlogged bm i e = delete_internal bm i (e\<lparr>metadata_store := (metadata_store e)(i := None)\<rparr>)"

text \<open>The metadata of a logged upsert is an association list with one entry per key.\<close>

fun apply_wal_mutation ::
  "'b bitmap_ops \<Rightarrow> ('v, 'f, 'x, 'p) vector_ops \<Rightarrow> ('v, 'd) wal_mutation \<Rightarrow>
     ('v, 'x, 'b, 'p, 'd) segmented_engine \<Rightarrow> (unit res \<times> ('v, 'x, 'b, 'p, 'd) segmented_engine) option" where
  "apply_wal_mutation bm vo (WalUpsert i v md) e = apply_committed_upsert bm vo i v (map_option map_of md) e"
| "apply_wal_mutation bm vo (WalDelete i) e = Some (Inr (), snd (apply_delete_unlogged bm i e))"
| "apply_wal_mutation bm vo (WalMetadataUpdate i md) e = Some (Inr (), e)"
| "apply_wal_mutation bm vo (WalCheckpoint l g) e = Some (Inr (), e)"
| "apply_wal_mutation bm vo (WalClusterState t bs) e = Some (Inr (), e)"

section \<open>Logged writes\<close>

definition se_insert ::
  "'b bitmap_ops \<Rightarrow> ('v, 'f, 'x, 'p) vector_ops \<Rightarrow> ('v, 'd) wal_mutation wal_codec \<Rightarrow> string \<Rightarrow> 'v \<Rightarrow>
     ('v, 'x, 'b, 'p, 'd) segmented_engine \<Rightarrow> (unit res \<times> ('v, 'x, 'b, 'p, 'd) segmented_engine) option" where
  "se_insert bm vo cd i v e =
     (case se_wal e of
        None \<Rightarrow> apply_upsert_unlogged bm vo i v e
      | Some w \<Rightarrow>
          do { (r, w') \<leftarrow> wal_append cd (WalUpsert i v None) (wal_durability e) w;
               case r of
                 Inl err \<Rightarrow> Some (Inl err, e\<lparr>se_wal := Some w'\<rparr>)
               | Inr lsn \<Rightarrow> apply_upsert_unlogged bm vo i v (e\<lparr>se_wal := Some w'\<rparr>) })"

text \<open>A failed append of a deletion is ignored.\<close>

definition se_delete ::
  "'b bitmap_ops \<Rightarrow> ('v, 'd) wal_mutation wal_codec \<Rightarrow> string \<Rightarrow> ('v, 'x, 'b, 'p, 'd) segmented_engine \<Rightarrow>
     (bool \<times> ('v, 'x, 'b, 'p, 'd) segmented_engine) option" where
  "se_delete bm cd i e =
     (case se_wal e of
        None \<Rightarrow> Some (delete_internal bm i e)
      | Some w \<Rightarrow>
          do { (r, w') \<leftarrow> wal_append cd (WalDelete i) (wal_durability e) w;
               Some (delete_internal bm i (e\<lparr>se_wal := Some w'\<rparr>)) })"

text \<open>
  The replay callback; the engine is \<open>None\<close> once an application has panicked, and the replay then
  stops for good.
\<close>

definition replay_apply ::
  "'b bitmap_ops \<Rightarrow> ('v, 'f, 'x, 'p) vector_ops \<Rightarrow> nat \<Rightarrow> ('v, 'd) wal_mutation \<Rightarrow>
     (('v, 'x, 'b, 'p, 'd) segmented_engine \<times> nat) option \<Rightarrow>
     unit res \<times> (('v, 'x, 'b, 'p, 'd) segmented_engine \<times> nat) option" where
  "replay_apply bm vo lsn x s =
     (case Option.bind s (\<lambda>(e, n). map_option (\<lambda>(r, e'). (r, e', n)) (apply_wal_mutation bm vo x e)) of
        None \<Rightarrow> (Inl (Internal ''panic''), None)
      | Some (Inl err, e', n) \<Rightarrow> (Inl err, Some (e', n))
      | Some (Inr _, e', n) \<Rightarrow> (Inr (), Some (e', n + 1)))"

definition recover_from_wal ::
  "'b bitmap_ops \<Rightarrow> ('v, 'f, 'x, 'p) vector_ops \<Rightarrow> ('v, 'd) wal_mutation wal_codec \<Rightarrow>
     ('v, 'x, 'b, 'p, 'd) segmented_engine \<Rightarrow> (nat res \<times> ('v, 'x, 'b, 'p, 'd) segmented_engine) option" where
  "recover_from_wal bm vo cd e =
     (case se_wal e of
        None \<Rightarrow> Some (Inr 0, e)
      | Some w \<Rightarrow>
          (case wal_replay cd 0 (replay_apply bm vo) (Some (e, 0)) w of
             (r, None, w') \<Rightarrow> None
           | (Inl err, Some (e', n), w') \<Rightarrow> Some (Inl err, e'\<lparr>se_wal := Some w'\<rparr>)
           | (Inr sm, Some (e', n), w') \<Rightarrow> Some (Inr n, e'\<lparr>se_wal := Some w'\<rparr>)))"

section \<open>Compaction\<close>

text \<open>
  The merge of frozen segments, newest first: the identifiers kept so far with their vectors. The
  counting pass of the code visits the same slots in the same order and keeps the same identifiers.
\<close>

record ('v, 'x) merge_state =
  mg_vectors :: "'v list"
  mg_id_to_slot :: "string \<rightharpoonup> 32 word"
  mg_slot_to_id :: "string list"
  mg_territories :: 'x
  mg_purged :: nat

definition merge_slot ::
  "'b bitmap_ops \<Rightarrow> ('v, 'f, 'x, 'p) vector_ops \<Rightarrow> nat \<Rightarrow> ('v, 'x, 'b, 'p) immutable_segment \<Rightarrow> nat \<Rightarrow>
     ('v, 'x) merge_state \<Rightarrow> ('v, 'x) merge_state option" where
  "merge_slot bm vo dm s k g =
     (if bm_contains bm (is_tombstones s) (word_of_nat k) then Some (g\<lparr>mg_purged := mg_purged g + 1\<rparr>)
      else do { i \<leftarrow> nth_opt (is_slot_to_id s) k; v \<leftarrow> nth_opt (is_vectors s) k;
        if i \<in> set (mg_slot_to_id g) then Some (g\<lparr>mg_purged := mg_purged g + 1\<rparr>)
        else
          let slot = word_of_nat (length (mg_vectors g)) in
          Some (g\<lparr>mg_id_to_slot := (mg_id_to_slot g)(i \<mapsto> slot), mg_slot_to_id := mg_slot_to_id g @ [i],
                  mg_territories := ri_insert vo dm v slot (mg_territories g),
                  mg_vectors := mg_vectors g @ [v]\<rparr>) })"

fun merge_slots ::
  "'b bitmap_ops \<Rightarrow> ('v, 'f, 'x, 'p) vector_ops \<Rightarrow> nat \<Rightarrow> ('v, 'x, 'b, 'p) immutable_segment \<Rightarrow> nat list \<Rightarrow>
     ('v, 'x) merge_state \<Rightarrow> ('v, 'x) merge_state option" where
  "merge_slots bm vo dm s [] g = Some g"
| "merge_slots bm vo dm s (k # ks) g = Option.bind (merge_slot bm vo dm s k g) (merge_slots bm vo dm s ks)"

fun merge_segments ::
  "'b bitmap_ops \<Rightarrow> ('v, 'f, 'x, 'p) vector_ops \<Rightarrow> nat \<Rightarrow> ('v, 'x, 'b, 'p) immutable_segment list \<Rightarrow>
     ('v, 'x) merge_state \<Rightarrow> ('v, 'x) merge_state option" where
  "merge_segments bm vo dm [] g = Some g"
| "merge_segments bm vo dm (s # ss) g =
     Option.bind (merge_slots bm vo dm s [0..<length (is_vectors s)] g) (merge_segments bm vo dm ss)"

text \<open>The frozen segments a list of pointers names, in its order.\<close>

definition frozen_segments ::
  "('v, 'x, 'b, 'p, 'd) segmented_engine \<Rightarrow> nat list \<Rightarrow> ('v, 'x, 'b, 'p) immutable_segment list" where
  "frozen_segments e refs = List.map_filter (se_heap e) refs"

text \<open>
  Compaction in the two critical sections of the code: building the merged segment from the
  pointers read at the start, and replacing the list of segments at the end.
\<close>

definition compact_build ::
  "'b bitmap_ops \<Rightarrow> ('v, 'f, 'x, 'p) vector_ops \<Rightarrow> nat list \<Rightarrow> ('v, 'x, 'b, 'p, 'd) segmented_engine \<Rightarrow>
     (nat \<times> nat \<times> ('v, 'x, 'b, 'p, 'd) segmented_engine) option" where
  "compact_build bm vo refs e =
     do { g \<leftarrow> merge_segments bm vo (se_dimension e) (rev (frozen_segments e refs))
            \<lparr>mg_vectors = [], mg_id_to_slot = Map.empty, mg_slot_to_id = [], mg_territories = ri_new vo,
             mg_purged = 0\<rparr>;
          let slots = map word_of_nat [0..<unat (word_of_nat (length (mg_vectors g)) :: 32 word)];
              i = next_segment_id e in
          Some (i, mg_purged g,
            e\<lparr>next_segment_id := i + 1,
              se_heap := (se_heap e)(i \<mapsto>
                \<lparr>is_id = i, is_dimension = se_dimension e, is_vectors = mg_vectors g,
                 is_id_to_slot = mg_id_to_slot g, is_slot_to_id = mg_slot_to_id g, is_tombstones = bm_new bm,
                 is_territories = mg_territories g,
                 is_proof_tree = pt_build vo (mg_vectors g) slots (se_dimension e)\<rparr>)\<rparr>) }"

definition compact_swap ::
  "nat \<Rightarrow> ('v, 'x, 'b, 'p, 'd) segmented_engine \<Rightarrow> ('v, 'x, 'b, 'p, 'd) segmented_engine" where
  "compact_swap i e = e\<lparr>immutable_segments := [i]\<rparr>"

definition compact ::
  "'b bitmap_ops \<Rightarrow> ('v, 'f, 'x, 'p) vector_ops \<Rightarrow> ('v, 'x, 'b, 'p, 'd) segmented_engine \<Rightarrow>
     (nat res \<times> ('v, 'x, 'b, 'p, 'd) segmented_engine) option" where
  "compact bm vo e =
     (if length (immutable_segments e) < 2 then Some (Inr 0, e)
      else do { (i, purged, e1) \<leftarrow> compact_build bm vo (immutable_segments e) e;
                Some (Inr purged, compact_swap i e1) })"

definition se_stats :: "'b bitmap_ops \<Rightarrow> ('v, 'x, 'b, 'p, 'd) segmented_engine \<Rightarrow> segment_stats list" where
  "se_stats bm e =
     ms_stats bm (active_mutable e) # map (is_stats bm) (frozen_segments e (immutable_segments e))"

section \<open>Search across segments\<close>

fun search_segments :: "('s \<Rightarrow> (string \<times> 'f) list option) \<Rightarrow> 's list \<Rightarrow> (string \<times> 'f) list option" where
  "search_segments f [] = Some []"
| "search_segments f (s # ss) = do { xs \<leftarrow> f s; ys \<leftarrow> search_segments f ss; Some (xs @ ys) }"

text \<open>The first result of each identifier, up to \<open>k\<close> of them.\<close>

fun take_unique :: "nat \<Rightarrow> (string \<times> 'f) list \<Rightarrow> (string \<times> 'f) list \<Rightarrow> (string \<times> 'f) list" where
  "take_unique k out [] = out"
| "take_unique k out ((i, f) # xs) =
     (if i \<in> set (map fst out) then take_unique k out xs
      else if k \<le> length (out @ [(i, f)]) then out @ [(i, f)]
      else take_unique k (out @ [(i, f)]) xs)"

definition merge_results ::
  "nat \<Rightarrow> (string \<times> 'f::linorder) list \<Rightarrow> (string \<times> 'f) list" where
  "merge_results k xs = take_unique k [] (ranked xs)"

definition se_search ::
  "'b bitmap_ops \<Rightarrow> ('v, 'f::linorder, 'x, 'p) vector_ops \<Rightarrow> 'v \<Rightarrow> nat \<Rightarrow> semantic_rerank_plan \<Rightarrow>
     ('v, 'x, 'b, 'p, 'd) segmented_engine \<Rightarrow> (string \<times> 'f) list option" where
  "se_search bm vo q k plan e =
     (if k = 0 then Some []
      else do { xs \<leftarrow> ms_search bm vo q k plan (active_mutable e);
                ys \<leftarrow> search_segments (is_search bm vo q k plan) (frozen_segments e (immutable_segments e));
                Some (merge_results k (xs @ ys)) })"

definition se_search_with_contract ::
  "'b bitmap_ops \<Rightarrow> ('v, 'f::linorder, 'x, 'p) vector_ops \<Rightarrow> 'v \<Rightarrow> nat \<Rightarrow> retrieval_contract \<Rightarrow>
     ('v, 'x, 'b, 'p, 'd) segmented_engine \<Rightarrow> (string \<times> 'f) list option" where
  "se_search_with_contract bm vo q k contract e =
     (if k = 0 then Some []
      else do { xs \<leftarrow> ms_search_with_contract bm vo q k contract (active_mutable e);
                ys \<leftarrow> search_segments (is_search_with_contract bm vo q k contract)
                        (frozen_segments e (immutable_segments e));
                Some (merge_results k (xs @ ys)) })"

section \<open>Snapshots\<close>

text \<open>A snapshot holds the pointers of the frozen segments and a frozen copy of the active one.\<close>

record ('v, 'x, 'b, 'p) immutable_vector_snapshot =
  vs_dimension :: nat
  vs_immutable_segments :: "nat list"
  vs_active :: "('v, 'x, 'b, 'p) immutable_segment"

definition se_snapshot ::
  "'b bitmap_ops \<Rightarrow> ('v, 'f, 'x, 'p) vector_ops \<Rightarrow> ('v, 'x, 'b, 'p, 'd) segmented_engine \<Rightarrow>
     ('v, 'x, 'b, 'p) immutable_vector_snapshot option" where
  "se_snapshot bm vo e =
     do { a \<leftarrow> freeze bm vo (active_mutable e);
          Some \<lparr>vs_dimension = se_dimension e, vs_immutable_segments = immutable_segments e, vs_active = a\<rparr> }"

definition vs_search ::
  "'b bitmap_ops \<Rightarrow> ('v, 'f::linorder, 'x, 'p) vector_ops \<Rightarrow> 'v \<Rightarrow> nat \<Rightarrow> semantic_rerank_plan \<Rightarrow>
     ('v, 'x, 'b, 'p) immutable_vector_snapshot \<Rightarrow> ('v, 'x, 'b, 'p, 'd) segmented_engine \<Rightarrow>
     (string \<times> 'f) list option" where
  "vs_search bm vo q k plan sn e =
     (if k = 0 then Some []
      else do { xs \<leftarrow> search_segments (is_search bm vo q k plan) (frozen_segments e (vs_immutable_segments sn));
                ys \<leftarrow> is_search bm vo q k plan (vs_active sn);
                Some (merge_results k (xs @ ys)) })"

definition vs_search_with_contract ::
  "'b bitmap_ops \<Rightarrow> ('v, 'f::linorder, 'x, 'p) vector_ops \<Rightarrow> 'v \<Rightarrow> nat \<Rightarrow> retrieval_contract \<Rightarrow>
     ('v, 'x, 'b, 'p) immutable_vector_snapshot \<Rightarrow> ('v, 'x, 'b, 'p, 'd) segmented_engine \<Rightarrow>
     (string \<times> 'f) list option" where
  "vs_search_with_contract bm vo q k contract sn e =
     (if k = 0 then Some []
      else do { xs \<leftarrow> search_segments (is_search_with_contract bm vo q k contract)
                        (frozen_segments e (vs_immutable_segments sn));
                ys \<leftarrow> is_search_with_contract bm vo q k contract (vs_active sn);
                Some (merge_results k (xs @ ys)) })"

end
