(* ===== verification/Vector_Map.thy ===== *)
theory Vector_Map
  imports Vector_Segments
begin

text \<open>
  The segmented engine as a finite map: what a segment stores under an identifier, the invariant
  that keeps the segments of an engine disjoint, and the refinement of upserts, deletes, rotation
  and compaction to updates of one map.
\<close>

section \<open>Families of disjoint maps\<close>

fun maps_disjoint :: "('k \<rightharpoonup> 'v) list \<Rightarrow> bool" where
  "maps_disjoint [] \<longleftrightarrow> True"
| "maps_disjoint (m # ms) \<longleftrightarrow> (\<forall>m' \<in> set ms. dom m \<inter> dom m' = {}) \<and> maps_disjoint ms"

definition joined :: "('k \<rightharpoonup> 'v) list \<Rightarrow> 'k \<rightharpoonup> 'v" where
  "joined ms = foldr (++) ms Map.empty"

lemma joined_simps [simp]: "joined [] = Map.empty" "joined (m # ms) = m ++ joined ms"
  by (simp_all add: joined_def)

lemma joined_eq:
  assumes "maps_disjoint ms"
  shows "joined ms i = Some v \<longleftrightarrow> (\<exists>m \<in> set ms. m i = Some v)"
  using assms
proof (induction ms arbitrary: v)
  case (Cons m ms)
  have IH: "joined ms i = Some w \<longleftrightarrow> (\<exists>m \<in> set ms. m i = Some w)" for w
    using Cons.IH Cons.prems by simp
  have "m i = None" if w: "joined ms i = Some w" for w
  proof -
    obtain m' where m': "m' \<in> set ms" "m' i = Some w" using w unfolding IH by blast
    then have "dom m \<inter> dom m' = {}" using Cons.prems by simp
    then show ?thesis using m'(2) by (cases "m i") auto
  qed
  then show ?case using IH by (cases "joined ms i") (auto simp: map_add_Some_iff)
qed simp

lemma joined_eqI:
  assumes "maps_disjoint ms" "maps_disjoint ns"
    and "\<And>i v. (\<exists>m \<in> set ms. m i = Some v) \<longleftrightarrow> (\<exists>m \<in> set ns. m i = Some v)"
  shows "joined ms = joined ns"
proof
  fix i
  show "joined ms i = joined ns i"
    using joined_eq [OF assms(1)] joined_eq [OF assms(2)] assms(3) by (metis option.exhaust)
qed

lemma maps_disjoint_append:
  "maps_disjoint (ms @ ns) \<longleftrightarrow>
     maps_disjoint ms \<and> maps_disjoint ns \<and> (\<forall>m \<in> set ms. \<forall>n \<in> set ns. dom m \<inter> dom n = {})"
  by (induction ms) (simp_all add: ball_Un conj_ac)

lemma maps_disjointD: "maps_disjoint (m # ms) \<Longrightarrow> m' \<in> set ms \<Longrightarrow> m i = None \<or> m' i = None"
  by (cases "m i") (auto simp: disjoint_iff domIff)

lemma maps_disjoint_rev: "maps_disjoint (rev ms) = maps_disjoint ms"
  by (induction ms) (auto simp: maps_disjoint_append Int_commute)

definition forget :: "'k \<Rightarrow> ('k \<rightharpoonup> 'v) \<Rightarrow> ('k \<rightharpoonup> 'v)" where
  "forget i m = m(i := None)"

lemma forget_simps [simp]: "forget i m i = None" "j \<noteq> i \<Longrightarrow> forget i m j = m j" "dom (forget i m) = dom m - {i}"
  by (simp_all add: forget_def)

lemma forget_absent: "m i = None \<Longrightarrow> forget i m = m"
  by (auto simp: forget_def)

lemma maps_disjoint_forget: "maps_disjoint ms \<Longrightarrow> maps_disjoint (map (forget i) ms)"
proof (induction ms)
  case (Cons m ms)
  then have "dom (forget i m) \<inter> dom (forget i m') = {}" if "m' \<in> set ms" for m'
    using that by (simp add: disjoint_iff)
  then show ?case using Cons by simp
qed simp

lemma joined_forget: "joined (map (forget i) ms) = forget i (joined ms)"
proof (induction ms)
  case (Cons m ms)
  show ?case unfolding list.map joined_simps Cons by (auto simp: fun_eq_iff map_add_def forget_def split: option.split)
qed (simp add: forget_absent)

section \<open>What a segment stores\<close>

definition seg_lookup ::
  "'b bitmap_ops \<Rightarrow> 'b \<Rightarrow> 'v list \<Rightarrow> (string \<rightharpoonup> 32 word) \<Rightarrow> string \<rightharpoonup> 'v" where
  "seg_lookup bm tombs vs idx i =
     (case idx i of None \<Rightarrow> None | Some s \<Rightarrow> if bm_contains bm tombs s then None else Some (vs ! unat s))"

text \<open>
  Slots fit 32 bits, every slot has a name, tombstones mark slots, the index points at slots of its names, and a slot that
  is not tombstoned is the one the index names.
\<close>

definition seg_ok ::
  "'b bitmap_ops \<Rightarrow> 'b \<Rightarrow> 'v list \<Rightarrow> string list \<Rightarrow> (string \<rightharpoonup> 32 word) \<Rightarrow> bool" where
  "seg_ok bm tombs vs names idx \<longleftrightarrow>
     length vs < 2 ^ 32 \<and> length names = length vs \<and>
     (\<forall>s. bm_contains bm tombs s \<longrightarrow> unat s < length vs) \<and>
     (\<forall>i s. idx i = Some s \<longrightarrow> unat s < length vs \<and> names ! unat s = i) \<and>
     (\<forall>k < length vs. \<not> bm_contains bm tombs (word_of_nat k) \<longrightarrow> idx (names ! k) = Some (word_of_nat k))"

lemma unat_slot: "k < 2 ^ 32 \<Longrightarrow> unat (word_of_nat k :: 32 word) = k"
  by (simp add: unat_of_nat take_bit_nat_eq_self)

lemma seg_okD:
  assumes "seg_ok bm tombs vs names idx"
  shows "length vs < 2 ^ 32" "length names = length vs"
    "bm_contains bm tombs s \<Longrightarrow> unat s < length vs"
    "idx i = Some s \<Longrightarrow> unat s < length vs" "idx i = Some s \<Longrightarrow> names ! unat s = i"
    "k < length vs \<Longrightarrow> \<not> bm_contains bm tombs (word_of_nat k) \<Longrightarrow> idx (names ! k) = Some (word_of_nat k)"
  using assms unfolding seg_ok_def by blast+

lemma seg_ok_empty: "bitmap_ok bm \<Longrightarrow> seg_ok bm (bm_new bm) [] [] Map.empty"
  by (simp add: seg_ok_def bitmap_okD)

lemma seg_lookup_empty: "seg_lookup bm tombs [] Map.empty = Map.empty"
  by (simp add: seg_lookup_def fun_eq_iff)

lemma seg_ok_delete:
  assumes "bitmap_ok bm" "seg_ok bm tombs vs names idx" "idx i = Some s"
  shows "seg_ok bm (bm_insert bm s tombs) vs names idx"
  unfolding seg_ok_def
proof (intro conjI allI impI)
  fix t assume "bm_contains bm (bm_insert bm s tombs) t"
  then show "unat t < length vs"
    using seg_okD(3) [OF assms(2), of t] seg_okD(4) [OF assms(2,3)] by (auto simp: bitmap_okD(2) [OF assms(1)])
next
  fix k assume "k < length vs" "\<not> bm_contains bm (bm_insert bm s tombs) (word_of_nat k)"
  then show "idx (names ! k) = Some (word_of_nat k)"
    using seg_okD(6) [OF assms(2)] by (simp add: bitmap_okD(2) [OF assms(1)])
qed (use seg_okD(1,2,4,5) [OF assms(2)] in simp_all)

lemma seg_lookup_delete:
  assumes "bitmap_ok bm" "seg_ok bm tombs vs names idx" "idx i = Some s"
  shows "seg_lookup bm (bm_insert bm s tombs) vs idx = forget i (seg_lookup bm tombs vs idx)"
proof
  fix j
  show "seg_lookup bm (bm_insert bm s tombs) vs idx j = forget i (seg_lookup bm tombs vs idx) j"
  proof (cases "j = i")
    case False
    then have "idx j \<noteq> Some s" using seg_okD(5) [OF assms(2), of _ s] assms(3) by metis
    then show ?thesis using False
      by (cases "idx j") (simp_all add: seg_lookup_def bitmap_okD(2) [OF assms(1)])
  qed (simp add: seg_lookup_def assms(3) bitmap_okD(2) [OF assms(1)])
qed

lemma seg_lookup_absent: "idx i = None \<Longrightarrow> forget i (seg_lookup bm tombs vs idx) = seg_lookup bm tombs vs idx"
  by (rule forget_absent) (simp add: seg_lookup_def)

lemma seg_ok_append:
  assumes bm: "bitmap_ok bm" and ok: "seg_ok bm tombs vs names idx" and room: "Suc (length vs) < 2 ^ 32"
    and dead: "\<And>s. idx i = Some s \<Longrightarrow> bm_contains bm tombs s"
  shows "seg_ok bm tombs (vs @ [v]) (names @ [i]) (idx(i \<mapsto> word_of_nat (length vs)))"
    and "seg_lookup bm tombs (vs @ [v]) (idx(i \<mapsto> word_of_nat (length vs))) =
      (seg_lookup bm tombs vs idx)(i \<mapsto> v)"
proof -
  have u: "unat (word_of_nat (length vs) :: 32 word) = length vs" using room by (simp add: unat_slot)
  note len = seg_okD(2) [OF ok] and old = seg_okD(4,5) [OF ok] and live = seg_okD(6) [OF ok]
  have fresh: "\<not> bm_contains bm tombs (word_of_nat (length vs))" using seg_okD(3) [OF ok] u by fastforce
  show "seg_ok bm tombs (vs @ [v]) (names @ [i]) (idx(i \<mapsto> word_of_nat (length vs)))"
    unfolding seg_ok_def
  proof (intro conjI allI impI)
    fix s assume "bm_contains bm tombs s"
    then show "unat s < length (vs @ [v])" using seg_okD(3) [OF ok] by fastforce
  next
    fix j s assume j: "(idx(i \<mapsto> word_of_nat (length vs))) j = Some s"
    show "unat s < length (vs @ [v])" and "(names @ [i]) ! unat s = j"
      using j old [of j s] u len by (auto simp: nth_append split: if_splits)
  next
    fix k assume k: "k < length (vs @ [v])" "\<not> bm_contains bm tombs (word_of_nat k)"
    show "(idx(i \<mapsto> word_of_nat (length vs))) ((names @ [i]) ! k) = Some (word_of_nat k)"
    proof (cases "k = length vs")
      case False
      then have "k < length vs" using k by simp
      then show ?thesis using live [of k] k(2) dead len by (auto simp: nth_append)
    qed (simp add: nth_append len)
  qed (use room len in simp_all)
  show "seg_lookup bm tombs (vs @ [v]) (idx(i \<mapsto> word_of_nat (length vs))) = (seg_lookup bm tombs vs idx)(i \<mapsto> v)"
  proof
    fix j
    show "seg_lookup bm tombs (vs @ [v]) (idx(i \<mapsto> word_of_nat (length vs))) j =
        ((seg_lookup bm tombs vs idx)(i \<mapsto> v)) j"
      using u fresh old(1) [of j] by (auto simp: seg_lookup_def nth_append split: option.splits)
  qed
qed

section \<open>Segments\<close>

definition ms_lookup :: "'b bitmap_ops \<Rightarrow> ('v, 'x, 'b) mutable_segment \<Rightarrow> string \<rightharpoonup> 'v" where
  "ms_lookup bm s = seg_lookup bm (ms_tombstones s) (ms_vectors s) (ms_id_to_slot s)"

definition ms_ok :: "'b bitmap_ops \<Rightarrow> ('v, 'x, 'b) mutable_segment \<Rightarrow> bool" where
  "ms_ok bm s \<longleftrightarrow> seg_ok bm (ms_tombstones s) (ms_vectors s) (ms_slot_to_id s) (ms_id_to_slot s)"

definition frozen_lookup :: "'b bitmap_ops \<Rightarrow> ('v, 'x, 'b, 'p) immutable_segment \<Rightarrow> string \<rightharpoonup> 'v" where
  "frozen_lookup bm s = seg_lookup bm (is_tombstones s) (is_vectors s) (is_id_to_slot s)"

definition frozen_ok :: "'b bitmap_ops \<Rightarrow> ('v, 'x, 'b, 'p) immutable_segment \<Rightarrow> bool" where
  "frozen_ok bm s \<longleftrightarrow> seg_ok bm (is_tombstones s) (is_vectors s) (is_slot_to_id s) (is_id_to_slot s)"

lemma ms_new_facts:
  assumes "bitmap_ok bm"
  shows "ms_ok bm (ms_new bm vo i dm cap)" "ms_lookup bm (ms_new bm vo i dm cap) = Map.empty"
    "ms_vectors (ms_new bm vo i dm cap) = []" "ms_dimension (ms_new bm vo i dm cap) = dm"
    "ms_max_capacity (ms_new bm vo i dm cap) = cap" "ms_id (ms_new bm vo i dm cap) = i"
  using assms by (simp_all add: ms_new_def ms_ok_def ms_lookup_def seg_ok_empty seg_lookup_empty)

lemma ms_delete_facts:
  assumes "bitmap_ok bm" "ms_ok bm s"
  shows "ms_ok bm (snd (ms_delete bm i s))" "ms_lookup bm (snd (ms_delete bm i s)) = forget i (ms_lookup bm s)"
    "ms_vectors (snd (ms_delete bm i s)) = ms_vectors s" "ms_dimension (snd (ms_delete bm i s)) = ms_dimension s"
    "ms_max_capacity (snd (ms_delete bm i s)) = ms_max_capacity s" "ms_id (snd (ms_delete bm i s)) = ms_id s"
  using assms(2) seg_ok_delete [OF assms(1) assms(2) [unfolded ms_ok_def]]
    seg_lookup_delete [OF assms(1) assms(2) [unfolded ms_ok_def]]
  by (simp_all add: ms_delete_def ms_lookup_def ms_ok_def seg_lookup_absent split: option.split)

lemma is_delete_facts:
  assumes "bitmap_ok bm" "frozen_ok bm s"
  shows "frozen_ok bm (snd (is_delete bm i s))"
    "frozen_lookup bm (snd (is_delete bm i s)) = forget i (frozen_lookup bm s)"
    "is_vectors (snd (is_delete bm i s)) = is_vectors s"
  using assms(2) seg_ok_delete [OF assms(1) assms(2) [unfolded frozen_ok_def]]
    seg_lookup_delete [OF assms(1) assms(2) [unfolded frozen_ok_def]]
  by (simp_all add: is_delete_def frozen_lookup_def frozen_ok_def seg_lookup_absent split: option.split)

lemma ms_insert_stores:
  assumes bm: "bitmap_ok bm" and ok: "ms_ok bm s" and dm: "v_dimension vo v = ms_dimension s"
    and room: "length (ms_vectors s) < ms_max_capacity s" "Suc (length (ms_vectors s)) < 2 ^ 32"
  obtains slot s' where "ms_insert bm vo i v s = (Inr slot, s')" "ms_ok bm s'"
    "ms_lookup bm s' = (ms_lookup bm s)(i \<mapsto> v)" "length (ms_vectors s') = Suc (length (ms_vectors s))"
    "ms_dimension s' = ms_dimension s" "ms_max_capacity s' = ms_max_capacity s" "ms_id s' = ms_id s"
proof -
  let ?tombs = "case ms_id_to_slot s i of None \<Rightarrow> ms_tombstones s | Some old \<Rightarrow> bm_insert bm old (ms_tombstones s)"
  note ok' = ok [unfolded ms_ok_def]
  have seg: "seg_ok bm ?tombs (ms_vectors s) (ms_slot_to_id s) (ms_id_to_slot s)"
    using seg_ok_delete [OF bm ok'] ok' by (simp split: option.split)
  have dead: "bm_contains bm ?tombs t" if "ms_id_to_slot s i = Some t" for t
    using that by (simp add: bitmap_okD(2) [OF bm])
  have look: "(seg_lookup bm ?tombs (ms_vectors s) (ms_id_to_slot s))(i \<mapsto> v) = (ms_lookup bm s)(i \<mapsto> v)"
    using seg_lookup_delete [OF bm ok'] by (simp add: ms_lookup_def forget_def split: option.split)
  note new = seg_ok_append [OF bm seg room(2) dead, where v = v]
  show thesis
  proof (rule that)
    show "ms_insert bm vo i v s = (Inr (word_of_nat (length (ms_vectors s))),
        s\<lparr>ms_tombstones := ?tombs,
          ms_territories := ri_insert vo (ms_dimension s) v (word_of_nat (length (ms_vectors s))) (ms_territories s),
          ms_slot_to_id := ms_slot_to_id s @ [i],
          ms_id_to_slot := (ms_id_to_slot s)(i \<mapsto> word_of_nat (length (ms_vectors s))),
          ms_vectors := ms_vectors s @ [v]\<rparr>)" (is "_ = (_, ?s)")
      using dm room(1) by (simp add: ms_insert_def Let_def)
    show "ms_ok bm ?s" "ms_lookup bm ?s = (ms_lookup bm s)(i \<mapsto> v)"
      using new look by (simp_all add: ms_ok_def ms_lookup_def)
  qed simp_all
qed

lemma live_slots_map:
  assumes "n < 2 ^ 32"
  shows "live_slots bm tombs n =
    map word_of_nat (filter (\<lambda>k. \<not> bm_contains bm tombs (word_of_nat k)) [0..<n])"
  using assms by (simp add: live_slots_def unat_slot filter_map o_def)

lemma live_slots_below: "s \<in> set (live_slots bm tombs n) \<Longrightarrow> n < 2 ^ 32 \<Longrightarrow> unat s < n"
  by (auto simp: live_slots_map unat_slot)

lemma index_slots_total:
  "(\<forall>s \<in> set slots. unat s < length vs) \<Longrightarrow> \<exists>x'. index_slots vo dm vs slots x = Some x'"
  by (induction slots arbitrary: x) (simp_all add: nth_opt_def)

lemma freeze_keeps:
  assumes "ms_ok bm s"
  obtains f where "freeze bm vo s = Some f" "frozen_ok bm f" "frozen_lookup bm f = ms_lookup bm s"
    "is_vectors f = ms_vectors s" "is_id f = ms_id s"
proof -
  have len: "length (ms_vectors s) < 2 ^ 32" using seg_okD(1) assms by (auto simp: ms_ok_def)
  obtain x where "index_slots vo (ms_dimension s) (ms_vectors s)
      (live_slots bm (ms_tombstones s) (length (ms_vectors s))) (ri_new vo) = Some x"
    using index_slots_total live_slots_below [OF _ len] by metis
  then show thesis using that assms
    by (simp add: freeze_def frozen_ok_def frozen_lookup_def ms_lookup_def ms_ok_def)
qed

section \<open>Engines\<close>

definition engine_maps ::
  "'b bitmap_ops \<Rightarrow> ('v, 'x, 'b, 'p, 'd) segmented_engine \<Rightarrow> (string \<rightharpoonup> 'v) list" where
  "engine_maps bm e =
     ms_lookup bm (active_mutable e) # map (frozen_lookup bm) (frozen_segments e (immutable_segments e))"

text \<open>The vectors an engine holds, by identifier.\<close>

definition contents :: "'b bitmap_ops \<Rightarrow> ('v, 'x, 'b, 'p, 'd) segmented_engine \<Rightarrow> string \<rightharpoonup> 'v" where
  "contents bm e = joined (engine_maps bm e)"

definition vectors_held :: "('v, 'x, 'b, 'p, 'd) segmented_engine \<Rightarrow> nat" where
  "vectors_held e = length (ms_vectors (active_mutable e)) +
     sum_list (map (\<lambda>s. length (is_vectors s)) (frozen_segments e (immutable_segments e)))"

definition engine_ok :: "'b bitmap_ops \<Rightarrow> nat \<Rightarrow> ('v, 'x, 'b, 'p, 'd) segmented_engine \<Rightarrow> bool" where
  "engine_ok bm n e \<longleftrightarrow>
     ms_ok bm (active_mutable e) \<and> ms_dimension (active_mutable e) = se_dimension e \<and>
     ms_max_capacity (active_mutable e) = max_mutable_capacity e \<and> 0 < max_mutable_capacity e \<and>
     ms_id (active_mutable e) < next_segment_id e \<and> se_heap e (ms_id (active_mutable e)) = None \<and>
     (\<forall>r s. se_heap e r = Some s \<longrightarrow> r < next_segment_id e \<and> frozen_ok bm s) \<and>
     distinct (immutable_segments e) \<and> (\<forall>r \<in> set (immutable_segments e). se_heap e r \<noteq> None) \<and>
     maps_disjoint (engine_maps bm e) \<and> vectors_held e \<le> n"

lemma engine_okD:
  assumes "engine_ok bm n e"
  shows "ms_ok bm (active_mutable e)" "ms_dimension (active_mutable e) = se_dimension e"
    "ms_max_capacity (active_mutable e) = max_mutable_capacity e" "0 < max_mutable_capacity e"
    "ms_id (active_mutable e) < next_segment_id e" "se_heap e (ms_id (active_mutable e)) = None"
    "se_heap e r = Some s \<Longrightarrow> r < next_segment_id e" "se_heap e r = Some s \<Longrightarrow> frozen_ok bm s"
    "distinct (immutable_segments e)" "r \<in> set (immutable_segments e) \<Longrightarrow> \<exists>s. se_heap e r = Some s"
    "maps_disjoint (engine_maps bm e)" "vectors_held e \<le> n"
  using assms unfolding engine_ok_def by blast+

lemma frozen_segments_map:
  "(\<And>r. r \<in> set refs \<Longrightarrow> \<exists>s. se_heap e r = Some s) \<Longrightarrow> frozen_segments e refs = map (\<lambda>r. the (se_heap e r)) refs"
  by (induction refs) (auto simp: frozen_segments_def List.map_filter_def)

lemma engine_segments:
  "engine_ok bm n e \<Longrightarrow>
     frozen_segments e (immutable_segments e) = map (\<lambda>r. the (se_heap e r)) (immutable_segments e)"
  using engine_okD(10) by (intro frozen_segments_map) blast

lemma se_new_fields [simp]:
  "se_dimension (se_new bm vo dm cap) = dm" "metadata_store (se_new bm vo dm cap) = Map.empty"
  "se_wal (se_new bm vo dm cap) = None"
  by (simp_all add: se_new_def)

lemma engine_new:
  assumes "bitmap_ok bm" "0 < cap"
  shows "engine_ok bm 0 (se_new bm vo dm cap)" "contents bm (se_new bm vo dm cap) = Map.empty"
  using assms(2)
  by (simp_all add: engine_ok_def se_new_def engine_maps_def contents_def vectors_held_def
      frozen_segments_def List.map_filter_def ms_new_facts [OF assms(1)])

text \<open>Metadata and the log play no part in the invariant.\<close>

lemma engine_other_fields [simp]:
  "engine_ok bm n (e\<lparr>metadata_store := t\<rparr>) = engine_ok bm n e"
  "contents bm (e\<lparr>metadata_store := t\<rparr>) = contents bm e"
  "engine_ok bm n (e\<lparr>se_wal := w\<rparr>) = engine_ok bm n e" "contents bm (e\<lparr>se_wal := w\<rparr>) = contents bm e"
  "engine_ok bm n (e\<lparr>wal_durability := p\<rparr>) = engine_ok bm n e"
  "contents bm (e\<lparr>wal_durability := p\<rparr>) = contents bm e"
  by (simp_all add: engine_ok_def contents_def engine_maps_def vectors_held_def frozen_segments_def)

lemma engine_ok_mono: "engine_ok bm m e \<Longrightarrow> m \<le> n \<Longrightarrow> engine_ok bm n e"
  by (simp add: engine_ok_def)

subsection \<open>Deleting\<close>

lemma delete_frozen_eq:
  "distinct refs \<Longrightarrow> snd (delete_frozen bm i refs h) =
     (\<lambda>r. if r \<in> set refs then map_option (\<lambda>s. snd (is_delete bm i s)) (h r) else h r)"
proof (induction refs arbitrary: h)
  case (Cons r refs)
  show ?case
  proof (cases "h r")
    case None
    then show ?thesis using Cons by (auto simp: fun_eq_iff)
  next
    case (Some s)
    obtain hit s' where d: "is_delete bm i s = (hit, s')" by (cases "is_delete bm i s")
    have "snd (delete_frozen bm i (r # refs) h) = snd (delete_frozen bm i refs (h(r \<mapsto> s')))"
      by (simp add: Some d split: prod.split)
    then show ?thesis using Cons Some d by (auto simp: fun_eq_iff)
  qed
qed (simp add: fun_eq_iff)

lemma delete_internal_fields:
  "active_mutable (snd (delete_internal bm i e)) = snd (ms_delete bm i (active_mutable e))"
  "se_heap (snd (delete_internal bm i e)) = snd (delete_frozen bm i (immutable_segments e) (se_heap e))"
  "immutable_segments (snd (delete_internal bm i e)) = immutable_segments e"
  "se_dimension (snd (delete_internal bm i e)) = se_dimension e"
  "max_mutable_capacity (snd (delete_internal bm i e)) = max_mutable_capacity e"
  "next_segment_id (snd (delete_internal bm i e)) = next_segment_id e"
  "metadata_store (snd (delete_internal bm i e)) = metadata_store e"
  "se_wal (snd (delete_internal bm i e)) = se_wal e"
  "wal_durability (snd (delete_internal bm i e)) = wal_durability e"
  by (simp_all add: delete_internal_def split: prod.split)

lemma delete_internal_segments:
  assumes "engine_ok bm n e"
  shows "frozen_segments (snd (delete_internal bm i e)) (immutable_segments e) =
    map (\<lambda>s. snd (is_delete bm i s)) (frozen_segments e (immutable_segments e))"
proof -
  have "se_heap (snd (delete_internal bm i e)) r = map_option (\<lambda>s. snd (is_delete bm i s)) (se_heap e r)"
    if "r \<in> set (immutable_segments e)" for r
    using that by (simp add: delete_internal_fields delete_frozen_eq [OF engine_okD(9) [OF assms]])
  then show ?thesis using engine_okD(10) [OF assms]
    by (subst frozen_segments_map; fastforce simp: engine_segments [OF assms])
qed

lemma delete_internal_maps:
  assumes bm: "bitmap_ok bm" and ok: "engine_ok bm n e"
  shows "engine_maps bm (snd (delete_internal bm i e)) = map (forget i) (engine_maps bm e)"
    and "vectors_held (snd (delete_internal bm i e)) = vectors_held e"
proof -
  have fr: "frozen_ok bm s" if "s \<in> set (frozen_segments e (immutable_segments e))" for s
    using that engine_okD(8,10) [OF ok] by (fastforce simp: engine_segments [OF ok])
  show "engine_maps bm (snd (delete_internal bm i e)) = map (forget i) (engine_maps bm e)"
    by (simp add: engine_maps_def delete_internal_fields(1,3) delete_internal_segments [OF ok] fr
        is_delete_facts(2) [OF bm] ms_delete_facts(2) [OF bm engine_okD(1) [OF ok]])
  show "vectors_held (snd (delete_internal bm i e)) = vectors_held e"
    by (simp add: vectors_held_def delete_internal_fields(1,3) delete_internal_segments [OF ok] o_def fr
        is_delete_facts(3) [OF bm] ms_delete_facts(3) [OF bm engine_okD(1) [OF ok]] cong: map_cong)
qed

lemma delete_internal_ok:
  assumes bm: "bitmap_ok bm" and ok: "engine_ok bm n e"
  shows "engine_ok bm n (snd (delete_internal bm i e))"
    and "contents bm (snd (delete_internal bm i e)) = forget i (contents bm e)"
proof -
  note m = delete_internal_maps [OF bm ok, of i] and a = ms_delete_facts [OF bm engine_okD(1) [OF ok], of i]
  have heap: "r < next_segment_id e \<and> frozen_ok bm s" if s: "se_heap (snd (delete_internal bm i e)) r = Some s" for r s
  proof (cases "r \<in> set (immutable_segments e)")
    case True
    then obtain s0 where "se_heap e r = Some s0" "s = snd (is_delete bm i s0)"
      using s by (auto simp: delete_internal_fields delete_frozen_eq [OF engine_okD(9) [OF ok]])
    then show ?thesis using engine_okD(7,8) [OF ok] by (simp add: is_delete_facts(1) [OF bm])
  next
    case False
    then have "se_heap e r = Some s"
      using s by (simp add: delete_internal_fields delete_frozen_eq [OF engine_okD(9) [OF ok]])
    then show ?thesis using engine_okD(7,8) [OF ok] by simp
  qed
  show "engine_ok bm n (snd (delete_internal bm i e))"
    unfolding engine_ok_def
  proof (intro conjI allI impI ballI)
    fix r assume "r \<in> set (immutable_segments (snd (delete_internal bm i e)))"
    then show "se_heap (snd (delete_internal bm i e)) r \<noteq> None"
      using engine_okD(10) [OF ok] by (auto simp: delete_internal_fields delete_frozen_eq [OF engine_okD(9) [OF ok]])
  next
    show "se_heap (snd (delete_internal bm i e)) (ms_id (active_mutable (snd (delete_internal bm i e)))) = None"
      using engine_okD(6) [OF ok] a(6) by (simp add: delete_internal_fields delete_frozen_eq [OF engine_okD(9) [OF ok]])
  qed (use heap a m engine_okD [OF ok] maps_disjoint_forget in \<open>simp_all add: delete_internal_fields\<close>)
  show "contents bm (snd (delete_internal bm i e)) = forget i (contents bm e)"
    by (simp add: contents_def m(1) joined_forget del: joined_simps)
qed

subsection \<open>Inserting\<close>

text \<open>Replacing the active segment by one that stores one more vector.\<close>

lemma replace_active:
  assumes bm: "bitmap_ok bm" and ok: "engine_ok bm n e" and free: "contents bm e i = None"
    and a: "ms_ok bm a" "ms_lookup bm a = (ms_lookup bm (active_mutable e))(i \<mapsto> v)"
      "length (ms_vectors a) = Suc (length (ms_vectors (active_mutable e)))"
      "ms_dimension a = ms_dimension (active_mutable e)" "ms_max_capacity a = ms_max_capacity (active_mutable e)"
      "ms_id a = ms_id (active_mutable e)"
  shows "engine_ok bm (Suc n) (e\<lparr>active_mutable := a\<rparr>)"
    and "contents bm (e\<lparr>active_mutable := a\<rparr>) = (contents bm e)(i \<mapsto> v)"
proof -
  let ?fs = "map (frozen_lookup bm) (frozen_segments e (immutable_segments e))"
  have seg: "frozen_segments (e\<lparr>active_mutable := a\<rparr>) refs = frozen_segments e refs" for refs
    by (simp add: frozen_segments_def)
  have maps: "engine_maps bm (e\<lparr>active_mutable := a\<rparr>) = (ms_lookup bm (active_mutable e))(i \<mapsto> v) # ?fs"
    by (simp add: engine_maps_def a(2) seg)
  have none: "m i = None" if "m \<in> set ?fs" for m
    using that joined_eq [OF engine_okD(11) [OF ok], of i] free
    by (cases "m i") (auto simp: contents_def engine_maps_def simp del: joined_simps)
  have rest: "joined ?fs i = None"
    using free by (simp add: contents_def engine_maps_def)
  have dis: "maps_disjoint (ms_lookup bm (active_mutable e) # ?fs)"
    using engine_okD(11) [OF ok] by (simp add: engine_maps_def)
  then have "maps_disjoint ((ms_lookup bm (active_mutable e))(i \<mapsto> v) # ?fs)"
    using none by (auto simp: disjoint_iff domIff)
  then show "engine_ok bm (Suc n) (e\<lparr>active_mutable := a\<rparr>)"
    using ok a maps by (simp add: engine_ok_def vectors_held_def seg)
  show "contents bm (e\<lparr>active_mutable := a\<rparr>) = (contents bm e)(i \<mapsto> v)"
  proof -
    have "contents bm e = ms_lookup bm (active_mutable e) ++ joined ?fs" by (simp add: contents_def engine_maps_def)
    then show ?thesis unfolding contents_def [of bm "e\<lparr>active_mutable := a\<rparr>"] maps
      using rest by (auto simp: fun_eq_iff map_add_def split: option.split)
  qed
qed

lemma rotate_active_ok:
  assumes bm: "bitmap_ok bm" and ok: "engine_ok bm n e"
  obtains e' where "rotate_active bm vo e = Some e'" "engine_ok bm n e'" "contents bm e' = contents bm e"
    "active_mutable e' = ms_new bm vo (next_segment_id e) (se_dimension e) (max_mutable_capacity e)"
    "se_dimension e' = se_dimension e" "metadata_store e' = metadata_store e"
    "max_mutable_capacity e' = max_mutable_capacity e" "se_wal e' = se_wal e" "wal_durability e' = wal_durability e"
proof -
  obtain f where f: "freeze bm vo (active_mutable e) = Some f" "frozen_ok bm f"
      "frozen_lookup bm f = ms_lookup bm (active_mutable e)" "is_vectors f = ms_vectors (active_mutable e)"
      "is_id f = ms_id (active_mutable e)"
    using freeze_keeps [OF engine_okD(1) [OF ok]] by metis
  let ?new = "ms_new bm vo (next_segment_id e) (se_dimension e) (max_mutable_capacity e)"
  let ?e = "e\<lparr>se_heap := (se_heap e)(is_id f \<mapsto> f), immutable_segments := immutable_segments e @ [is_id f],
    next_segment_id := Suc (next_segment_id e), active_mutable := ?new\<rparr>"
  note new = ms_new_facts [OF bm, of vo "next_segment_id e" "se_dimension e" "max_mutable_capacity e"]
  have fresh: "is_id f \<notin> set (immutable_segments e)" using engine_okD(6,10) [OF ok] f(5) by fastforce
  have segs: "frozen_segments ?e (immutable_segments e @ [is_id f]) =
      frozen_segments e (immutable_segments e) @ [f]"
    using fresh engine_okD(10) [OF ok] unfolding engine_segments [OF ok] by (subst frozen_segments_map) auto
  have maps: "engine_maps bm ?e = Map.empty # map (frozen_lookup bm) (frozen_segments e (immutable_segments e)) @
      [ms_lookup bm (active_mutable e)]"
    by (simp add: engine_maps_def segs new(2) f(3) del: fun_upd_apply)
  have dis: "maps_disjoint (engine_maps bm ?e)"
    using engine_okD(11) [OF ok] unfolding maps
    by (auto simp: engine_maps_def maps_disjoint_append Int_commute)
  have heap: "r < Suc (next_segment_id e) \<and> frozen_ok bm s" if "((se_heap e)(is_id f \<mapsto> f)) r = Some s" for r s
    using that engine_okD(7,8) [OF ok, of r s] engine_okD(5) [OF ok] f(2,5) by (auto split: if_splits)
  have "engine_ok bm n ?e"
    unfolding engine_ok_def
  proof (intro conjI allI impI ballI)
    show "se_heap ?e (ms_id (active_mutable ?e)) = None"
      using engine_okD(5,7) [OF ok] f(5) new(6) by (cases "se_heap e (next_segment_id e)") fastforce+
    show "vectors_held ?e \<le> n"
      using engine_okD(12) [OF ok] by (simp add: vectors_held_def segs f(4) new(3) del: fun_upd_apply)
  qed (use heap dis new fresh engine_okD [OF ok] in auto)
  moreover have "contents bm ?e = contents bm e"
    unfolding contents_def
    by (rule joined_eqI [OF dis engine_okD(11) [OF ok]], unfold maps engine_maps_def [of bm e]) auto
  ultimately show thesis using that [of ?e] f(1) by (simp add: rotate_active_def)
qed

lemma insert_active_ok:
  assumes bm: "bitmap_ok bm" and ok: "engine_ok bm n e" and free: "contents bm e i = None"
    and dm: "v_dimension vo v = se_dimension e" and n: "Suc n < 2 ^ 32"
  obtains e' where "insert_active bm vo i v e = Some (Inr (), e')" "engine_ok bm (Suc n) e'"
    "contents bm e' = (contents bm e)(i \<mapsto> v)" "se_dimension e' = se_dimension e"
    "metadata_store e' = metadata_store e" "se_wal e' = se_wal e" "wal_durability e' = wal_durability e"
proof (cases "length (ms_vectors (active_mutable e)) < max_mutable_capacity e")
  case True
  have "Suc (length (ms_vectors (active_mutable e))) < 2 ^ 32"
    using engine_okD(12) [OF ok] n by (simp add: vectors_held_def)
  then obtain slot a where a: "ms_insert bm vo i v (active_mutable e) = (Inr slot, a)" "ms_ok bm a"
      "ms_lookup bm a = (ms_lookup bm (active_mutable e))(i \<mapsto> v)"
      "length (ms_vectors a) = Suc (length (ms_vectors (active_mutable e)))"
      "ms_dimension a = ms_dimension (active_mutable e)" "ms_max_capacity a = ms_max_capacity (active_mutable e)"
      "ms_id a = ms_id (active_mutable e)"
    using ms_insert_stores [OF bm engine_okD(1) [OF ok], of vo v] dm True engine_okD(2,3) [OF ok] by metis
  with replace_active [OF bm ok free a(2-)] show thesis
    using that [of "e\<lparr>active_mutable := a\<rparr>"] by (simp add: insert_active_def a(1))
next
  case False
  obtain e1 where e1: "rotate_active bm vo e = Some e1" "engine_ok bm n e1" "contents bm e1 = contents bm e"
      "active_mutable e1 = ms_new bm vo (next_segment_id e) (se_dimension e) (max_mutable_capacity e)"
      "se_dimension e1 = se_dimension e" "metadata_store e1 = metadata_store e"
      "max_mutable_capacity e1 = max_mutable_capacity e" "se_wal e1 = se_wal e" "wal_durability e1 = wal_durability e"
    using rotate_active_ok [OF bm ok] by metis
  have "v_dimension vo v = ms_dimension (active_mutable e1)"
      "length (ms_vectors (active_mutable e1)) < ms_max_capacity (active_mutable e1)"
      "Suc (length (ms_vectors (active_mutable e1))) < 2 ^ 32"
    using dm engine_okD(4) [OF ok] by (simp_all add: e1(4) ms_new_def)
  then obtain slot a where a: "ms_insert bm vo i v (active_mutable e1) = (Inr slot, a)" "ms_ok bm a"
      "ms_lookup bm a = (ms_lookup bm (active_mutable e1))(i \<mapsto> v)"
      "length (ms_vectors a) = Suc (length (ms_vectors (active_mutable e1)))"
      "ms_dimension a = ms_dimension (active_mutable e1)" "ms_max_capacity a = ms_max_capacity (active_mutable e1)"
      "ms_id a = ms_id (active_mutable e1)"
    using ms_insert_stores [OF bm engine_okD(1) [OF e1(2)], of vo v] by metis
  have full: "ms_insert bm vo i v (active_mutable e) =
      (Inl (IndexFull (max_mutable_capacity e)), active_mutable e)"
    using dm False engine_okD(2,3) [OF ok] by (simp add: ms_insert_def)
  from replace_active [OF bm e1(2) free [folded e1(3)] a(2-)] show thesis
    using that [of "e1\<lparr>active_mutable := a\<rparr>"] by (simp add: insert_active_def full e1(1,3,5,6,8,9) a(1))
qed

subsection \<open>The live entries of a segment\<close>

definition live_entries ::
  "'b bitmap_ops \<Rightarrow> 'b \<Rightarrow> 'v list \<Rightarrow> string list \<Rightarrow> nat list \<Rightarrow> (string \<times> 'v) list" where
  "live_entries bm tombs vs names ks =
     map (\<lambda>k. (names ! k, vs ! k)) (filter (\<lambda>k. \<not> bm_contains bm tombs (word_of_nat k)) ks)"

lemma live_entries_simps [simp]:
  "live_entries bm tombs vs names [] = []"
  "live_entries bm tombs vs names (k # ks) =
     (if bm_contains bm tombs (word_of_nat k) then [] else [(names ! k, vs ! k)]) @ live_entries bm tombs vs names ks"
  by (simp_all add: live_entries_def)

lemma live_entries_distinct:
  assumes "seg_ok bm tombs vs names idx"
  shows "distinct (map fst (live_entries bm tombs vs names [0..<length vs]))"
proof -
  have "inj_on (\<lambda>k. names ! k) {k. k < length vs \<and> \<not> bm_contains bm tombs (word_of_nat k)}"
  proof (rule inj_onI)
    fix k l
    assume k: "k \<in> {k. k < length vs \<and> \<not> bm_contains bm tombs (word_of_nat k)}"
      and l: "l \<in> {k. k < length vs \<and> \<not> bm_contains bm tombs (word_of_nat k)}" and "names ! k = names ! l"
    then have "(word_of_nat k :: 32 word) = word_of_nat l" using seg_okD(6) [OF assms] by (metis mem_Collect_eq option.inject)
    then have "unat (word_of_nat k :: 32 word) = unat (word_of_nat l :: 32 word)" by simp
    then show "k = l" using k l seg_okD(1) [OF assms] by (simp add: unat_slot)
  qed
  then show ?thesis
    by (auto simp: live_entries_def distinct_map o_def intro: inj_on_subset)
qed

lemma live_entries_lookup:
  assumes "seg_ok bm tombs vs names idx"
  shows "map_of (live_entries bm tombs vs names [0..<length vs]) = seg_lookup bm tombs vs idx"
proof
  fix i
  have "(i, v) \<in> set (live_entries bm tombs vs names [0..<length vs]) \<longleftrightarrow> seg_lookup bm tombs vs idx i = Some v" for v
  proof
    assume "(i, v) \<in> set (live_entries bm tombs vs names [0..<length vs])"
    then obtain k where k: "k < length vs" "\<not> bm_contains bm tombs (word_of_nat k)" "i = names ! k" "v = vs ! k"
      by (auto simp: live_entries_def)
    then show "seg_lookup bm tombs vs idx i = Some v"
      using seg_okD(1) [OF assms] seg_okD(6) [OF assms k(1,2)] by (simp add: seg_lookup_def unat_slot)
  next
    assume "seg_lookup bm tombs vs idx i = Some v"
    then obtain t where t: "idx i = Some t" "\<not> bm_contains bm tombs t" "v = vs ! unat t"
      by (auto simp: seg_lookup_def split: option.splits if_splits)
    have "(i, v) = (names ! unat t, vs ! unat t)" using seg_okD(5) [OF assms t(1)] t(3) by simp
    moreover have "unat t \<in> set (filter (\<lambda>k. \<not> bm_contains bm tombs (word_of_nat k)) [0..<length vs])"
      using seg_okD(4) [OF assms t(1)] t(2) by simp
    ultimately show "(i, v) \<in> set (live_entries bm tombs vs names [0..<length vs])"
      unfolding live_entries_def by (metis (no_types, lifting) image_eqI image_set)
  qed
  then show "map_of (live_entries bm tombs vs names [0..<length vs]) i = seg_lookup bm tombs vs idx i"
    using map_of_eq_Some_iff [OF live_entries_distinct [OF assms]] by (metis option.exhaust)
qed

subsection \<open>Compacting\<close>

definition merge_lookup :: "'b bitmap_ops \<Rightarrow> ('v, 'x) merge_state \<Rightarrow> string \<rightharpoonup> 'v" where
  "merge_lookup bm g = seg_lookup bm (bm_new bm) (mg_vectors g) (mg_id_to_slot g)"

definition merge_ok :: "'b bitmap_ops \<Rightarrow> ('v, 'x) merge_state \<Rightarrow> bool" where
  "merge_ok bm g \<longleftrightarrow> seg_ok bm (bm_new bm) (mg_vectors g) (mg_slot_to_id g) (mg_id_to_slot g)"

lemma merge_names:
  assumes "bitmap_ok bm" "merge_ok bm g"
  shows "i \<in> set (mg_slot_to_id g) \<longleftrightarrow> mg_id_to_slot g i \<noteq> None"
    and "merge_lookup bm g i = None \<longleftrightarrow> mg_id_to_slot g i = None"
  using seg_okD(2,4,5,6) [OF assms(2) [unfolded merge_ok_def]]
  by (auto simp: merge_lookup_def seg_lookup_def bitmap_okD(1) [OF assms(1)] in_set_conv_nth split: option.splits)
    blast

lemma merge_slot_keeps:
  assumes bm: "bitmap_ok bm" and g: "merge_ok bm g" and s: "frozen_ok bm s" and k: "k < length (is_vectors s)"
    and room: "Suc (length (mg_vectors g)) < 2 ^ 32"
  obtains g' where "merge_slot bm vo dm s k g = Some g'" "merge_ok bm g'"
    "length (mg_vectors g') \<le> Suc (length (mg_vectors g))"
    "merge_lookup bm g' =
       map_of (live_entries bm (is_tombstones s) (is_vectors s) (is_slot_to_id s) [k]) ++ merge_lookup bm g"
proof -
  let ?i = "is_slot_to_id s ! k" and ?v = "is_vectors s ! k" and ?slot = "word_of_nat (length (mg_vectors g)) :: 32 word"
  have len: "k < length (is_slot_to_id s)" using k seg_okD(2) s by (metis frozen_ok_def)
  show thesis
  proof (cases "bm_contains bm (is_tombstones s) (word_of_nat k) \<or> ?i \<in> set (mg_slot_to_id g)")
    case True
    have "merge_lookup bm g = map_of (live_entries bm (is_tombstones s) (is_vectors s) (is_slot_to_id s) [k]) ++ merge_lookup bm g"
      using True merge_names [OF bm g, of ?i] by (auto simp: fun_eq_iff map_add_def split: option.split)
    then show thesis
      using True that [of "g\<lparr>mg_purged := mg_purged g + 1\<rparr>"] k len g
      by (auto simp: merge_slot_def nth_opt_def merge_ok_def merge_lookup_def)
  next
    case False
    then have new: "mg_id_to_slot g ?i = None" using merge_names(1) [OF bm g] by simp
    note app = seg_ok_append [OF bm g [unfolded merge_ok_def] room, where i = ?i and v = ?v]
    show thesis
      using False new app k len merge_names(2) [OF bm g, of ?i]
        that [of "g\<lparr>mg_id_to_slot := (mg_id_to_slot g)(?i \<mapsto> ?slot), mg_slot_to_id := mg_slot_to_id g @ [?i],
          mg_territories := ri_insert vo dm ?v ?slot (mg_territories g), mg_vectors := mg_vectors g @ [?v]\<rparr>"]
      by (auto simp: merge_slot_def nth_opt_def merge_ok_def merge_lookup_def Let_def fun_eq_iff map_add_def
          split: option.split)
  qed
qed

lemma merge_slots_keeps:
  assumes bm: "bitmap_ok bm" and s: "frozen_ok bm s"
  shows "merge_ok bm g \<Longrightarrow> \<forall>k \<in> set ks. k < length (is_vectors s) \<Longrightarrow> length (mg_vectors g) + length ks < 2 ^ 32 \<Longrightarrow>
    \<exists>g'. merge_slots bm vo dm s ks g = Some g' \<and> merge_ok bm g' \<and>
      length (mg_vectors g') \<le> length (mg_vectors g) + length ks \<and>
      merge_lookup bm g' =
        map_of (live_entries bm (is_tombstones s) (is_vectors s) (is_slot_to_id s) ks) ++ merge_lookup bm g"
proof (induction ks arbitrary: g)
  case (Cons k ks)
  obtain g1 where g1: "merge_slot bm vo dm s k g = Some g1" "merge_ok bm g1"
      "length (mg_vectors g1) \<le> Suc (length (mg_vectors g))"
      "merge_lookup bm g1 =
         map_of (live_entries bm (is_tombstones s) (is_vectors s) (is_slot_to_id s) [k]) ++ merge_lookup bm g"
    using merge_slot_keeps [OF bm Cons.prems(1) s, of k vo dm] Cons.prems(2,3) by auto
  from Cons.IH [OF g1(2)] Cons.prems(2,3) g1(3) obtain g' where g': "merge_slots bm vo dm s ks g1 = Some g'"
      "merge_ok bm g'" "length (mg_vectors g') \<le> length (mg_vectors g1) + length ks"
      "merge_lookup bm g' =
         map_of (live_entries bm (is_tombstones s) (is_vectors s) (is_slot_to_id s) ks) ++ merge_lookup bm g1"
    by auto
  have "merge_lookup bm g' =
      map_of (live_entries bm (is_tombstones s) (is_vectors s) (is_slot_to_id s) (k # ks)) ++ merge_lookup bm g"
    unfolding g'(4) g1(4) by (simp add: map_of_append)
  then show ?case using g1(1,3) g'(1-3) by auto
qed simp

lemma merge_segments_keeps:
  assumes bm: "bitmap_ok bm"
  shows "merge_ok bm g \<Longrightarrow> \<forall>s \<in> set ss. frozen_ok bm s \<Longrightarrow>
    maps_disjoint (merge_lookup bm g # map (frozen_lookup bm) ss) \<Longrightarrow>
    length (mg_vectors g) + sum_list (map (\<lambda>s. length (is_vectors s)) ss) < 2 ^ 32 \<Longrightarrow>
    \<exists>g'. merge_segments bm vo dm ss g = Some g' \<and> merge_ok bm g' \<and>
      length (mg_vectors g') \<le> length (mg_vectors g) + sum_list (map (\<lambda>s. length (is_vectors s)) ss) \<and>
      (\<forall>i v. merge_lookup bm g' i = Some v \<longleftrightarrow>
        (\<exists>m \<in> set (merge_lookup bm g # map (frozen_lookup bm) ss). m i = Some v))"
proof (induction ss arbitrary: g)
  case (Cons s ss)
  have s: "frozen_ok bm s" using Cons.prems(2) by simp
  have "length (mg_vectors g) + length [0..<length (is_vectors s)] < 2 ^ 32" using Cons.prems(4) by simp
  then obtain g1 where g1: "merge_slots bm vo dm s [0..<length (is_vectors s)] g = Some g1" "merge_ok bm g1"
      "length (mg_vectors g1) \<le> length (mg_vectors g) + length (is_vectors s)"
      "merge_lookup bm g1 = frozen_lookup bm s ++ merge_lookup bm g"
    using merge_slots_keeps [OF bm s Cons.prems(1), of "[0..<length (is_vectors s)]" vo dm]
      live_entries_lookup [OF s [unfolded frozen_ok_def]] by (auto simp: frozen_lookup_def)
  have one: "merge_lookup bm g1 i = Some v \<longleftrightarrow> merge_lookup bm g i = Some v \<or> frozen_lookup bm s i = Some v" for i v
  proof -
    have "dom (merge_lookup bm g) \<inter> dom (frozen_lookup bm s) = {}" using Cons.prems(3) by simp
    then have "merge_lookup bm g i = None \<or> frozen_lookup bm s i = None"
      using domIff [of i "merge_lookup bm g"] domIff [of i "frozen_lookup bm s"] by blast
    then show ?thesis unfolding g1(4) by (auto simp: map_add_Some_iff)
  qed
  have "dom (merge_lookup bm g1) = dom (merge_lookup bm g) \<union> dom (frozen_lookup bm s)"
    unfolding g1(4) by (simp add: Un_commute)
  then have "maps_disjoint (merge_lookup bm g1 # map (frozen_lookup bm) ss)"
    using Cons.prems(3) by (auto simp: Int_Un_distrib2)
  from Cons.IH [OF g1(2) _ this] Cons.prems(2,4) g1(3) obtain g' where g': "merge_segments bm vo dm ss g1 = Some g'"
      "merge_ok bm g'"
      "length (mg_vectors g') \<le> length (mg_vectors g1) + sum_list (map (\<lambda>s. length (is_vectors s)) ss)"
      "\<forall>i v. merge_lookup bm g' i = Some v \<longleftrightarrow>
        (\<exists>m \<in> set (merge_lookup bm g1 # map (frozen_lookup bm) ss). m i = Some v)"
    by auto
  have "merge_lookup bm g' i = Some v \<longleftrightarrow>
      (\<exists>m \<in> set (merge_lookup bm g # map (frozen_lookup bm) (s # ss)). m i = Some v)" for i v
    using g'(4) one by auto
  then show ?case using g1(1,3) g'(1-3) by auto
qed simp

lemma compact_build_ok:
  fixes e :: "('v, 'x, 'b, 'p, 'd) segmented_engine" and vo :: "('v, 'f, 'x, 'p) vector_ops"
  assumes bm: "bitmap_ok bm" and ok: "engine_ok bm n e" and n: "n < 2 ^ 32"
  obtains i p s where "compact_build bm vo (immutable_segments e) e =
      Some (i, p, e\<lparr>next_segment_id := Suc (next_segment_id e), se_heap := (se_heap e)(i \<mapsto> s)\<rparr>)"
    "i = next_segment_id e" "frozen_ok bm s"
    "length (is_vectors s) \<le> sum_list (map (\<lambda>s. length (is_vectors s)) (frozen_segments e (immutable_segments e)))"
    "\<forall>i v. frozen_lookup bm s i = Some v \<longleftrightarrow>
       (\<exists>m \<in> set (map (frozen_lookup bm) (frozen_segments e (immutable_segments e))). m i = Some v)"
proof -
  let ?ss = "rev (frozen_segments e (immutable_segments e))"
  let ?g0 = "\<lparr>mg_vectors = [] :: 'v list, mg_id_to_slot = Map.empty, mg_slot_to_id = [], mg_territories = ri_new vo, mg_purged = 0\<rparr>"
  have g0: "merge_ok bm ?g0" "merge_lookup bm ?g0 = Map.empty"
    using bm by (simp_all add: merge_ok_def merge_lookup_def seg_ok_empty seg_lookup_empty)
  have fr: "\<forall>s \<in> set ?ss. frozen_ok bm s"
    using engine_okD(8,10) [OF ok] by (fastforce simp: engine_segments [OF ok])
  have sum: "sum_list (map (\<lambda>s. length (is_vectors s)) ?ss) =
      sum_list (map (\<lambda>s. length (is_vectors s)) (frozen_segments e (immutable_segments e)))"
    by (simp add: rev_map [symmetric] sum_list.rev)
  have dis: "maps_disjoint (merge_lookup bm ?g0 # map (frozen_lookup bm) ?ss)"
    using engine_okD(11) [OF ok] by (simp add: g0 engine_maps_def rev_map [symmetric] maps_disjoint_rev)
  have "length (mg_vectors ?g0) + sum_list (map (\<lambda>s. length (is_vectors s)) ?ss) < 2 ^ 32"
    using engine_okD(12) [OF ok] n unfolding sum by (simp add: vectors_held_def)
  from merge_segments_keeps [OF bm g0(1) fr dis this, of vo "se_dimension e"]
  obtain g where "merge_segments bm vo (se_dimension e) ?ss ?g0 = Some g \<and> merge_ok bm g \<and>
      length (mg_vectors g) \<le> length (mg_vectors ?g0) + sum_list (map (\<lambda>s. length (is_vectors s)) ?ss) \<and>
      (\<forall>i v. merge_lookup bm g i = Some v \<longleftrightarrow>
        (\<exists>m \<in> set (merge_lookup bm ?g0 # map (frozen_lookup bm) ?ss). m i = Some v))" by blast
  then have g: "merge_segments bm vo (se_dimension e) ?ss ?g0 = Some g" "merge_ok bm g"
      "length (mg_vectors g) \<le> sum_list (map (\<lambda>s. length (is_vectors s)) ?ss)"
      "merge_lookup bm g i = Some v \<longleftrightarrow>
        (\<exists>m \<in> set (map (frozen_lookup bm) (frozen_segments e (immutable_segments e))). m i = Some v)" for i v
    by (simp_all add: g0(2))
  let ?s = "\<lparr>is_id = next_segment_id e, is_dimension = se_dimension e, is_vectors = mg_vectors g,
     is_id_to_slot = mg_id_to_slot g, is_slot_to_id = mg_slot_to_id g, is_tombstones = bm_new bm,
     is_territories = mg_territories g,
     is_proof_tree = pt_build vo (mg_vectors g)
       (map word_of_nat [0..<unat (word_of_nat (length (mg_vectors g)) :: 32 word)]) (se_dimension e)\<rparr>"
  have look: "frozen_lookup bm ?s = merge_lookup bm g" by (simp add: frozen_lookup_def merge_lookup_def)
  show thesis
  proof (rule that [of _ _ ?s])
    show "compact_build bm vo (immutable_segments e) e =
        Some (next_segment_id e, mg_purged g,
          e\<lparr>next_segment_id := Suc (next_segment_id e), se_heap := (se_heap e)(next_segment_id e \<mapsto> ?s)\<rparr>)"
      unfolding compact_build_def g(1) by (simp add: Let_def)
    show "frozen_ok bm ?s" using g(2) by (simp add: frozen_ok_def merge_ok_def)
    show "length (is_vectors ?s) \<le> sum_list (map (\<lambda>s. length (is_vectors s)) (frozen_segments e (immutable_segments e)))"
      using g(3) sum by simp
  qed (simp_all add: look g(4))
qed

lemma compact_ok:
  assumes bm: "bitmap_ok bm" and ok: "engine_ok bm n e" and n: "n < 2 ^ 32"
  obtains p e' where "compact bm vo e = Some (Inr p, e')" "engine_ok bm n e'" "contents bm e' = contents bm e"
    "se_dimension e' = se_dimension e" "metadata_store e' = metadata_store e" "se_wal e' = se_wal e"
    "wal_durability e' = wal_durability e"
proof (cases "length (immutable_segments e) < 2")
  case True
  then show thesis using that [of 0 e] ok by (simp add: compact_def)
next
  case False
  obtain i p s where b: "compact_build bm vo (immutable_segments e) e =
      Some (i, p, e\<lparr>next_segment_id := Suc (next_segment_id e), se_heap := (se_heap e)(i \<mapsto> s)\<rparr>)"
      "i = next_segment_id e" "frozen_ok bm s"
      "length (is_vectors s) \<le> sum_list (map (\<lambda>s. length (is_vectors s)) (frozen_segments e (immutable_segments e)))"
      "\<forall>i v. frozen_lookup bm s i = Some v \<longleftrightarrow>
         (\<exists>m \<in> set (map (frozen_lookup bm) (frozen_segments e (immutable_segments e))). m i = Some v)"
    by (rule compact_build_ok [OF bm ok n, where vo = vo])
  let ?e = "e\<lparr>next_segment_id := Suc (next_segment_id e), se_heap := (se_heap e)(i \<mapsto> s), immutable_segments := [i]\<rparr>"
  have segs: "frozen_segments ?e [i] = [s]" by (simp add: frozen_segments_def List.map_filter_def)
  have maps: "engine_maps bm ?e = [ms_lookup bm (active_mutable e), frozen_lookup bm s]"
    unfolding engine_maps_def using segs by simp
  have "ms_lookup bm (active_mutable e) j = None" if j: "frozen_lookup bm s j = Some v" for j v
  proof -
    obtain m where m: "m \<in> set (map (frozen_lookup bm) (frozen_segments e (immutable_segments e)))" "m j = Some v"
      using j b(5) by blast
    from maps_disjointD [OF engine_okD(11) [OF ok, unfolded engine_maps_def] m(1), of j] m(2)
    show ?thesis by simp
  qed
  then have "frozen_lookup bm s j = None" if "ms_lookup bm (active_mutable e) j = Some v" for j v
    using that by (cases "frozen_lookup bm s j") auto
  then have dis: "maps_disjoint (engine_maps bm ?e)" by (auto simp: maps disjoint_iff domIff)
  have "engine_ok bm n ?e"
    unfolding engine_ok_def
  proof (intro conjI allI impI ballI)
    fix r s' assume "se_heap ?e r = Some s'"
    then show "r < next_segment_id ?e" "frozen_ok bm s'"
      using engine_okD(7,8) [OF ok, of r s'] b(2,3) by (auto split: if_splits)
  next
    show "vectors_held ?e \<le> n"
      using engine_okD(12) [OF ok] b(4) segs by (simp add: vectors_held_def)
  qed (use dis b(2) engine_okD [OF ok] in auto)
  moreover have "contents bm ?e = contents bm e"
    unfolding contents_def
    by (rule joined_eqI [OF dis engine_okD(11) [OF ok]], unfold maps engine_maps_def [of bm e]) (auto simp: b(5))
  ultimately show thesis using that [of p ?e] b(1) False by (simp add: compact_def compact_swap_def)
qed

section \<open>Runs\<close>

datatype ('v, 'd) engine_op =
    EngUpsert string 'v "'d metadata option"
  | EngDelete string
  | EngPatch string "'d metadata"
  | EngRotate
  | EngCompact

text \<open>A step that panics or reports an error has no result.\<close>

fun engine_step ::
  "'b bitmap_ops \<Rightarrow> ('v, 'f, 'x, 'p) vector_ops \<Rightarrow> ('v, 'd) engine_op \<Rightarrow> ('v, 'x, 'b, 'p, 'd) segmented_engine \<Rightarrow>
     ('v, 'x, 'b, 'p, 'd) segmented_engine option" where
  "engine_step bm vo (EngUpsert i v md) e =
     (case apply_committed_upsert bm vo i v md e of Some (Inr _, e') \<Rightarrow> Some e' | _ \<Rightarrow> None)"
| "engine_step bm vo (EngDelete i) e = Some (snd (apply_delete_unlogged bm i e))"
| "engine_step bm vo (EngPatch i patch) e = Some (apply_committed_metadata_patch i patch e)"
| "engine_step bm vo EngRotate e = rotate_active bm vo e"
| "engine_step bm vo EngCompact e =
     (case compact bm vo e of Some (Inr _, e') \<Rightarrow> Some e' | _ \<Rightarrow> None)"

fun map_step :: "('v, 'd) engine_op \<Rightarrow> (string \<rightharpoonup> 'v) \<times> (string \<rightharpoonup> 'd metadata) \<Rightarrow>
     (string \<rightharpoonup> 'v) \<times> (string \<rightharpoonup> 'd metadata)" where
  "map_step (EngUpsert i v md) (c, t) = (c(i \<mapsto> v), (case md of None \<Rightarrow> t | Some meta \<Rightarrow> t(i \<mapsto> meta)))"
| "map_step (EngDelete i) (c, t) = (c(i := None), t(i := None))"
| "map_step (EngPatch i patch) (c, t) =
     (c, t(i \<mapsto> (case t i of None \<Rightarrow> patch | Some meta \<Rightarrow> meta ++ patch)))"
| "map_step EngRotate (c, t) = (c, t)"
| "map_step EngCompact (c, t) = (c, t)"

fun well_dimensioned :: "('v, 'f, 'x, 'p) vector_ops \<Rightarrow> nat \<Rightarrow> ('v, 'd) engine_op \<Rightarrow> bool" where
  "well_dimensioned vo dm (EngUpsert i v md) \<longleftrightarrow> v_dimension vo v = dm"
| "well_dimensioned vo dm _ \<longleftrightarrow> True"

lemma apply_upsert_ok:
  assumes bm: "bitmap_ok bm" and ok: "engine_ok bm n e"
    and dm: "v_dimension vo v = se_dimension e" and n: "Suc n < 2 ^ 32"
  obtains e' where "apply_upsert_unlogged bm vo i v e = Some (Inr (), e')" "engine_ok bm (Suc n) e'"
    "contents bm e' = (contents bm e)(i \<mapsto> v)" "se_dimension e' = se_dimension e"
    "metadata_store e' = metadata_store e" "se_wal e' = se_wal e" "wal_durability e' = wal_durability e"
proof -
  note d = delete_internal_ok [OF bm ok, of i]
  have "contents bm (snd (delete_internal bm i e)) i = None" by (simp add: d(2))
  moreover have "v_dimension vo v = se_dimension (snd (delete_internal bm i e))"
    using dm by (simp add: delete_internal_fields)
  ultimately obtain e' where "insert_active bm vo i v (snd (delete_internal bm i e)) = Some (Inr (), e')"
      "engine_ok bm (Suc n) e'" "contents bm e' = (contents bm (snd (delete_internal bm i e)))(i \<mapsto> v)"
      "se_dimension e' = se_dimension (snd (delete_internal bm i e))"
      "metadata_store e' = metadata_store (snd (delete_internal bm i e))"
      "se_wal e' = se_wal (snd (delete_internal bm i e))"
      "wal_durability e' = wal_durability (snd (delete_internal bm i e))"
    using insert_active_ok [OF bm d(1) _ _ n] by metis
  then show thesis using that [of e']
    by (simp add: apply_upsert_unlogged_def delete_internal_fields d(2) forget_def)
qed

lemma engine_step_ok:
  fixes e :: "('v, 'x, 'b, 'p, 'd) segmented_engine"
  assumes bm: "bitmap_ok bm" and ok: "engine_ok bm n e" and n: "Suc n < 2 ^ 32"
    and dm: "well_dimensioned vo (se_dimension e) oper"
  obtains e' where "engine_step bm vo oper e = Some e'" "engine_ok bm (Suc n) e'" "se_dimension e' = se_dimension e"
    "se_wal e' = se_wal e" "(contents bm e', metadata_store e') = map_step oper (contents bm e, metadata_store e)"
proof (cases oper)
  case (EngUpsert i v md)
  then have d: "v_dimension vo v = se_dimension e" using dm by simp
  obtain e1 where e1: "apply_upsert_unlogged bm vo i v e = Some (Inr (), e1)" "engine_ok bm (Suc n) e1"
      "contents bm e1 = (contents bm e)(i \<mapsto> v)" "se_dimension e1 = se_dimension e"
      "metadata_store e1 = metadata_store e" "se_wal e1 = se_wal e"
    by (rule apply_upsert_ok [OF bm ok d n])
  show thesis
    using that [of "case md of None \<Rightarrow> e1 | Some meta \<Rightarrow> e1\<lparr>metadata_store := (metadata_store e1)(i \<mapsto> meta)\<rparr>"]
      e1(2-6) by (cases md) (simp_all add: EngUpsert apply_committed_upsert_def e1(1))
next
  case (EngDelete i)
  let ?e = "e\<lparr>metadata_store := (metadata_store e)(i := None)\<rparr>"
  have ok': "engine_ok bm n ?e" using ok by simp
  have c: "contents bm (snd (delete_internal bm i ?e)) = (contents bm e)(i := None)"
    using delete_internal_ok(2) [OF bm ok', of i] by (simp add: forget_def)
  show thesis
    by (rule that [of "snd (delete_internal bm i ?e)"])
      (use engine_ok_mono [OF delete_internal_ok(1) [OF bm ok', of i], of "Suc n"] in
        \<open>simp_all add: EngDelete apply_delete_unlogged_def c delete_internal_fields\<close>)
next
  case (EngPatch i patch)
  then show thesis using that [of "apply_committed_metadata_patch i patch e"] engine_ok_mono [OF ok, of "Suc n"]
    by (cases "metadata_store e i") (simp_all add: apply_committed_metadata_patch_def)
next
  case EngRotate
  obtain e' where "rotate_active bm vo e = Some e'" "engine_ok bm n e'" "contents bm e' = contents bm e"
      "se_dimension e' = se_dimension e" "metadata_store e' = metadata_store e" "se_wal e' = se_wal e"
    by (rule rotate_active_ok [OF bm ok])
  then show thesis using that [of e'] EngRotate engine_ok_mono [of bm n e' "Suc n"] by simp
next
  case EngCompact
  obtain p e' where "compact bm vo e = Some (Inr p, e')" "engine_ok bm n e'" "contents bm e' = contents bm e"
      "se_dimension e' = se_dimension e" "metadata_store e' = metadata_store e" "se_wal e' = se_wal e"
    using n by (elim compact_ok [OF bm ok Suc_lessD])
  then show thesis using that [of e'] EngCompact engine_ok_mono [of bm n e' "Suc n"] by simp
qed

lemma engine_run_ok:
  assumes bm: "bitmap_ok bm"
  shows "engine_ok bm n e \<Longrightarrow> n + length ops < 2 ^ 32 \<Longrightarrow> list_all (well_dimensioned vo (se_dimension e)) ops \<Longrightarrow>
    \<exists>e'. run_ops (engine_step bm vo) ops e = Some e' \<and> engine_ok bm (n + length ops) e' \<and>
      se_dimension e' = se_dimension e \<and> se_wal e' = se_wal e \<and>
      (contents bm e', metadata_store e') = fold map_step ops (contents bm e, metadata_store e)"
proof (induction ops arbitrary: n e)
  case (Cons oper ops)
  obtain e1 where e1: "engine_step bm vo oper e = Some e1" "engine_ok bm (Suc n) e1" "se_dimension e1 = se_dimension e"
      "se_wal e1 = se_wal e" "(contents bm e1, metadata_store e1) = map_step oper (contents bm e, metadata_store e)"
    using engine_step_ok [OF bm Cons.prems(1), of vo oper] Cons.prems(2,3) by auto
  show ?case using Cons.IH [OF e1(2)] Cons.prems(2,3) by (simp add: e1(1,3,4) e1(5) [symmetric])
qed simp

section \<open>Properties\<close>

text \<open>Vectors of integers with an index that proposes every slot.\<close>

definition demo_vo :: "(int list, int, 32 word list, unit) vector_ops" where
  "demo_vo =
     \<lparr>v_dimension = length, v_score = (\<lambda>q v. sum_list (map2 (*) q v)), v_normalized = (\<lambda>q. q),
      ri_new = [], ri_insert = (\<lambda>dm v s x. x @ [s]), ri_candidates = (\<lambda>dm q x. x),
      pt_build = (\<lambda>vs ss dm. ()), pt_search = (\<lambda>q k p vs dead ss. [])\<rparr>"

definition demo_engine_ops :: "(int list, int) engine_op list" where
  "demo_engine_ops =
     [EngUpsert ''a'' [1, 0] None, EngUpsert ''b'' [0, 1] (Some [''x'' \<mapsto> 5]), EngUpsert ''a'' [2, 3] None,
      EngPatch ''b'' [''y'' \<mapsto> 6], EngRotate, EngDelete ''c'', EngCompact, EngUpsert ''c'' [4, 4] None]"

text \<open>
  C13. The segmented engine is a finite map. Over any sequence of fewer than \<open>2 ^ 32\<close> committed
  upserts with vectors of the engine's dimension, deletes, metadata patches, rotations and
  compactions, every operation succeeds, and the engine holds for each identifier the vector written
  last and the metadata written last, whichever segments they lie in: rotation and compaction change
  nothing, and no deleted or superseded vector comes back.
\<close>

theorem engine_refines_map:
  assumes "bitmap_ok bm" "0 < cap" "length ops < 2 ^ 32" "list_all (well_dimensioned vo dm) ops"
  shows "\<exists>e. run_ops (engine_step bm vo) ops (se_new bm vo dm cap) = Some e \<and>
    (contents bm e, metadata_store e) = fold map_step ops (Map.empty, Map.empty)"
  using engine_run_ok [OF assms(1) engine_new(1) [OF assms(1,2), of vo dm], of ops vo] assms(3,4)
  by (auto simp: engine_new(2) [OF assms(1,2)])

theorem engine_refines_map_witness:
  "\<exists>e. run_ops (engine_step list_bitmap demo_vo) demo_engine_ops (se_new list_bitmap demo_vo 2 1) = Some e \<and>
     contents list_bitmap e ''a'' = Some [2, 3] \<and> contents list_bitmap e ''b'' = Some [0, 1] \<and>
     contents list_bitmap e ''c'' = Some [4, 4] \<and> get_metadata e ''b'' = Some [''x'' \<mapsto> 5, ''y'' \<mapsto> 6]"
proof -
  have "list_all (well_dimensioned demo_vo 2) demo_engine_ops" "length demo_engine_ops < 2 ^ 32"
    by (simp_all add: demo_engine_ops_def demo_vo_def)
  moreover have "fold map_step demo_engine_ops (Map.empty, Map.empty) =
      ([''a'' \<mapsto> [2, 3], ''b'' \<mapsto> [0, 1], ''c'' \<mapsto> [4, 4]], [''b'' \<mapsto> [''x'' \<mapsto> 5, ''y'' \<mapsto> 6]])"
    by (auto simp: demo_engine_ops_def fun_eq_iff map_add_def)
  ultimately show ?thesis
    using engine_refines_map [OF list_bitmap_ok, of 1 demo_engine_ops demo_vo 2] by (auto simp: get_metadata_def)
qed

end
