(* ===== verification/Vector_Search.thy ===== *)
theory Vector_Search
  imports Vector_Map "HOL-Library.Multiset"
begin

text \<open>
  Exact search over the segmented engine returns a best selection of all stored vectors: the best of
  each segment, merged, are the best of all.
\<close>

section \<open>Rankings\<close>

lemma ranks_before_trans: "ranks_before a b \<Longrightarrow> ranks_before b c \<Longrightarrow> ranks_before a c"
  by (auto simp: ranks_before_def)

lemma ranks_before_total: "ranks_before a b \<or> ranks_before b a"
  by (auto simp: ranks_before_def)

lemma ranks_before_le: "ranks_before a b \<Longrightarrow> snd b \<le> snd a"
  by (auto simp: ranks_before_def)

lemma mset_insert_ranked [simp]: "mset (insert_ranked a xs) = add_mset a (mset xs)"
  by (induction xs) simp_all

lemma mset_ranked [simp]: "mset (ranked xs) = mset xs"
  by (induction xs) (simp_all add: ranked_def)

lemma length_ranked [simp]: "length (ranked xs) = length xs"
  by (metis mset_ranked size_mset)

lemma set_ranked [simp]: "set (ranked xs) = set xs"
  by (metis mset_ranked set_mset_mset)

lemma sorted_insert_ranked: "sorted_wrt ranks_before xs \<Longrightarrow> sorted_wrt ranks_before (insert_ranked a xs)"
proof (induction xs)
  case (Cons b xs)
  have set: "set (insert_ranked a xs) = insert a (set xs)" by (metis mset_insert_ranked set_mset_add_mset_insert set_mset_mset)
  show ?case
    using Cons ranks_before_total [of a b] ranks_before_trans [of a b] by (auto simp: set)
qed simp

lemma sorted_ranked: "sorted_wrt ranks_before (ranked xs)"
  by (induction xs) (simp_all add: ranked_def sorted_insert_ranked)

section \<open>Best selections\<close>

definition best_of :: "nat \<Rightarrow> ('k \<times> 'f::linorder) list \<Rightarrow> ('k \<times> 'f) list \<Rightarrow> bool" where
  "best_of k xs rs \<longleftrightarrow>
     (\<exists>rest. mset xs = mset rs + mset rest \<and> length rs = min k (length xs) \<and>
       (\<forall>a \<in> set rs. \<forall>b \<in> set rest. snd b \<le> snd a))"

lemma best_of_cong: "mset xs = mset ys \<Longrightarrow> best_of k xs rs = best_of k ys rs"
  using mset_eq_length [of xs ys] by (simp add: best_of_def)

lemma best_of_ranked:
  fixes xs :: "('k::linorder \<times> 'f::linorder) list"
  shows "best_of k xs (take k (ranked xs))"
proof -
  have "sorted_wrt ranks_before (take k (ranked xs) @ drop k (ranked xs))" by (simp add: sorted_ranked)
  then have "\<forall>a \<in> set (take k (ranked xs)). \<forall>b \<in> set (drop k (ranked xs)). snd b \<le> snd a"
    unfolding sorted_wrt_append by (meson ranks_before_le)
  moreover have "mset xs = mset (take k (ranked xs)) + mset (drop k (ranked xs))"
    by (metis append_take_drop_id mset_append mset_ranked)
  ultimately show ?thesis unfolding best_of_def by (intro exI [of _ "drop k (ranked xs)"]) simp
qed

lemma best_of_map:
  assumes "best_of k xs rs" "\<And>a. snd (f a) = snd a"
  shows "best_of k (map f xs) (map f rs)"
proof -
  obtain rest where r: "mset xs = mset rs + mset rest" "length rs = min k (length xs)"
      "\<forall>a \<in> set rs. \<forall>b \<in> set rest. snd b \<le> snd a"
    using assms(1) unfolding best_of_def by blast
  then show ?thesis unfolding best_of_def by (intro exI [of _ "map f rest"]) (simp add: assms(2))
qed

text \<open>A best selection of selections is a best selection of the whole.\<close>

lemma best_of_append:
  assumes "best_of k xs rs" "best_of k (rs @ ys) ts"
  shows "best_of k (xs @ ys) ts"
proof -
  obtain r1 where r1: "mset xs = mset rs + mset r1" "length rs = min k (length xs)"
      "\<forall>a \<in> set rs. \<forall>b \<in> set r1. snd b \<le> snd a"
    using assms(1) unfolding best_of_def by blast
  obtain r2 where r2: "mset (rs @ ys) = mset ts + mset r2" "length ts = min k (length (rs @ ys))"
      "\<forall>a \<in> set ts. \<forall>b \<in> set r2. snd b \<le> snd a"
    using assms(2) unfolding best_of_def by blast
  have "snd b \<le> snd a" if a: "a \<in> set ts" and b: "b \<in> set r1" for a b
  proof (rule ccontr)
    assume less: "\<not> snd b \<le> snd a"
    have "length xs = length rs + length r1" by (metis r1(1) size_mset size_union)
    then have full: "length rs = k" using r1(2) b by (cases r1) auto
    have "count (mset rs) x \<le> count (mset ts) x" for x
    proof (cases "x \<in> set rs")
      case True
      then have "snd b \<le> snd x" using r1(3) b by blast
      then have "x \<notin> set r2" using r2(3) a less by (meson order_trans)
      then have "count (mset r2) x = 0" by (simp add: count_eq_zero_iff)
      moreover have "count (mset rs) x + count (mset ys) x = count (mset ts) x + count (mset r2) x"
        using arg_cong [OF r2(1), of "\<lambda>m. count m x"] by simp
      ultimately show ?thesis by linarith
    next
      case False
      then have "count (mset rs) x = 0" by (simp add: count_eq_zero_iff)
      then show ?thesis by linarith
    qed
    then have sub: "mset rs \<subseteq># mset ts" by (rule mset_subset_eqI)
    have "size (mset rs) = size (mset ts)" using r2(2) full by simp
    then have "mset rs = mset ts" using sub mset_subset_size [of "mset rs" "mset ts"] by (auto simp: subset_mset.le_less)
    then have "a \<in> set rs" using a by (metis set_mset_mset)
    then show False using r1(3) b less by blast
  qed
  then have "\<forall>a \<in> set ts. \<forall>b \<in> set (r1 @ r2). snd b \<le> snd a" using r2(3) by auto
  moreover have "mset (xs @ ys) = mset ts + mset (r1 @ r2)" using r1(1) r2(1) by simp
  moreover have "length ts = min k (length (xs @ ys))" using r1(2) r2(2) by simp
  ultimately show ?thesis unfolding best_of_def by blast
qed

lemma best_of_concat:
  "list_all2 (best_of k) xss rss \<Longrightarrow> best_of k (ys @ concat rss) ts \<Longrightarrow> best_of k (ys @ concat xss) ts"
proof (induction arbitrary: ys rule: list_all2_induct)
  case (Cons xs xss rs rss)
  have "best_of k (rs @ ys @ concat rss) ts"
    using Cons.prems by (subst best_of_cong [of _ "ys @ concat (rs # rss)"]) simp_all
  then have "best_of k (xs @ ys @ concat rss) ts" by (rule best_of_append [OF Cons.hyps(1)])
  then have "best_of k ((xs @ ys) @ concat xss) ts" using Cons.IH [of "xs @ ys"] by simp
  then show ?case by (subst best_of_cong [of _ "(xs @ ys) @ concat xss"]) simp_all
qed simp

lemma take_unique_distinct:
  "distinct (map fst (out @ xs)) \<Longrightarrow> length out < k \<Longrightarrow> take_unique k out xs = out @ take (k - length out) xs"
proof (induction xs arbitrary: out)
  case (Cons x xs)
  obtain i f where x: "x = (i, f)" by (cases x)
  have new: "i \<notin> set (map fst out)" using Cons.prems(1) by (auto simp: x)
  show ?case
  proof (cases "k \<le> length (out @ [x])")
    case True
    then have "k - length out = 1" using Cons.prems(2) by simp
    then show ?thesis using True new by (simp add: x)
  next
    case False
    then have "take_unique k (out @ [x]) xs = (out @ [x]) @ take (k - length (out @ [x])) xs"
      using Cons.prems(1) by (intro Cons.IH) simp_all
    moreover have "k - length out = Suc (k - length (out @ [x]))" using False by simp
    ultimately show ?thesis using False new by (simp add: x)
  qed
qed simp

lemma merge_results_distinct:
  assumes "distinct (map fst xs)" "0 < k"
  shows "merge_results k xs = take k (ranked xs)"
proof -
  have "mset (map fst (ranked xs)) = mset (map fst xs)" by simp
  then have "distinct (map fst (ranked xs))" using assms(1) by (metis mset_eq_imp_distinct_iff)
  then show ?thesis using assms(2) take_unique_distinct [of "[]" "ranked xs" k] by (simp add: merge_results_def)
qed

section \<open>Exact search\<close>

lemma all_some_map: "(\<And>x. x \<in> set xs \<Longrightarrow> f x = Some (g x)) \<Longrightarrow> all_some (map f xs) = Some (map g xs)"
  by (induction xs) simp_all

text \<open>The live entries of a segment with their scores.\<close>

definition scored ::
  "('v, 'f, 'x, 'p) vector_ops \<Rightarrow> 'v \<Rightarrow> (string \<times> 'v) list \<Rightarrow> (string \<times> 'f) list" where
  "scored vo q es = map (\<lambda>(i, v). (i, v_score vo q v)) es"

lemma top_slots_best:
  fixes vo :: "('v, 'f::linorder, 'x, 'p) vector_ops"
  assumes "seg_ok bm tombs vs names idx"
  shows "\<exists>rs. top_slots vo q k vs names (live_slots bm tombs (length vs)) = Some rs \<and>
    best_of k (scored vo q (live_entries bm tombs vs names [0..<length vs])) rs"
proof -
  note len = seg_okD(1,2) [OF assms]
  let ?ks = "filter (\<lambda>j. \<not> bm_contains bm tombs (word_of_nat j)) [0..<length vs]"
  let ?xs = "map (\<lambda>j. (word_of_nat j :: 32 word, v_score vo q (vs ! j))) ?ks"
  let ?name = "\<lambda>(s :: 32 word, f :: 'f). (names ! unat s, f)"
  have score: "score_slots vo q vs (live_slots bm tombs (length vs)) = Some ?xs"
    unfolding score_slots_def live_slots_map [OF len(1)] map_map
    using len(1) by (subst all_some_map [where g = "\<lambda>j. (word_of_nat j :: 32 word, v_score vo q (vs ! j))"])
      (simp_all add: nth_opt_def unat_slot)
  have "unat (fst x) < length names" if "x \<in> set (take k (ranked ?xs))" for x
    using in_set_takeD [OF that] len by (auto simp: unat_slot)
  then have name: "name_slots names (take k (ranked ?xs)) = Some (map ?name (take k (ranked ?xs)))"
    unfolding name_slots_def by (intro all_some_map) (auto simp: nth_opt_def)
  have "map ?name ?xs = scored vo q (live_entries bm tombs vs names [0..<length vs])"
    using len(1) by (simp add: scored_def live_entries_def unat_slot)
  then show ?thesis
    using best_of_map [OF best_of_ranked [of k ?xs], of ?name] by (auto simp: top_slots_def score name)
qed

lemma ms_exact:
  assumes "ms_ok bm s" "0 < k"
  shows "\<exists>rs. ms_search_with_contract bm vo q k Exact s = Some rs \<and>
    best_of k (scored vo q (live_entries bm (ms_tombstones s) (ms_vectors s) (ms_slot_to_id s) [0..<length (ms_vectors s)])) rs"
  using top_slots_best [OF assms(1) [unfolded ms_ok_def], of vo q k] assms(2)
  by (auto simp: ms_search_with_contract_def best_of_def scored_def)

lemma is_exact:
  assumes "frozen_ok bm s" "0 < k"
  shows "\<exists>rs. is_search_with_contract bm vo q k Exact s = Some rs \<and>
    best_of k (scored vo q (live_entries bm (is_tombstones s) (is_vectors s) (is_slot_to_id s) [0..<length (is_vectors s)])) rs"
  using top_slots_best [OF assms(1) [unfolded frozen_ok_def], of vo q k] assms(2)
  by (auto simp: is_search_with_contract_def best_of_def scored_def)

lemma search_segments_all:
  "(\<And>s. s \<in> set ss \<Longrightarrow> \<exists>rs. f s = Some rs \<and> P (g s) rs) \<Longrightarrow>
     \<exists>rss. search_segments f ss = Some (concat rss) \<and> list_all2 P (map g ss) rss"
proof (induction ss)
  case (Cons s ss)
  obtain rs rss where "f s = Some rs" "P (g s) rs" "search_segments f ss = Some (concat rss)"
      "list_all2 P (map g ss) rss"
    using Cons by (metis list.set_intros)
  then show ?case by (intro exI [of _ "rs # rss"]) simp
qed simp

text \<open>All live entries of an engine, segment by segment.\<close>

definition engine_entries ::
  "'b bitmap_ops \<Rightarrow> ('v, 'x, 'b, 'p, 'd) segmented_engine \<Rightarrow> (string \<times> 'v) list list" where
  "engine_entries bm e =
     (let a = active_mutable e in
      live_entries bm (ms_tombstones a) (ms_vectors a) (ms_slot_to_id a) [0..<length (ms_vectors a)]) #
     map (\<lambda>s. live_entries bm (is_tombstones s) (is_vectors s) (is_slot_to_id s) [0..<length (is_vectors s)])
       (frozen_segments e (immutable_segments e))"

lemma engine_frozen_ok: "engine_ok bm n e \<Longrightarrow> s \<in> set (frozen_segments e (immutable_segments e)) \<Longrightarrow> frozen_ok bm s"
  using engine_okD(8,10) by (fastforce simp: engine_segments)

lemma engine_entries_maps:
  assumes "engine_ok bm n e"
  shows "map map_of (engine_entries bm e) = engine_maps bm e"
    and "\<forall>es \<in> set (engine_entries bm e). distinct (map fst es)"
proof -
  note a = engine_okD(1) [OF assms, unfolded ms_ok_def] and f = engine_frozen_ok [OF assms, unfolded frozen_ok_def]
  show "map map_of (engine_entries bm e) = engine_maps bm e"
    using f by (simp add: engine_entries_def engine_maps_def Let_def live_entries_lookup [OF a] ms_lookup_def
        live_entries_lookup frozen_lookup_def)
  show "\<forall>es \<in> set (engine_entries bm e). distinct (map fst es)"
    using live_entries_distinct [OF a] live_entries_distinct [OF f] by (auto simp: engine_entries_def Let_def)
qed

lemma concat_disjoint_entries:
  "maps_disjoint (map map_of ess) \<Longrightarrow> \<forall>es \<in> set ess. distinct (map fst es) \<Longrightarrow>
     distinct (map fst (concat ess)) \<and> map_of (concat ess) = joined (map map_of ess)"
proof (induction ess)
  case (Cons es ess)
  have dom: "dom (map_of es) \<inter> dom (map_of (concat ess)) = {}"
  proof -
    have "map_of es i = None" if i: "map_of (concat ess) i = Some v" for i v
    proof -
      have md: "maps_disjoint (map map_of ess)" and IH: "map_of (concat ess) = joined (map map_of ess)"
        using Cons by simp_all
      obtain m where "m \<in> set (map map_of ess)" "m i = Some v" using i [unfolded IH joined_eq [OF md]] by blast
      then show ?thesis using Cons.prems(1) maps_disjointD [of "map_of es" "map map_of ess" m i] by simp
    qed
    then show ?thesis by fastforce
  qed
  then have "set (map fst es) \<inter> set (map fst (concat ess)) = {}" by (simp add: dom_map_of_conv_image_fst)
  then have "distinct (map fst (concat (es # ess)))" using Cons by simp
  moreover have "map_of (concat (es # ess)) = map_of es ++ map_of (concat ess)"
    using map_add_comm [OF dom] by (simp add: map_of_append)
  ultimately show ?case using Cons by simp
qed simp

lemma engine_entries_all:
  assumes "engine_ok bm n e"
  shows "distinct (map fst (concat (engine_entries bm e)))" "map_of (concat (engine_entries bm e)) = contents bm e"
  using concat_disjoint_entries [of "engine_entries bm e"] engine_entries_maps [OF assms] engine_okD(11) [OF assms]
  by (simp_all add: contents_def)

lemma scored_fst [simp]: "map fst (scored vo q es) = map fst es"
  by (simp add: scored_def case_prod_unfold)

lemma scored_concat: "concat (map (scored vo q) ess) = scored vo q (concat ess)"
  by (induction ess) (simp_all add: scored_def)

lemma best_of_subset: "best_of k xs rs \<Longrightarrow> set rs \<subseteq> set xs"
  unfolding best_of_def by (metis set_mset_mset set_mset_union sup_ge1)

lemma best_of_concat_subset: "list_all2 (best_of k) xss rss \<Longrightarrow> mset (concat rss) \<subseteq># mset (concat xss)"
proof (induction rule: list_all2_induct)
  case (Cons xs xss rs rss)
  then have "mset rs \<subseteq># mset xs" by (auto simp: best_of_def)
  then show ?case using Cons.IH by (simp add: subset_mset.add_mono)
qed simp

lemma distinct_submset:
  assumes "mset xs \<subseteq># mset ys" "distinct ys"
  shows "distinct xs"
proof -
  obtain zs where "mset ys = mset (xs @ zs)"
    using assms(1) by (metis ex_mset mset_append mset_subset_eq_exists_conv)
  then have "distinct (xs @ zs)" using assms(2) by (metis mset_eq_imp_distinct_iff)
  then show ?thesis by simp
qed

lemma best_of_distinct:
  assumes "best_of k xs rs" "distinct (map fst xs)"
  shows "distinct (map fst rs)"
proof -
  have "mset rs \<subseteq># mset xs" using assms(1) by (auto simp: best_of_def)
  then have "mset (map fst rs) \<subseteq># mset (map fst xs)" unfolding mset_map by (rule image_mset_subseteq_mono)
  then show ?thesis using assms(2) by (rule distinct_submset)
qed

text \<open>Exact search of an engine that satisfies the invariant.\<close>

lemma engine_exact_search:
  fixes vo :: "('v, 'f::linorder, 'x, 'p) vector_ops"
  assumes ok: "engine_ok bm n e" and k: "0 < k"
  shows "\<exists>rs. se_search_with_contract bm vo q k Exact e = Some rs \<and>
    best_of k (scored vo q (concat (engine_entries bm e))) rs \<and> sorted_wrt ranks_before rs"
proof -
  obtain as where as: "ms_search_with_contract bm vo q k Exact (active_mutable e) = Some as"
      "best_of k (scored vo q (hd (engine_entries bm e))) as"
    using ms_exact [OF engine_okD(1) [OF ok] k, of vo q] by (auto simp: engine_entries_def Let_def)
  obtain rss where rss: "search_segments (is_search_with_contract bm vo q k Exact)
      (frozen_segments e (immutable_segments e)) = Some (concat rss)"
      "list_all2 (best_of k) (map (scored vo q) (tl (engine_entries bm e))) rss"
    using search_segments_all [of "frozen_segments e (immutable_segments e)"
        "is_search_with_contract bm vo q k Exact" "best_of k", OF is_exact [OF engine_frozen_ok [OF ok] k]]
    by (auto simp: engine_entries_def o_def)
  let ?xs = "as @ concat rss" and ?all = "scored vo q (concat (engine_entries bm e))"
  have all: "list_all2 (best_of k) (map (scored vo q) (engine_entries bm e)) (as # rss)"
    using as(2) rss(2) by (simp add: engine_entries_def)
  have part: "best_of k ?all ts" if "best_of k ?xs ts" for ts
    using best_of_concat [OF all, of "[]" ts] that by (simp add: scored_concat)
  have sub: "mset ?xs \<subseteq># mset ?all"
    using best_of_concat_subset [OF all] by (simp add: scored_concat)
  have "mset (map fst ?xs) \<subseteq># mset (map fst ?all)"
    using image_mset_subseteq_mono [OF sub, of fst] unfolding mset_map .
  then have "distinct (map fst ?xs)"
    using engine_entries_all(1) [OF ok] distinct_submset by (metis scored_fst)
  then have "merge_results k ?xs = take k (ranked ?xs)" using k by (intro merge_results_distinct) simp_all
  moreover have "sorted_wrt ranks_before (take k (ranked ?xs))"
    using sorted_ranked [of ?xs] by (metis append_take_drop_id sorted_wrt_append)
  ultimately show ?thesis
    using part [OF best_of_ranked] k by (simp add: se_search_with_contract_def as(1) rss(1))
qed

lemma exact_result:
  fixes vo :: "('v, 'f::linorder, 'x, 'p) vector_ops"
  assumes "distinct (map fst es)" "best_of k (scored vo q es) rs"
  shows "distinct (map fst rs)" "length rs = min k (card (dom (map_of es)))"
    "(i, f) \<in> set rs \<Longrightarrow> \<exists>v. map_of es i = Some v \<and> f = v_score vo q v"
    "map_of es i = Some v \<Longrightarrow> i \<in> fst ` set rs \<or> (\<forall>x \<in> set rs. v_score vo q v \<le> snd x)"
proof -
  obtain rest where r: "mset (scored vo q es) = mset (rs @ rest)" "length rs = min k (length (scored vo q es))"
      "\<forall>a \<in> set rs. \<forall>b \<in> set rest. snd b \<le> snd a"
    using assms(2) unfolding best_of_def mset_append by blast
  show "distinct (map fst rs)" using best_of_distinct [OF assms(2)] assms(1) by simp
  have "card (dom (map_of es)) = length es"
    using assms(1) by (metis dom_map_of_conv_image_fst distinct_card length_map list.set_map)
  then show "length rs = min k (card (dom (map_of es)))" using r(2) by (simp add: scored_def)
  show "\<exists>v. map_of es i = Some v \<and> f = v_score vo q v" if m: "(i, f) \<in> set rs"
  proof -
    obtain v where "(i, v) \<in> set es" "f = v_score vo q v"
      using best_of_subset [OF assms(2)] m by (auto simp: scored_def)
    then show ?thesis using assms(1) by auto
  qed
  show "i \<in> fst ` set rs \<or> (\<forall>x \<in> set rs. v_score vo q v \<le> snd x)" if "map_of es i = Some v"
  proof -
    have "(i, v_score vo q v) \<in> set (scored vo q es)" using map_of_SomeD [OF that] by (force simp: scored_def)
    then have "(i, v_score vo q v) \<in> set rs \<or> (i, v_score vo q v) \<in> set rest"
      using r(1) by (metis UnE set_append set_mset_mset)
    then show ?thesis using r(3) by force
  qed
qed

section \<open>Properties\<close>

text \<open>
  C14. Exact search is exact. After any run of committed operations, \<^verbatim>\<open>search_with_contract\<close>
  under the exact contract returns for every query and every \<open>k\<close> a best selection of all vectors the
  engine holds: \<open>k\<close> of them or all, each identifier once with the score of its current vector, in
  descending order, and every vector left out scores at most as high as each one returned. The
  segments the vectors lie in do not matter.
\<close>

theorem exact_search_best:
  assumes "bitmap_ok bm" "0 < cap" "length ops < 2 ^ 32" "list_all (well_dimensioned vo dm) ops"
    and "run_ops (engine_step bm vo) ops (se_new bm vo dm cap) = Some e"
  shows "\<exists>rs. se_search_with_contract bm vo q k Exact e = Some rs \<and>
    distinct (map fst rs) \<and> sorted_wrt ranks_before rs \<and> length rs = min k (card (dom (contents bm e))) \<and>
    (\<forall>i f. (i, f) \<in> set rs \<longrightarrow> (\<exists>v. contents bm e i = Some v \<and> f = v_score vo q v)) \<and>
    (\<forall>i v. contents bm e i = Some v \<longrightarrow> i \<in> fst ` set rs \<or> (\<forall>x \<in> set rs. v_score vo q v \<le> snd x))"
proof (cases "k = 0")
  case True
  then show ?thesis by (simp add: se_search_with_contract_def)
next
  case False
  have ok: "engine_ok bm (length ops) e"
    using engine_run_ok [OF assms(1) engine_new(1) [OF assms(1,2), of vo dm], of ops vo] assms(3-5) by auto
  obtain rs where rs: "se_search_with_contract bm vo q k Exact e = Some rs"
      "best_of k (scored vo q (concat (engine_entries bm e))) rs" "sorted_wrt ranks_before rs"
    using engine_exact_search [OF ok, of k vo q] False by blast
  note all = engine_entries_all [OF ok]
  show ?thesis using exact_result [OF all(1) rs(2)] rs(1,3) unfolding all(2) by blast
qed

lemmas engine_eval = demo_vo_def list_bitmap_def se_new_def ms_new_def apply_committed_upsert_def
  apply_upsert_unlogged_def delete_internal_def ms_delete_def insert_active_def ms_insert_def rotate_active_def
  freeze_def live_slots_def nth_opt_def Let_def is_delete_def apply_delete_unlogged_def

definition two_segments :: "(int list, int) engine_op list" where
  "two_segments = [EngUpsert ''a'' [1, 0] None, EngUpsert ''b'' [0, 1] None]"

definition demo_engine :: "(int list, 32 word list, 32 word list, unit, int) segmented_engine" where
  "demo_engine = se_new list_bitmap demo_vo 2 1"

lemma two_segments_run:
  "\<exists>e. run_ops (engine_step list_bitmap demo_vo) two_segments demo_engine = Some e \<and>
     contents list_bitmap e = [''a'' \<mapsto> [1, 0], ''b'' \<mapsto> [0, 1]] \<and>
     ms_lookup list_bitmap (active_mutable e) = [''b'' \<mapsto> [0, 1]] \<and> engine_ok list_bitmap 2 e"
proof -
  have w: "list_all (well_dimensioned demo_vo (se_dimension demo_engine)) two_segments" "length two_segments = 2"
    by (simp_all add: two_segments_def demo_vo_def demo_engine_def)
  have new: "engine_ok list_bitmap 0 demo_engine" "contents list_bitmap demo_engine = Map.empty"
    unfolding demo_engine_def by (rule engine_new [OF list_bitmap_ok]; simp)+
  have "0 + length two_segments < 2 ^ 32" by (simp add: w(2))
  from engine_run_ok [OF list_bitmap_ok new(1) this w(1)]
  obtain e where e: "run_ops (engine_step list_bitmap demo_vo) two_segments demo_engine = Some e"
      "engine_ok list_bitmap (0 + length two_segments) e"
      "(contents list_bitmap e, metadata_store e) = fold map_step two_segments (Map.empty, metadata_store demo_engine)"
    unfolding new(2) by blast
  have "contents list_bitmap e = [''a'' \<mapsto> [1, 0], ''b'' \<mapsto> [0, 1]]"
    using e(3) by (simp add: two_segments_def)
  moreover have "ms_lookup list_bitmap (active_mutable e) = [''b'' \<mapsto> [0, 1]]"
    using e(1) by (auto simp: two_segments_def demo_engine_def engine_eval ms_lookup_def seg_lookup_def fun_eq_iff)
  moreover have "engine_ok list_bitmap 2 e" using e(2) unfolding w(2) add_0 .
  ultimately show ?thesis using e(1) by blast
qed

theorem exact_search_best_witness:
  "\<exists>e rs. run_ops (engine_step list_bitmap demo_vo) two_segments demo_engine = Some e \<and>
     se_search_with_contract list_bitmap demo_vo [3, 7] 1 Exact e = Some rs \<and> rs = [(''b'', 7)]"
proof -
  obtain e where e: "run_ops (engine_step list_bitmap demo_vo) two_segments demo_engine = Some e"
      "contents list_bitmap e = [''a'' \<mapsto> [1, 0], ''b'' \<mapsto> [0, 1]]"
    using two_segments_run by blast
  have "list_all (well_dimensioned demo_vo 2) two_segments" "length two_segments < 2 ^ 32"
    by (simp_all add: two_segments_def demo_vo_def)
  from exact_search_best [OF list_bitmap_ok _ this(2,1) e(1) [unfolded demo_engine_def], of "[3, 7]" 1]
  obtain rs where rs: "se_search_with_contract list_bitmap demo_vo [3, 7] 1 Exact e = Some rs" "length rs = 1"
      "\<forall>i f. (i, f) \<in> set rs \<longrightarrow> (\<exists>v. contents list_bitmap e i = Some v \<and> f = v_score demo_vo [3, 7] v)"
      "\<forall>i v. contents list_bitmap e i = Some v \<longrightarrow> i \<in> fst ` set rs \<or> (\<forall>x \<in> set rs. v_score demo_vo [3, 7] v \<le> snd x)"
    by (auto simp: e(2))
  obtain i f where one: "rs = [(i, f)]" using rs(2) by (cases rs) auto
  have "i = ''b'' \<or> 7 \<le> f" using rs(4) [rule_format, of "''b''" "[0, 1]"] by (auto simp: one e(2) demo_vo_def)
  then have "i = ''b'' \<and> f = 7"
    using rs(3) [rule_format, of i f] by (auto simp: one e(2) demo_vo_def split: if_splits)
  then show ?thesis using e(1) rs(1) one by blast
qed

end
