(* ===== verification/Vector_Limits.thy ===== *)
theory Vector_Limits
  imports Vector_Search
begin

text \<open>
  What the segmented engine does not keep: a snapshot sees later deletes in the frozen segments it
  shares with the engine, and a compaction that runs across a rotation drops the rotated segment.
\<close>

section \<open>Snapshots\<close>

text \<open>
  A snapshot searched at any later state of the store returns only entries its frozen segments still
  hold there, and entries of its copy of the active segment.
\<close>

lemma take_unique_subset: "set (take_unique k out xs) \<subseteq> set out \<union> set xs"
proof (induction k out xs rule: take_unique.induct)
  case (2 k out i f xs)
  then show ?case by (simp, blast)
qed simp

lemma is_exact_none:
  fixes vo :: "('v, 'f::linorder, 'x, 'p) vector_ops"
  assumes "frozen_ok bm s" "0 < k" "frozen_lookup bm s i = None"
  shows "\<exists>rs. is_search_with_contract bm vo q k Exact s = Some rs \<and> i \<notin> fst ` set rs"
proof -
  let ?es = "live_entries bm (is_tombstones s) (is_vectors s) (is_slot_to_id s) [0..<length (is_vectors s)]"
  obtain rs where rs: "is_search_with_contract bm vo q k Exact s = Some rs" "best_of k (scored vo q ?es) rs"
    using is_exact [OF assms(1,2), of vo q] by blast
  have "map_of ?es i = None"
    using live_entries_lookup [OF assms(1) [unfolded frozen_ok_def]] assms(3) by (simp add: frozen_lookup_def)
  then have "i \<notin> set (map fst (scored vo q ?es))" by (simp add: map_of_eq_None_iff)
  then have "i \<notin> fst ` set rs" using best_of_subset [OF rs(2)] unfolding list.set_map by blast
  then show ?thesis using rs(1) by blast
qed

lemma snapshot_exact_entries:
  fixes vo :: "('v, 'f::linorder, 'x, 'p) vector_ops"
  assumes "\<forall>s \<in> set (frozen_segments e' (vs_immutable_segments sn)). frozen_ok bm s \<and> frozen_lookup bm s i = None"
    and "frozen_ok bm (vs_active sn)" "frozen_lookup bm (vs_active sn) i = None" "0 < k"
  shows "\<exists>rs. vs_search_with_contract bm vo q k Exact sn e' = Some rs \<and> i \<notin> fst ` set rs"
proof -
  have one: "\<exists>rs. is_search_with_contract bm vo q k Exact s = Some rs \<and> i \<notin> fst ` set rs"
    if "s \<in> set (frozen_segments e' (vs_immutable_segments sn))" for s
    using bspec [OF assms(1) that] by (intro is_exact_none [OF _ assms(4)]) simp_all
  have "\<exists>rss. search_segments (is_search_with_contract bm vo q k Exact)
      (frozen_segments e' (vs_immutable_segments sn)) = Some (concat rss) \<and>
      list_all2 (\<lambda>s rs. i \<notin> fst ` set rs) (map id (frozen_segments e' (vs_immutable_segments sn))) rss"
    by (rule search_segments_all) (rule one)
  then obtain rss where rss: "search_segments (is_search_with_contract bm vo q k Exact)
      (frozen_segments e' (vs_immutable_segments sn)) = Some (concat rss)"
      "list_all2 (\<lambda>s rs. i \<notin> fst ` set rs) (map id (frozen_segments e' (vs_immutable_segments sn))) rss"
    by (elim exE conjE) (rule that)
  obtain as where as: "is_search_with_contract bm vo q k Exact (vs_active sn) = Some as" "i \<notin> fst ` set as"
    using is_exact_none [OF assms(2,4,3), of vo q] by (elim exE conjE) (rule that)
  have "i \<notin> fst ` set rs" if "rs \<in> set rss" for rs
    using rss(2) that by (metis (lifting) in_set_conv_nth list_all2_conv_all_nth)
  then have all: "i \<notin> fst ` set (concat rss @ as)" using as(2) by auto
  have "set (merge_results k (concat rss @ as)) \<subseteq> set (concat rss @ as)"
    using take_unique_subset [of k "[]" "ranked (concat rss @ as)"] by (simp add: merge_results_def)
  then have "i \<notin> fst ` set (merge_results k (concat rss @ as))" using all by blast
  then show ?thesis using assms(4) by (simp add: vs_search_with_contract_def rss(1) as(1))
qed

text \<open>
  C33. A snapshot is not isolated from later deletes. Whenever an identifier is held by a frozen
  segment when a snapshot is taken, and is deleted from the engine afterwards, an exact search of the
  snapshot no longer returns it, for every query and every \<open>k\<close>.
\<close>

theorem snapshot_loses_deleted:
  assumes "bitmap_ok bm" "0 < cap" "length ops < 2 ^ 32" "list_all (well_dimensioned vo dm) ops"
    and "run_ops (engine_step bm vo) ops (se_new bm vo dm cap) = Some e"
    and "se_snapshot bm vo e = Some sn" "ms_lookup bm (active_mutable e) i = None" "0 < k"
  shows "\<exists>rs. vs_search_with_contract bm vo q k Exact sn (snd (delete_internal bm i e)) = Some rs \<and> i \<notin> fst ` set rs"
proof -
  have ok: "engine_ok bm (length ops) e"
    using engine_run_ok [OF assms(1) engine_new(1) [OF assms(1,2), of vo dm], of ops vo] assms(3-5) by auto
  obtain f where f: "freeze bm vo (active_mutable e) = Some f" "frozen_ok bm f"
      "frozen_lookup bm f = ms_lookup bm (active_mutable e)"
    by (rule freeze_keeps [OF engine_okD(1) [OF ok]])
  have sn: "vs_immutable_segments sn = immutable_segments e" "vs_active sn = f"
    using assms(6) by (auto simp: se_snapshot_def f(1))
  have "frozen_ok bm s \<and> frozen_lookup bm s i = None"
    if "s \<in> set (frozen_segments (snd (delete_internal bm i e)) (vs_immutable_segments sn))" for s
  proof -
    obtain s0 where "s0 \<in> set (frozen_segments e (immutable_segments e))" "s = snd (is_delete bm i s0)"
      using \<open>s \<in> _\<close> by (auto simp: sn delete_internal_segments [OF ok])
    then show ?thesis using engine_frozen_ok [OF ok] by (simp add: is_delete_facts [OF assms(1)])
  qed
  then show ?thesis using f(2,3) assms(7,8) by (intro snapshot_exact_entries) (simp_all add: sn)
qed

theorem snapshot_loses_deleted_witness:
  "\<exists>e sn rs. run_ops (engine_step list_bitmap demo_vo) two_segments demo_engine = Some e \<and>
     contents list_bitmap e ''a'' = Some [1, 0] \<and> se_snapshot list_bitmap demo_vo e = Some sn \<and>
     vs_search_with_contract list_bitmap demo_vo [3, 7] 2 Exact sn (snd (delete_internal list_bitmap ''a'' e)) = Some rs \<and>
     ''a'' \<notin> fst ` set rs"
proof -
  obtain e where e: "run_ops (engine_step list_bitmap demo_vo) two_segments demo_engine = Some e"
      "contents list_bitmap e = [''a'' \<mapsto> [1, 0], ''b'' \<mapsto> [0, 1]]"
      "ms_lookup list_bitmap (active_mutable e) = [''b'' \<mapsto> [0, 1]]" "engine_ok list_bitmap 2 e"
    using two_segments_run by blast
  obtain f where "freeze list_bitmap demo_vo (active_mutable e) = Some f"
    by (rule freeze_keeps [OF engine_okD(1) [OF e(4)]])
  then obtain sn where sn: "se_snapshot list_bitmap demo_vo e = Some sn" by (simp add: se_snapshot_def)
  have "list_all (well_dimensioned demo_vo 2) two_segments" "length two_segments < 2 ^ 32"
    by (simp_all add: two_segments_def demo_vo_def)
  from snapshot_loses_deleted [OF list_bitmap_ok _ this(2,1) e(1) [unfolded demo_engine_def] sn,
      where i = "''a''" and k = 2 and q = "[3, 7]"]
  show ?thesis using e sn by auto
qed

section \<open>Compaction beside a rotation\<close>

lemma engine_add_frozen:
  assumes ok: "engine_ok bm n e" and s: "frozen_ok bm s"
  shows "engine_ok bm n (e\<lparr>next_segment_id := Suc (next_segment_id e), se_heap := (se_heap e)(next_segment_id e \<mapsto> s)\<rparr>)"
    (is "engine_ok bm n ?e")
    and "contents bm (e\<lparr>next_segment_id := Suc (next_segment_id e), se_heap := (se_heap e)(next_segment_id e \<mapsto> s)\<rparr>) =
      contents bm e"
proof -
  have "se_heap e r \<noteq> None \<Longrightarrow> r \<noteq> next_segment_id e" for r using engine_okD(7) [OF ok, of r] by auto
  then have segs: "frozen_segments ?e (immutable_segments e) = frozen_segments e (immutable_segments e)"
    using engine_okD(10) [OF ok] unfolding engine_segments [OF ok]
    by (subst frozen_segments_map) (auto simp: map_eq_conv)
  have maps: "engine_maps bm ?e = engine_maps bm e" unfolding engine_maps_def using segs by simp
  show "contents bm ?e = contents bm e" unfolding contents_def maps ..
  have heap: "r < Suc (next_segment_id e) \<and> frozen_ok bm s'"
    if "((se_heap e)(next_segment_id e \<mapsto> s)) r = Some s'" for r s'
    using that s engine_okD(7,8) [OF ok, of r s'] by (auto split: if_splits)
  show "engine_ok bm n ?e"
    unfolding engine_ok_def maps
  proof (intro conjI allI impI ballI)
    show "vectors_held ?e \<le> n" using engine_okD(12) [OF ok] segs by (simp add: vectors_held_def)
  qed (use heap engine_okD [OF ok] in auto)
qed



end
