(* ===== verification/Vector_Wal.thy ===== *)
theory Vector_Wal
  imports Vector_Search Wal_Recovery
begin

text \<open>
  The segmented engine on top of the write-ahead log: logged inserts and deletes, and the engine that
  \<^verbatim>\<open>recover_from_wal\<close> builds from the log after a restart.
\<close>

section \<open>Clients\<close>

datatype 'v client_op = PutVector string 'v | DropVector string

text \<open>A call that panics or reports an error has no result.\<close>

fun client_step ::
  "'b bitmap_ops \<Rightarrow> ('v, 'f, 'x, 'p) vector_ops \<Rightarrow> ('v, 'd) wal_mutation wal_codec \<Rightarrow> 'v client_op \<Rightarrow>
     ('v, 'x, 'b, 'p, 'd) segmented_engine \<Rightarrow> ('v, 'x, 'b, 'p, 'd) segmented_engine option" where
  "client_step bm vo cd (PutVector i v) e =
     (case se_insert bm vo cd i v e of Some (Inr _, e') \<Rightarrow> Some e' | _ \<Rightarrow> None)"
| "client_step bm vo cd (DropVector i) e = map_option snd (se_delete bm cd i e)"

fun log_record :: "'v client_op \<Rightarrow> ('v, 'd) wal_mutation" where
  "log_record (PutVector i v) = WalUpsert i v None"
| "log_record (DropVector i) = WalDelete i"

fun client_map :: "'v client_op \<Rightarrow> (string \<rightharpoonup> 'v) \<Rightarrow> (string \<rightharpoonup> 'v)" where
  "client_map (PutVector i v) c = c(i \<mapsto> v)"
| "client_map (DropVector i) c = c(i := None)"

fun client_ok ::
  "('v, 'f, 'x, 'p) vector_ops \<Rightarrow> nat \<Rightarrow> ('v, 'd) wal_mutation wal_codec \<Rightarrow> 'v client_op \<Rightarrow> bool" where
  "client_ok vo dm cd (PutVector i v) \<longleftrightarrow> v_dimension vo v = dm \<and> wc_ser cd (WalUpsert i v None) \<noteq> None"
| "client_ok vo dm cd (DropVector i) \<longleftrightarrow> wc_ser cd (WalDelete i) \<noteq> None"

lemma client_ok_ser: "client_ok vo dm cd oper \<Longrightarrow> \<exists>p. wc_ser cd (log_record oper) = Some p"
  by (cases oper) auto

section \<open>Logging\<close>

text \<open>One acknowledged append adds one record.\<close>

lemma quiet_append_record:
  assumes cd: "wal_codec_ok cd" and ok: "wal_ok cd w parts" and lsn: "current_lsn w < u64_max"
    and ser: "wc_ser cd x = Some p" and pol: "policy \<noteq> Memory"
  obtains w' parts' where "wal_append cd x policy w = Some (Inr (Suc (current_lsn w)), w')" "wal_ok cd w' parts'"
    "map snd (records parts') = map snd (records parts) @ [x]" "current_lsn w' = Suc (current_lsn w)"
proof -
  have im: "wal_image cd w parts []" "wal_plan w = []" using ok by (simp_all add: wal_ok_def)
  then obtain wr where "wal_writer w = Some wr" by (auto simp: wal_image_def)
  then obtain w' where w': "wal_append cd x policy w = Some (Inr (Suc (current_lsn w)), w')"
    using quiet_append [OF im(2) _ lsn ser pol] by metis
  have step: "wal_step cd (WalAppend x policy) w = Some w'" by (simp add: wal_step_def w')
  have "safe_for 0 (WalAppend x policy :: ('a, 'b) wal_op)" by (simp add: safe_for_def)
  then obtain parts' where p': "wal_ok cd w' parts'"
      "after 0 (records parts') = after 0 (records parts @ logged cd [WalAppend x policy] w)"
    using wal_step_ok [OF cd ok _ step, of 0] by metis
  have pos: "after 0 (records qs) = records qs" if "wal_ok cd m qs" for m qs
    using that by (auto simp: wal_ok_def wal_image_def rec_ok_def filter_id_conv)
  have "records parts' = records parts @ [(Suc (current_lsn w), x)]"
    using p'(2) pos [OF p'(1)] pos [OF ok] pol by (simp add: w' step)
  then show thesis using that w' p'(1) append_acknowledged [OF w' pol] by simp
qed

definition logs ::
  "'b bitmap_ops \<Rightarrow> ('v, 'd) wal_mutation wal_codec \<Rightarrow> 'v client_op list \<Rightarrow>
     ('v, 'x, 'b, 'p, 'd) segmented_engine \<Rightarrow> bool" where
  "logs bm cd ops e \<longleftrightarrow>
     (\<exists>w parts. se_wal e = Some w \<and> wal_ok cd w parts \<and> map snd (records parts) = map log_record ops \<and>
        current_lsn w = length ops)"

lemma logged_step:
  fixes e :: "('v, 'x, 'b, 'p, 'd) segmented_engine"
  assumes bm: "bitmap_ok bm" and cd: "wal_codec_ok cd" and ok: "engine_ok bm (length ops) e" and l: "logs bm cd ops e"
    and pol: "wal_durability e \<noteq> Memory" and n: "Suc (length ops) < 2 ^ 32"
    and c: "client_ok vo (se_dimension e) cd oper"
  obtains e' where "client_step bm vo cd oper e = Some e'" "engine_ok bm (length (ops @ [oper])) e'"
    "logs bm cd (ops @ [oper]) e'" "contents bm e' = client_map oper (contents bm e)"
    "se_dimension e' = se_dimension e" "wal_durability e' = wal_durability e"
proof -
  obtain w parts where w: "se_wal e = Some w" "wal_ok cd w parts" "map snd (records parts) = map log_record ops"
      "current_lsn w = length ops"
    using l by (auto simp: logs_def)
  obtain p where ser: "wc_ser cd (log_record oper) = Some p" using client_ok_ser [OF c] by blast
  have "current_lsn w < u64_max" using n w(4) by (simp add: u64_max_def)
  from quiet_append_record [OF cd w(2) this ser pol] obtain w' parts' where
    w': "wal_append cd (log_record oper) (wal_durability e) w = Some (Inr (Suc (current_lsn w)), w')"
      "wal_ok cd w' parts'" "map snd (records parts') = map snd (records parts) @ [log_record oper]"
      "current_lsn w' = Suc (current_lsn w)"
    by metis
  let ?e = "e\<lparr>se_wal := Some w'\<rparr>"
  have ok': "engine_ok bm (length ops) ?e" using ok by simp
  have logs: "logs bm cd (ops @ [oper]) e'" if "se_wal e' = Some w'" for e' :: "('v, 'x, 'b, 'p, 'd) segmented_engine"
    using that w'(2-4) w(3,4) by (auto simp: logs_def)
  show thesis
  proof (cases oper)
    case (PutVector i v)
    have "v_dimension vo v = se_dimension ?e" using c PutVector by simp
    then obtain e' where "apply_upsert_unlogged bm vo i v ?e = Some (Inr (), e')" "engine_ok bm (Suc (length ops)) e'"
        "contents bm e' = (contents bm ?e)(i \<mapsto> v)" "se_dimension e' = se_dimension ?e"
        "se_wal e' = se_wal ?e" "wal_durability e' = wal_durability ?e"
      by (rule apply_upsert_ok [OF bm ok' _ n])
    then show thesis using that [of e'] logs [of e'] w'(1) w(1) PutVector by (simp add: se_insert_def)
  next
    case (DropVector i)
    then show thesis
      using that [of "snd (delete_internal bm i ?e)"] logs [of "snd (delete_internal bm i ?e)"] w'(1) w(1)
        delete_internal_ok [OF bm ok', of i] engine_ok_mono [of bm "length ops" "snd (delete_internal bm i ?e)" "Suc (length ops)"]
      by (simp add: se_delete_def delete_internal_fields forget_def) (metis prod.collapse)
  qed
qed

lemma logged_run:
  assumes bm: "bitmap_ok bm" and cd: "wal_codec_ok cd"
  shows "engine_ok bm (length ops0) e \<Longrightarrow> logs bm cd ops0 e \<Longrightarrow> wal_durability e \<noteq> Memory \<Longrightarrow>
    length ops0 + length ops < 2 ^ 32 \<Longrightarrow> list_all (client_ok vo (se_dimension e) cd) ops \<Longrightarrow>
    \<exists>e'. run_ops (client_step bm vo cd) ops e = Some e' \<and> logs bm cd (ops0 @ ops) e' \<and>
      contents bm e' = fold client_map ops (contents bm e)"
proof (induction ops arbitrary: ops0 e)
  case (Cons oper ops)
  have "Suc (length ops0) < 2 ^ 32" "client_ok vo (se_dimension e) cd oper" using Cons.prems(4,5) by simp_all
  then obtain e1 where e1: "client_step bm vo cd oper e = Some e1" "engine_ok bm (length (ops0 @ [oper])) e1"
      "logs bm cd (ops0 @ [oper]) e1" "contents bm e1 = client_map oper (contents bm e)"
      "se_dimension e1 = se_dimension e" "wal_durability e1 = wal_durability e"
    by (rule logged_step [OF bm cd Cons.prems(1-3)])
  show ?case using Cons.IH [OF e1(2,3)] Cons.prems(3-5) by (simp add: e1(1,4,5,6))
qed simp

section \<open>Recovering\<close>

lemma replay_apply_step:
  fixes e :: "('v, 'x, 'b, 'p, 'd) segmented_engine"
  assumes bm: "bitmap_ok bm" and ok: "engine_ok bm n e" and n: "Suc n < 2 ^ 32"
    and c: "client_ok vo (se_dimension e) cd oper"
  obtains e' where "replay_apply bm vo l (log_record oper) (Some (e, k)) = (Inr (), Some (e', Suc k))"
    "engine_ok bm (Suc n) e'" "contents bm e' = client_map oper (contents bm e)" "se_dimension e' = se_dimension e"
proof (cases oper)
  case (PutVector i v)
  have "v_dimension vo v = se_dimension e" using c PutVector by simp
  then obtain e' where "apply_upsert_unlogged bm vo i v e = Some (Inr (), e')" "engine_ok bm (Suc n) e'"
      "contents bm e' = (contents bm e)(i \<mapsto> v)" "se_dimension e' = se_dimension e"
    by (rule apply_upsert_ok [OF bm ok _ n])
  then show thesis using that [of e'] PutVector by (simp add: replay_apply_def apply_committed_upsert_def)
next
  case (DropVector i)
  let ?e = "e\<lparr>metadata_store := (metadata_store e)(i := None)\<rparr>"
  have ok': "engine_ok bm n ?e" using ok by simp
  show thesis
    using that [of "snd (delete_internal bm i ?e)"] DropVector delete_internal_ok [OF bm ok', of i]
      engine_ok_mono [of bm n "snd (delete_internal bm i ?e)" "Suc n"]
    by (simp add: replay_apply_def apply_delete_unlogged_def delete_internal_fields forget_def)
qed

lemma replay_run:
  fixes e :: "('v, 'x, 'b, 'p, 'd) segmented_engine"
  assumes bm: "bitmap_ok bm"
  shows "engine_ok bm n e \<Longrightarrow> n + length ops < 2 ^ 32 \<Longrightarrow> list_all (client_ok vo (se_dimension e) cd) ops \<Longrightarrow>
    map snd rs = map log_record ops \<Longrightarrow> \<forall>r \<in> set rs. 0 < fst r \<Longrightarrow>
    accepts 0 (replay_apply bm vo) rs (sm, hi, Some (e, k)) \<and>
    (\<exists>sm' hi' e'. fold (replay_rec 0 (replay_apply bm vo)) rs (sm, hi, Some (e, k)) =
       (sm', hi', Some (e', k + length ops)) \<and> contents bm e' = fold client_map ops (contents bm e))"
proof (induction ops arbitrary: n e rs sm hi k)
  case (Cons oper ops)
  then obtain l rs' where rs: "rs = (l, log_record oper) # rs'" "map snd rs' = map log_record ops" by auto
  have "Suc n < 2 ^ 32" "client_ok vo (se_dimension e) cd oper" using Cons.prems(2,3) by simp_all
  then obtain e1 where e1: "replay_apply bm vo l (log_record oper) (Some (e, k)) = (Inr (), Some (e1, Suc k))"
      "engine_ok bm (Suc n) e1" "contents bm e1 = client_map oper (contents bm e)" "se_dimension e1 = se_dimension e"
    by (rule replay_apply_step [OF bm Cons.prems(1)])
  have rec: "replay_rec 0 (replay_apply bm vo) (l, log_record oper) (sm, hi, Some (e, k)) =
      (count_replayed l sm, max hi l, Some (e1, Suc k))"
    using Cons.prems(5) by (simp add: rs replay_rec_def e1(1))
  from Cons.IH [OF e1(2) _ _ rs(2), of "count_replayed l sm" "max hi l" "Suc k"] Cons.prems(2,3,5)
  show ?case by (auto simp: rs(1) rec e1)
qed simp

text \<open>
  C15. A restarted engine holds what the logged engine held. Run any sequence of fewer than
  \<open>2 ^ 32\<close> inserts and deletes on a fresh engine with a write-ahead log under a policy other than
  \<open>Memory\<close>, with vectors of its dimension that the codec can write and no file system fault. Every
  call succeeds; and opening the log directory again on a fresh engine and calling
  \<^verbatim>\<open>recover_from_wal\<close> succeeds, counts every operation, and yields an engine with the same vectors.
\<close>

theorem engine_recovers_from_wal:
  fixes vo :: "('v, 'f, 'x, 'p) vector_ops" and bm :: "'b bitmap_ops" and cd :: "('v, 'd) wal_mutation wal_codec"
  assumes "bitmap_ok bm" "wal_codec_ok cd" "0 < cap" "policy \<noteq> Memory" "length ops < 2 ^ 32"
    and "list_all (client_ok vo dm cd) ops"
  shows "\<exists>e w e'. run_ops (client_step bm vo cd) ops (set_wal (snd (wal_open [] [])) policy (se_new bm vo dm cap)) = Some e \<and>
    se_wal e = Some w \<and>
    recover_from_wal bm vo cd (set_wal (snd (wal_open (wal_files w) [])) policy (se_new bm vo dm cap)) =
      Some (Inr (length ops), e') \<and>
    contents bm e' = contents bm e \<and> contents bm e = fold client_map ops Map.empty"
proof -
  let ?e0 = "\<lambda>w. set_wal w policy (se_new bm vo dm cap) :: ('v, 'x, 'b, 'p, 'd) segmented_engine"
  have e0: "engine_ok bm 0 (?e0 w)" "contents bm (?e0 w) = Map.empty" "se_dimension (?e0 w) = dm"
      "se_wal (?e0 w) = Some w" "wal_durability (?e0 w) = policy" for w
    using engine_new [OF assms(1,3), of vo dm] by (simp_all add: set_wal_def)
  have "logs bm cd [] (?e0 (snd (wal_open [] [])))"
    using wal_ok_initial by (auto simp: logs_def e0(4) wal_open_def init_active_segment_def wal_fresh_def
        touch_segment_def segment_bytes_def Let_def intro!: exI [of _ "[(1, [])]"])
  then obtain e where e: "run_ops (client_step bm vo cd) ops (?e0 (snd (wal_open [] []))) = Some e"
      "logs bm cd ops e" "contents bm e = fold client_map ops Map.empty"
    using logged_run [OF assms(1,2), of "[]" "?e0 (snd (wal_open [] []))" ops vo] e0 assms(4-6) by auto
  obtain w parts where w: "se_wal e = Some w" "wal_ok cd w parts" "map snd (records parts) = map log_record ops"
    using e(2) by (auto simp: logs_def)
  have im: "wal_image cd w parts []" using w(2) by (simp add: wal_ok_def)
  obtain m0 where o: "wal_open (wal_files w) [] = (Inr (), m0)" "wal_files m0 = wal_files w" "wal_plan m0 = []"
    using open_image [OF image_on_disk [OF im] wal_image_pos [OF im]] by metis
  have "\<forall>r \<in> set (records parts). 0 < fst r" using im by (auto simp: wal_image_def rec_ok_def)
  note run = replay_run [OF assms(1) e0(1) _ _ w(3) this, where k = 0, unfolded e0(2,3)]
  have len: "0 + length ops < 2 ^ 32" using assms(5) by simp
  note run = run [OF len assms(6)]
  obtain sm hi e' where f: "(sm, hi, Some (e', length ops)) = fold (replay_rec 0 (replay_apply bm vo)) (records parts)
       (\<lparr>ws_start_lsn = 0, ws_last_applied_lsn = 0, ws_total_replayed = 0,
         ws_torn_records_skipped = 0, ws_active_segment_count = length parts\<rparr>, 0, Some (?e0 m0, 0))"
      "contents bm e' = fold client_map ops Map.empty"
    using run [THEN conjunct2] by (metis add_0)
  obtain t where "wal_replay cd 0 (replay_apply bm vo) (Some (?e0 m0, 0)) m0 =
      (Inr (sm\<lparr>ws_torn_records_skipped := ws_torn_records_skipped sm + t\<rparr>), Some (e', length ops),
       m0\<lparr>current_lsn := hi, last_synced_lsn := hi, recovered_records := ws_total_replayed sm\<rparr>)"
    by (rule replay_disk_image [OF assms(2) o(3) image_on_disk [OF im, folded o(2)] torn_tail_Nil f(1) run [THEN conjunct1]])
  then have "recover_from_wal bm vo cd (?e0 m0) = Some (Inr (length ops),
      e'\<lparr>se_wal := Some (m0\<lparr>current_lsn := hi, last_synced_lsn := hi, recovered_records := ws_total_replayed sm\<rparr>)\<rparr>)"
    by (simp add: recover_from_wal_def e0(4))
  then show ?thesis using e(1,3) w(1) f(2) o(1) by auto
qed

text \<open>A codec that writes three records.\<close>

definition tiny_codec :: "(int list, unit) wal_mutation wal_codec" where
  "tiny_codec =
     \<lparr>wc_crc = (\<lambda>bs. word_of_nat (length bs)),
      wc_ser = (\<lambda>x. if x = WalUpsert ''a'' [1, 0] None then Some [1] else if x = WalUpsert ''b'' [0, 1] None then Some [2]
                    else if x = WalDelete ''a'' then Some [3] else None),
      wc_de = (\<lambda>bs. if bs = [1] then Some (WalUpsert ''a'' [1, 0] None) else if bs = [2] then Some (WalUpsert ''b'' [0, 1] None)
                    else if bs = [3] then Some (WalDelete ''a'') else None)\<rparr>"

lemma tiny_codec_ok: "wal_codec_ok tiny_codec"
  by (simp add: wal_codec_ok_def tiny_codec_def)

definition demo_client_ops :: "int list client_op list" where
  "demo_client_ops = [PutVector ''a'' [1, 0], PutVector ''b'' [0, 1], DropVector ''a'']"

lemma demo_client_facts:
  "list_all (client_ok demo_vo 2 tiny_codec) demo_client_ops" "length demo_client_ops = 3"
  "fold client_map demo_client_ops Map.empty = [''b'' \<mapsto> [0, 1]]"
  by (auto simp: demo_client_ops_def demo_vo_def tiny_codec_def fun_eq_iff)

theorem engine_recovers_from_wal_witness:
  "\<exists>e w e'. run_ops (client_step list_bitmap demo_vo tiny_codec) demo_client_ops
       (set_wal (snd (wal_open [] [])) WalSync (se_new list_bitmap demo_vo 2 1)) = Some e \<and> se_wal e = Some w \<and>
     recover_from_wal list_bitmap demo_vo tiny_codec
       (set_wal (snd (wal_open (wal_files w) [])) WalSync (se_new list_bitmap demo_vo 2 1)) = Some (Inr 3, e') \<and>
     contents list_bitmap e' = [''b'' \<mapsto> [0, 1]]"
proof -
  have "(0::nat) < 1" "WalSync \<noteq> Memory" "length demo_client_ops < 2 ^ 32" by (simp_all add: demo_client_facts(2))
  from engine_recovers_from_wal [OF list_bitmap_ok tiny_codec_ok this demo_client_facts(1)]
  show ?thesis unfolding demo_client_facts(2,3) by metis
qed

text \<open>
  C35. A refused insert destroys data. When an engine holds a vector under an identifier and an
  insert with a vector of another dimension is made under it, the call reports the mismatch, and the
  stored vector is gone: the old vector is deleted before the new one is checked. Everything else the
  engine holds stays.
\<close>

theorem refused_insert_deletes:
  fixes vo :: "('v, 'f, 'x, 'p) vector_ops" and e :: "('v, 'x, 'b, 'p, 'd) segmented_engine"
  assumes "bitmap_ok bm" "0 < cap" "length ops < 2 ^ 32" "list_all (well_dimensioned vo dm) ops"
    and "run_ops (engine_step bm vo) ops (se_new bm vo dm cap) = Some e" "v_dimension vo v \<noteq> dm"
  shows "\<exists>e'. se_insert bm vo cd i v e = Some (Inl (DimensionMismatch dm (v_dimension vo v)), e') \<and>
    contents bm e' i = None \<and> (\<forall>j. j \<noteq> i \<longrightarrow> contents bm e' j = contents bm e j)"
proof -
  have ok: "engine_ok bm (length ops) e" and e: "se_dimension e = dm" "se_wal e = None"
    using engine_run_ok [OF assms(1) engine_new(1) [OF assms(1,2), of vo dm], of ops vo] assms(3-5) by auto
  note d = delete_internal_ok [OF assms(1) ok, of i]
  let ?e = "snd (delete_internal bm i e)"
  have "ms_insert bm vo i v (active_mutable ?e) = (Inl (DimensionMismatch dm (v_dimension vo v)), active_mutable ?e)"
    using assms(6) engine_okD(2) [OF d(1)] e(1) by (simp add: ms_insert_def delete_internal_fields)
  then have "se_insert bm vo cd i v e = Some (Inl (DimensionMismatch dm (v_dimension vo v)), ?e)"
    by (simp add: se_insert_def e(2) apply_upsert_unlogged_def insert_active_def)
  then show ?thesis using d(2) by simp
qed

theorem refused_insert_deletes_witness:
  "\<exists>e e'. run_ops (engine_step list_bitmap demo_vo) two_segments demo_engine = Some e \<and>
     contents list_bitmap e ''a'' = Some [1, 0] \<and>
     se_insert list_bitmap demo_vo \<lparr>wc_crc = (\<lambda>bs. 0), wc_ser = (\<lambda>x. None), wc_de = (\<lambda>bs. None)\<rparr> ''a'' [9] e =
       Some (Inl (DimensionMismatch 2 1), e') \<and>
     contents list_bitmap e' ''a'' = None \<and> contents list_bitmap e' ''b'' = Some [0, 1]"
proof -
  obtain e where e: "run_ops (engine_step list_bitmap demo_vo) two_segments demo_engine = Some e"
      "contents list_bitmap e = [''a'' \<mapsto> [1, 0], ''b'' \<mapsto> [0, 1]]"
    using two_segments_run by blast
  have "list_all (well_dimensioned demo_vo 2) two_segments" "length two_segments < 2 ^ 32" "v_dimension demo_vo [9] = 1"
    by (simp_all add: two_segments_def demo_vo_def)
  from refused_insert_deletes [OF list_bitmap_ok _ this(2,1) e(1) [unfolded demo_engine_def],
      where v = "[9]" and i = "''a''" and cd = "\<lparr>wc_crc = (\<lambda>bs. 0), wc_ser = (\<lambda>x. None), wc_de = (\<lambda>bs. None)\<rparr>"] this(3)
  show ?thesis using e by auto
qed

end
