(* ===== verification/Sql_Engine.thy ===== *)
theory Sql_Engine
  imports Complex_Main Holo_Prelude
begin

text \<open>
  The relational engine of \<^verbatim>\<open>src/src/storage/relational_acid.rs\<close>: typed column vectors, columnar
  tables with a primary-key index and value indexes, transactions with staged writes, row-level
  security, committed row mutations and snapshots.

  A row is a map from column names to values; \<^verbatim>\<open>f64\<close> is \<open>rat\<close>, \<^verbatim>\<open>i64\<close> is \<open>int\<close>. The locks around
  the tables are not shared outside the engine, so tables are held by value. An index outside a
  vector panics, the value \<open>None\<close>.
\<close>

section \<open>Values and schemas\<close>

datatype sql_type = SqlInteger | SqlText | SqlFloat | SqlBoolean | SqlTimestamp

datatype sql_value = NullValue | IntegerValue int | TextValue string | FloatValue rat | BooleanValue bool

record column_definition =
  col_name :: string
  data_type :: sql_type
  is_primary_key :: bool
  is_nullable :: bool
  foreign_key_target :: "(string \<times> string) option"

record table_schema =
  ts_name :: string
  ts_columns :: "column_definition list"
  primary_key_column :: string

type_synonym relational_row = "string \<rightharpoonup> sql_value"

record row_level_security_policy =
  tenant_column :: string
  allowed_tenant_id :: string

definition rls_allows :: "row_level_security_policy \<Rightarrow> relational_row \<Rightarrow> bool" where
  "rls_allows p row =
     (case row (tenant_column p) of Some (TextValue val) \<Rightarrow> val = allowed_tenant_id p | _ \<Rightarrow> False)"

datatype transaction_state = TxActive | TxCommitted | TxAborted

record acid_transaction =
  transaction_id :: nat
  tx_state :: transaction_state
  read_snapshot_version :: nat
  locked_keys :: "(string \<times> string) set"
  uncommitted_writes :: "(string \<times> string \<times> relational_row option) list"

section \<open>Column vectors\<close>

datatype typed_column_vector =
    IntegerColumn "int list"
  | TextColumn "string list"
  | FloatColumn "rat list"
  | BooleanColumn "bool list"

fun column_new :: "sql_type \<Rightarrow> typed_column_vector" where
  "column_new SqlInteger = IntegerColumn []"
| "column_new SqlTimestamp = IntegerColumn []"
| "column_new SqlText = TextColumn []"
| "column_new SqlFloat = FloatColumn []"
| "column_new SqlBoolean = BooleanColumn []"

fun column_len :: "typed_column_vector \<Rightarrow> nat" where
  "column_len (IntegerColumn v) = length v"
| "column_len (TextColumn v) = length v"
| "column_len (FloatColumn v) = length v"
| "column_len (BooleanColumn v) = length v"

definition column_is_empty :: "typed_column_vector \<Rightarrow> bool" where
  "column_is_empty c \<longleftrightarrow> column_len c = 0"

fun push_value :: "typed_column_vector \<Rightarrow> sql_value \<Rightarrow> typed_column_vector" where
  "push_value (IntegerColumn v) x = IntegerColumn (v @ [case x of IntegerValue i \<Rightarrow> i | _ \<Rightarrow> 0])"
| "push_value (TextColumn v) x = TextColumn (v @ [case x of TextValue s \<Rightarrow> s | _ \<Rightarrow> []])"
| "push_value (FloatColumn v) x = FloatColumn (v @ [case x of FloatValue f \<Rightarrow> f | _ \<Rightarrow> 0])"
| "push_value (BooleanColumn v) x = BooleanColumn (v @ [case x of BooleanValue b \<Rightarrow> b | _ \<Rightarrow> False])"

fun get_value :: "typed_column_vector \<Rightarrow> nat \<Rightarrow> sql_value" where
  "get_value (IntegerColumn v) k = (if k < length v then IntegerValue (v ! k) else NullValue)"
| "get_value (TextColumn v) k = (if k < length v then TextValue (v ! k) else NullValue)"
| "get_value (FloatColumn v) k = (if k < length v then FloatValue (v ! k) else NullValue)"
| "get_value (BooleanColumn v) k = (if k < length v then BooleanValue (v ! k) else NullValue)"

text \<open>A value of another type leaves the cell as it is; so does an index past the end.\<close>

fun set_value :: "typed_column_vector \<Rightarrow> nat \<Rightarrow> sql_value \<Rightarrow> typed_column_vector" where
  "set_value (IntegerColumn v) k (IntegerValue i) = IntegerColumn (v[k := i])"
| "set_value (TextColumn v) k (TextValue s) = TextColumn (v[k := s])"
| "set_value (FloatColumn v) k (FloatValue f) = FloatColumn (v[k := f])"
| "set_value (BooleanColumn v) k (BooleanValue b) = BooleanColumn (v[k := b])"
| "set_value c k x = c"

text \<open>Decimal notation, as \<^verbatim>\<open>to_string\<close> gives it.\<close>

fun nat_digits :: "nat \<Rightarrow> string" where
  "nat_digits n = (if n < 10 then [char_of (48 + n)] else nat_digits (n div 10) @ [char_of (48 + n mod 10)])"

declare nat_digits.simps [simp del]

definition int_digits :: "int \<Rightarrow> string" where
  "int_digits i = (if i < 0 then ''-'' @ nat_digits (nat (- i)) else nat_digits (nat i))"

fun sql_value_index_key :: "sql_value \<Rightarrow> string option" where
  "sql_value_index_key (IntegerValue i) = Some (''i:'' @ int_digits i)"
| "sql_value_index_key (TextValue s) = Some (''t:'' @ s)"
| "sql_value_index_key (BooleanValue b) = Some (''b:'' @ (if b then ''true'' else ''false''))"
| "sql_value_index_key (FloatValue f) = None"
| "sql_value_index_key NullValue = None"

section \<open>Columnar tables\<close>

record columnar_table =
  ct_schema :: table_schema
  ct_columns :: "string \<rightharpoonup> typed_column_vector"
  pk_index :: "string \<rightharpoonup> nat"
  col_indexes :: "string \<rightharpoonup> (string \<rightharpoonup> nat list)"
  ct_is_deleted :: "bool list"
  row_versions :: "nat list"

definition table_new :: "table_schema \<Rightarrow> columnar_table" where
  "table_new sch =
     \<lparr>ct_schema = sch,
      ct_columns = fold (\<lambda>c m. m(col_name c \<mapsto> column_new (data_type c))) (ts_columns sch) Map.empty,
      pk_index = Map.empty, col_indexes = Map.empty, ct_is_deleted = [], row_versions = []\<rparr>"

definition cell :: "relational_row \<Rightarrow> string \<Rightarrow> sql_value" where
  "cell row n = (case row n of None \<Rightarrow> NullValue | Some v \<Rightarrow> v)"

text \<open>Taking a row out of the index of one column, and putting it in.\<close>

definition remove_slot :: "sql_value \<Rightarrow> nat \<Rightarrow> (string \<rightharpoonup> nat list) option \<Rightarrow> (string \<rightharpoonup> nat list) option" where
  "remove_slot v k ix =
     (case (sql_value_index_key v, ix) of
        (Some key, Some m) \<Rightarrow>
          (case m key of None \<Rightarrow> Some m | Some slots \<Rightarrow> Some (m(key \<mapsto> filter (\<lambda>s. s \<noteq> k) slots)))
      | _ \<Rightarrow> ix)"

definition add_slot :: "sql_value \<Rightarrow> nat \<Rightarrow> (string \<rightharpoonup> nat list) option \<Rightarrow> (string \<rightharpoonup> nat list) option" where
  "add_slot v k ix =
     (case sql_value_index_key v of
        None \<Rightarrow> ix
      | Some key \<Rightarrow>
          (let m = (case ix of None \<Rightarrow> Map.empty | Some m \<Rightarrow> m) in
           Some (m(key \<mapsto> (case m key of None \<Rightarrow> [] | Some slots \<Rightarrow> slots) @ [k]))))"

type_synonym column_state = "(string \<rightharpoonup> typed_column_vector) \<times> (string \<rightharpoonup> (string \<rightharpoonup> nat list))"

definition update_column :: "nat \<Rightarrow> relational_row \<Rightarrow> column_definition \<Rightarrow> column_state \<Rightarrow> column_state" where
  "update_column k row c st = (case st of (cols, ixs) \<Rightarrow>
     (case cols (col_name c) of
        None \<Rightarrow> (cols, ixs)
      | Some cv \<Rightarrow>
          (cols(col_name c \<mapsto> set_value cv k (cell row (col_name c))),
           ixs(col_name c := add_slot (cell row (col_name c)) k
                 (remove_slot (get_value cv k) k (ixs (col_name c)))))))"

definition append_column :: "nat \<Rightarrow> relational_row \<Rightarrow> column_definition \<Rightarrow> column_state \<Rightarrow> column_state" where
  "append_column k row c st = (case st of (cols, ixs) \<Rightarrow>
     (case cols (col_name c) of
        None \<Rightarrow> (cols, ixs)
      | Some cv \<Rightarrow>
          (cols(col_name c \<mapsto> push_value cv (cell row (col_name c))),
           ixs(col_name c := add_slot (cell row (col_name c)) k (ixs (col_name c))))))"

definition unindex_column :: "nat \<Rightarrow> column_definition \<Rightarrow> column_state \<Rightarrow> column_state" where
  "unindex_column k c st = (case st of (cols, ixs) \<Rightarrow>
     (case cols (col_name c) of
        None \<Rightarrow> (cols, ixs)
      | Some cv \<Rightarrow> (cols, ixs(col_name c := remove_slot (get_value cv k) k (ixs (col_name c))))))"

definition insert_or_update ::
  "string \<Rightarrow> relational_row \<Rightarrow> nat \<Rightarrow> columnar_table \<Rightarrow> columnar_table option" where
  "insert_or_update pk row version t =
     (case pk_index t pk of
        Some k \<Rightarrow>
          (case fold (update_column k row) (ts_columns (ct_schema t)) (ct_columns t, col_indexes t) of (cols, ixs) \<Rightarrow>
             if k < length (ct_is_deleted t) \<and> k < length (row_versions t)
             then Some (t\<lparr>ct_columns := cols, col_indexes := ixs, ct_is_deleted := (ct_is_deleted t)[k := False],
                          row_versions := (row_versions t)[k := version]\<rparr>)
             else None)
      | None \<Rightarrow>
          (let k = length (ct_is_deleted t) in
           case fold (append_column k row) (ts_columns (ct_schema t)) (ct_columns t, col_indexes t) of (cols, ixs) \<Rightarrow>
             Some (t\<lparr>ct_columns := cols, col_indexes := ixs, ct_is_deleted := ct_is_deleted t @ [False],
                     row_versions := row_versions t @ [version], pk_index := (pk_index t)(pk \<mapsto> k)\<rparr>)))"

definition table_delete :: "string \<Rightarrow> nat \<Rightarrow> columnar_table \<Rightarrow> columnar_table option" where
  "table_delete pk version t =
     (case pk_index t pk of
        None \<Rightarrow> Some t
      | Some k \<Rightarrow>
          if k < length (ct_is_deleted t)
          then (case fold (unindex_column k) (ts_columns (ct_schema t)) (ct_columns t, col_indexes t) of (cols, ixs) \<Rightarrow>
                  Some (t\<lparr>ct_is_deleted := (ct_is_deleted t)[k := True], col_indexes := ixs\<rparr>))
          else None)"

definition get_row :: "columnar_table \<Rightarrow> nat \<Rightarrow> relational_row option" where
  "get_row t k =
     (if length (ct_is_deleted t) \<le> k \<or> ct_is_deleted t ! k then None
      else Some (fold (\<lambda>c m. case ct_columns t (col_name c) of
                               None \<Rightarrow> m | Some cv \<Rightarrow> m(col_name c \<mapsto> get_value cv k))
                   (ts_columns (ct_schema t)) Map.empty))"

definition iter_rows :: "columnar_table \<Rightarrow> relational_row list" where
  "iter_rows t = List.map_filter (get_row t) [0..<length (ct_is_deleted t)]"

section \<open>The engine\<close>

record relational_sql_engine =
  sql_tables :: "string \<rightharpoonup> table_schema"
  sql_storage :: "string \<rightharpoonup> columnar_table"
  active_transactions :: "nat \<rightharpoonup> acid_transaction"
  next_tx_id :: nat
  current_version :: nat

definition sql_new :: relational_sql_engine where
  "sql_new = \<lparr>sql_tables = Map.empty, sql_storage = Map.empty, active_transactions = Map.empty,
              next_tx_id = 1, current_version = 1\<rparr>"

definition create_table :: "table_schema \<Rightarrow> relational_sql_engine \<Rightarrow> unit res \<times> relational_sql_engine" where
  "create_table sch e =
     (if sql_tables e (ts_name sch) \<noteq> None then (Inl (InvalidRequest ''Table already exists''), e)
      else (Inr (), e\<lparr>sql_storage := (sql_storage e)(ts_name sch \<mapsto> table_new sch),
                      sql_tables := (sql_tables e)(ts_name sch \<mapsto> sch)\<rparr>))"

definition begin_transaction :: "relational_sql_engine \<Rightarrow> nat \<times> relational_sql_engine" where
  "begin_transaction e =
     (let i = next_tx_id e in
      (i, e\<lparr>next_tx_id := i + 1,
            active_transactions := (active_transactions e)(i \<mapsto>
              \<lparr>transaction_id = i, tx_state = TxActive, read_snapshot_version = current_version e,
               locked_keys = {}, uncommitted_writes = []\<rparr>)\<rparr>))"

text \<open>The primary key of a row, as \<^verbatim>\<open>insert\<close> and \<^verbatim>\<open>apply_committed_row_mutation\<close> read it; they differ in
  the text of the error for a missing key, the first argument.\<close>

definition primary_key :: "string \<Rightarrow> table_schema \<Rightarrow> relational_row \<Rightarrow> string res" where
  "primary_key missing sch row =
     (case row (primary_key_column sch) of
        None \<Rightarrow> Inl (InvalidRequest missing)
      | Some (TextValue s) \<Rightarrow> Inr s
      | Some (IntegerValue i) \<Rightarrow> Inr (int_digits i)
      | Some _ \<Rightarrow> Inl (InvalidRequest ''Primary key must be Text or Integer''))"

text \<open>The index lookup of the foreign key check: a live row with the value in the target column.\<close>

definition target_exists :: "columnar_table \<Rightarrow> string \<Rightarrow> sql_value \<Rightarrow> bool" where
  "target_exists t n v =
     (case sql_value_index_key v of
        None \<Rightarrow> False
      | Some key \<Rightarrow>
          (case col_indexes t n of
             None \<Rightarrow> False
           | Some m \<Rightarrow>
               (case m key of
                  None \<Rightarrow> False
                | Some slots \<Rightarrow>
                    list_ex (\<lambda>s. s < length (ct_is_deleted t) \<and> \<not> ct_is_deleted t ! s) slots)))"

fun check_foreign_keys ::
  "relational_sql_engine \<Rightarrow> relational_row \<Rightarrow> column_definition list \<Rightarrow> unit res" where
  "check_foreign_keys e row [] = Inr ()"
| "check_foreign_keys e row (c # cs) =
     (case (foreign_key_target c, row (col_name c)) of
        (Some (tt, tc), Some v) \<Rightarrow>
          if v = NullValue then check_foreign_keys e row cs
          else (case sql_storage e tt of
                  None \<Rightarrow> Inl (InvalidRequest ''Target table not found'')
                | Some t \<Rightarrow>
                    if target_exists t tc v then check_foreign_keys e row cs
                    else Inl (InvalidRequest ''Foreign key violation''))
      | _ \<Rightarrow> check_foreign_keys e row cs)"

definition sql_insert ::
  "nat \<Rightarrow> string \<Rightarrow> relational_row \<Rightarrow> relational_sql_engine \<Rightarrow> unit res \<times> relational_sql_engine" where
  "sql_insert tx tab row e =
     (case sql_tables e tab of
        None \<Rightarrow> (Inl (InvalidRequest ''Table not found''), e)
      | Some sch \<Rightarrow>
          (case primary_key ''Missing primary key column'' sch row of
             Inl err \<Rightarrow> (Inl err, e)
           | Inr pk \<Rightarrow>
               (case check_foreign_keys e row (ts_columns sch) of
                  Inl err \<Rightarrow> (Inl err, e)
                | Inr _ \<Rightarrow>
                    (case active_transactions e tx of
                       None \<Rightarrow> (Inl (InvalidRequest ''Transaction not active''), e)
                     | Some t \<Rightarrow>
                         (Inr (), e\<lparr>active_transactions := (active_transactions e)(tx \<mapsto>
                            t\<lparr>locked_keys := insert (tab, pk) (locked_keys t),
                              uncommitted_writes := uncommitted_writes t @ [(tab, pk, Some row)]\<rparr>)\<rparr>)))))"

fun apply_writes ::
  "nat \<Rightarrow> (string \<times> string \<times> relational_row option) list \<Rightarrow> (string \<rightharpoonup> columnar_table) \<Rightarrow>
     (string \<rightharpoonup> columnar_table) option" where
  "apply_writes version [] st = Some st"
| "apply_writes version ((tab, pk, w) # ws) st =
     (case st tab of
        None \<Rightarrow> apply_writes version ws st
      | Some t \<Rightarrow>
          do { t' \<leftarrow> (case w of Some row \<Rightarrow> insert_or_update pk row version t | None \<Rightarrow> table_delete pk version t);
               apply_writes version ws (st(tab \<mapsto> t')) })"

definition sql_commit :: "nat \<Rightarrow> relational_sql_engine \<Rightarrow> (unit res \<times> relational_sql_engine) option" where
  "sql_commit tx e =
     (case active_transactions e tx of
        None \<Rightarrow> Some (Inl (InvalidRequest ''Transaction not active''), e)
      | Some t \<Rightarrow>
          do { st \<leftarrow> apply_writes (current_version e + 1) (uncommitted_writes t) (sql_storage e);
               Some (Inr (), e\<lparr>active_transactions := (active_transactions e)(tx := None),
                               current_version := current_version e + 1, sql_storage := st\<rparr>) })"

definition sql_rollback :: "nat \<Rightarrow> relational_sql_engine \<Rightarrow> unit res \<times> relational_sql_engine" where
  "sql_rollback tx e =
     (case active_transactions e tx of
        Some t \<Rightarrow> (Inr (), e\<lparr>active_transactions := (active_transactions e)(tx := None)\<rparr>)
      | None \<Rightarrow> (Inl (InvalidRequest ''Transaction not active''), e))"

definition select_rows ::
  "(relational_row \<Rightarrow> bool) option \<Rightarrow> row_level_security_policy option \<Rightarrow> columnar_table \<Rightarrow> relational_row list" where
  "select_rows pred rls t =
     filter (\<lambda>row. (case rls of None \<Rightarrow> True | Some p \<Rightarrow> rls_allows p row) \<and>
                   (case pred of None \<Rightarrow> True | Some q \<Rightarrow> q row)) (iter_rows t)"

definition execute_select ::
  "string \<Rightarrow> (relational_row \<Rightarrow> bool) option \<Rightarrow> row_level_security_policy option \<Rightarrow> relational_sql_engine \<Rightarrow>
     relational_row list res" where
  "execute_select tab pred rls e =
     (case sql_storage e tab of
        None \<Rightarrow> Inl (InvalidRequest ''Table not found'')
      | Some t \<Rightarrow> Inr (select_rows pred rls t))"

definition apply_committed_row_mutation ::
  "string \<Rightarrow> relational_row \<Rightarrow> bool \<Rightarrow> relational_sql_engine \<Rightarrow> (unit res \<times> relational_sql_engine) option" where
  "apply_committed_row_mutation tab row del e =
     (case sql_tables e tab of
        None \<Rightarrow> Some (Inl (InvalidRequest ''Table does not exist''), e)
      | Some sch \<Rightarrow>
          (case primary_key ''Row missing primary key'' sch row of
             Inl err \<Rightarrow> Some (Inl err, e)
           | Inr pk \<Rightarrow>
               (let version = current_version e + 1;
                    t = (case sql_storage e tab of None \<Rightarrow> table_new sch | Some t \<Rightarrow> t) in
                do { t' \<leftarrow> (if del then table_delete pk version t else insert_or_update pk row version t);
                     Some (Inr (), e\<lparr>current_version := version, sql_storage := (sql_storage e)(tab \<mapsto> t')\<rparr>) })))"

definition get_table_schema :: "string \<Rightarrow> relational_sql_engine \<Rightarrow> table_schema option" where
  "get_table_schema tab e = sql_tables e tab"

section \<open>Snapshots\<close>

record relational_sql_snapshot =
  rs_tables :: "string \<rightharpoonup> table_schema"
  rs_storage :: "string \<rightharpoonup> columnar_table"
  rs_version :: nat

definition sql_snapshot :: "relational_sql_engine \<Rightarrow> relational_sql_snapshot" where
  "sql_snapshot e = \<lparr>rs_tables = sql_tables e, rs_storage = sql_storage e, rs_version = current_version e\<rparr>"

definition snapshot_execute_select ::
  "string \<Rightarrow> (relational_row \<Rightarrow> bool) option \<Rightarrow> row_level_security_policy option \<Rightarrow> relational_sql_snapshot \<Rightarrow>
     relational_row list res" where
  "snapshot_execute_select tab pred rls s =
     (case rs_storage s tab of
        None \<Rightarrow> Inl (InvalidRequest ''Table not found in snapshot'')
      | Some t \<Rightarrow> Inr (select_rows pred rls t))"

definition snapshot_get_table_schema :: "string \<Rightarrow> relational_sql_snapshot \<Rightarrow> table_schema option" where
  "snapshot_get_table_schema tab s = rs_tables s tab"

end
