(* ===== verification/Spec2Isabelle.thy ===== *)
theory Spec2Isabelle
  imports Raft_Safety Raft_Durable Raft_Apply Raft_Limits Wal_Limits Hypercube_Slice
    Vector_Limits Vector_Wal Sql_Engine
begin

text \<open>HoloSphere.\<close>

end
